(* ===== verification/Fid_Prelude.thy ===== *)
theory Fid_Prelude
  imports Main "HOL-Library.Word"
begin

text \<open>
  Shared vocabulary of the development.  It fixes how Rust values are read in HOL: unsigned
  integers are words of their width, \<open>usize\<close> is a natural number below \<open>2 ^ 64\<close> (every
  supported target is a 64-bit one) whose checked operations return \<open>None\<close> on overflow, a
  slice is a list, and a computation that may unwind is a value of type \<open>exec\<close>.  The
  section on bytes gives the little-endian and big-endian readers that every format reader
  shares, with the lemmas that carry their proofs.
\<close>

unbundle bit_operations_syntax

named_theorems rust_defs \<open>definitions of the Rust primitives\<close>
named_theorems slice_simps \<open>facts about slices and byte readers\<close>

section \<open>Machine integers\<close>

type_synonym u8 = "8 word"
type_synonym u16 = "16 word"
type_synonym u32 = "32 word"
type_synonym u64 = "64 word"
type_synonym bytes = "u8 list"

definition usize_bound :: nat where
  "usize_bound = 2 ^ 64"

definition checked_add :: "nat \<Rightarrow> nat \<Rightarrow> nat option" where
  "checked_add a b = (if a + b < usize_bound then Some (a + b) else None)"

definition checked_sub :: "nat \<Rightarrow> nat \<Rightarrow> nat option" where
  "checked_sub a b = (if b \<le> a then Some (a - b) else None)"

definition checked_mul :: "nat \<Rightarrow> nat \<Rightarrow> nat option" where
  "checked_mul a b = (if a * b < usize_bound then Some (a * b) else None)"

definition checked_add_word :: "'a::len word \<Rightarrow> 'a word \<Rightarrow> 'a word option" where
  "checked_add_word a b = (if unat a + unat b < 2 ^ LENGTH('a) then Some (a + b) else None)"

definition checked_sub_word :: "'a::len word \<Rightarrow> 'a word \<Rightarrow> 'a word option" where
  "checked_sub_word a b = (if b \<le> a then Some (a - b) else None)"

definition saturating_add :: "'a::len word \<Rightarrow> 'a word \<Rightarrow> 'a word" where
  "saturating_add a b = (if unat a + unat b < 2 ^ LENGTH('a) then a + b else - 1)"

definition saturating_sub :: "'a::len word \<Rightarrow> 'a word \<Rightarrow> 'a word" where
  "saturating_sub a b = (if b \<le> a then a - b else 0)"

declare checked_add_def [rust_defs] checked_sub_def [rust_defs] checked_mul_def [rust_defs]
  checked_add_word_def [rust_defs] checked_sub_word_def [rust_defs]

lemma checked_add_Some [simp]:
  "checked_add a b = Some c \<longleftrightarrow> c = a + b \<and> a + b < usize_bound"
  by (auto simp: checked_add_def)

lemma checked_sub_Some [simp]:
  "checked_sub a b = Some c \<longleftrightarrow> c = a - b \<and> b \<le> a"
  by (auto simp: checked_sub_def)

lemma checked_mul_Some [simp]:
  "checked_mul a b = Some c \<longleftrightarrow> c = a * b \<and> a * b < usize_bound"
  by (auto simp: checked_mul_def)

lemma checked_add_word_Some:
  "checked_add_word a b = Some c \<longleftrightarrow> c = a + b \<and> unat c = unat a + unat b"
  for a b :: "'a::len word"
proof -
  have "unat (a + b) = unat a + unat b \<longleftrightarrow> unat a + unat b < 2 ^ LENGTH('a)"
    by (metis unat_add_lem unsigned_less)
  then show ?thesis by (auto simp: checked_add_word_def)
qed

lemma unat_saturating_add:
  "unat (saturating_add a b) = min (unat a + unat b) (2 ^ LENGTH('a) - 1)"
  for a b :: "'a::len word"
proof (cases "unat a + unat b < 2 ^ LENGTH('a)")
  case True
  then have "unat (a + b) = unat a + unat b" by (metis unat_add_lem)
  with True show ?thesis by (simp add: saturating_add_def)
next
  case False
  then have "min (unat a + unat b) (2 ^ LENGTH('a) - 1) = 2 ^ LENGTH('a) - 1" by simp
  with False show ?thesis
    by (simp add: saturating_add_def unsigned_minus_1_eq_mask mask_eq_exp_minus_1)
qed

lemma unat_saturating_sub: "unat (saturating_sub a b) = unat a - unat b"
  by (auto simp: saturating_sub_def unat_sub word_le_nat_alt)

section \<open>Computations that may unwind\<close>

text \<open>
  \<open>Panic\<close> is an unwinding panic; \<open>catch_unwind\<close> is the only eliminator that the program
  uses, so a panic is a value and not an abort.
\<close>

datatype 'a exec = Panic | Returns 'a

fun exec_bind :: "'a exec \<Rightarrow> ('a \<Rightarrow> 'b exec) \<Rightarrow> 'b exec" where
  "exec_bind Panic f = Panic"
| "exec_bind (Returns x) f = f x"

fun catch_unwind :: "'a exec \<Rightarrow> 'a \<Rightarrow> 'a" where
  "catch_unwind Panic d = d"
| "catch_unwind (Returns x) d = x"

lemma exec_bind_Returns [simp]:
  "exec_bind m f = Returns y \<longleftrightarrow> (\<exists>x. m = Returns x \<and> f x = Returns y)"
  by (cases m) auto

text \<open>\<open>std::io::ErrorKind\<close>, as far as the program tells the kinds apart.\<close>

datatype error_kind = ConnectionRefused | TimedOut | WouldBlock | Interrupted | OtherKind

section \<open>Slices\<close>

definition slice_get :: "'a list \<Rightarrow> nat \<Rightarrow> 'a option" where
  "slice_get xs i = (if i < length xs then Some (xs ! i) else None)"

definition slice_range :: "'a list \<Rightarrow> nat \<Rightarrow> nat \<Rightarrow> 'a list option" where
  "slice_range xs s e = (if s \<le> e \<and> e \<le> length xs then Some (take (e - s) (drop s xs)) else None)"

lemma slice_range_Some:
  "slice_range xs s e = Some ys \<longleftrightarrow> s \<le> e \<and> e \<le> length xs \<and> ys = take (e - s) (drop s xs)"
  by (auto simp: slice_range_def)

lemma slice_range_length [slice_simps]:
  "slice_range xs s e = Some ys \<Longrightarrow> length ys = e - s"
  by (auto simp: slice_range_Some)

lemma slice_range_append [slice_simps]:
  "slice_range (xs @ ys @ zs) (length xs) (length xs + length ys) = Some ys"
  by (simp add: slice_range_def)

lemma slice_range_decomp:
  assumes "slice_range xs s e = Some ys"
  shows "xs = take s xs @ ys @ drop e xs"
proof -
  from assms have le: "s \<le> e" and ys: "ys = take (e - s) (drop s xs)"
    by (auto simp: slice_range_Some)
  have "take (e - s) (drop s xs) @ drop e xs = drop s xs"
    by (metis append_take_drop_id drop_drop le le_add_diff_inverse2)
  then show ?thesis using ys by (metis append_take_drop_id)
qed

lemma slice_range_nested:
  assumes "slice_range xs a b = Some ys" and "slice_range ys c d = Some zs"
  shows "slice_range xs (a + c) (a + d) = Some zs"
proof -
  from assms have ab: "a \<le> b" "b \<le> length xs" and ys: "ys = take (b - a) (drop a xs)"
    and cd: "c \<le> d" "d \<le> length ys" and zs: "zs = take (d - c) (drop c ys)"
    by (auto simp: slice_range_Some)
  from ab ys cd have d: "d \<le> b - a" by simp
  then have "zs = take (d - c) (drop (a + c) xs)"
    using zs ys by (simp add: drop_take min_def add.commute)
  with ab cd d show ?thesis by (auto simp: slice_range_Some)
qed

section \<open>Byte order\<close>

fun le_nat :: "bytes \<Rightarrow> nat" where
  "le_nat [] = 0"
| "le_nat (b # bs) = unat b + 256 * le_nat bs"

fun to_le :: "nat \<Rightarrow> nat \<Rightarrow> bytes" where
  "to_le 0 v = []"
| "to_le (Suc n) v = of_nat (v mod 256) # to_le n (v div 256)"

definition be_nat :: "bytes \<Rightarrow> nat" where
  "be_nat bs = le_nat (rev bs)"

definition to_be :: "nat \<Rightarrow> nat \<Rightarrow> bytes" where
  "to_be n v = rev (to_le n v)"

lemma length_to_le [simp]: "length (to_le n v) = n"
  by (induction n v rule: to_le.induct) auto

lemma length_to_be [simp]: "length (to_be n v) = n"
  by (simp add: to_be_def)

lemma le_nat_bound: "le_nat bs < 256 ^ length bs"
proof (induction bs)
  case (Cons b bs)
  have "unat b < 256" using unsigned_less [of b] by simp
  with Cons.IH have "unat b + 256 * le_nat bs < 256 + 256 * (256 ^ length bs - 1)"
    by (simp add: le_diff_conv2 less_eq_Suc_le add_less_le_mono)
  then show ?case by (simp add: algebra_simps)
qed simp

lemma le_nat_to_le: "le_nat (to_le n v) = v mod 256 ^ n"
proof (induction n v rule: to_le.induct)
  case (2 n v)
  have byte: "unat (of_nat (v mod 256) :: u8) = v mod 256"
    by (simp add: unat_of_nat)
  have "v mod 256 + 256 * (v div 256 mod 256 ^ n) = v mod 256 ^ Suc n"
    by (simp add: mod_mult2_eq)
  with 2 byte show ?case by simp
qed simp

lemma to_le_le_nat: "to_le (length bs) (le_nat bs) = bs"
proof (induction bs)
  case (Cons b bs)
  have b: "unat b < 256" using unsigned_less [of b] by simp
  with Cons.IH show ?case by simp
qed simp

lemma le_nat_inj: "length xs = length ys \<Longrightarrow> le_nat xs = le_nat ys \<Longrightarrow> xs = ys"
  by (metis to_le_le_nat)

lemma le_nat_zero_iff: "le_nat bs = 0 \<longleftrightarrow> (\<forall>b \<in> set bs. b = 0)"
  by (induction bs) (auto simp: unat_eq_zero)

text \<open>Reading one unsigned field, as the readers do: a checked end, a checked range.\<close>

definition read_le :: "nat \<Rightarrow> bytes \<Rightarrow> nat \<Rightarrow> nat option" where
  "read_le n bs at =
     Option.bind (checked_add at n) (\<lambda>e. Option.bind (slice_range bs at e) (\<lambda>f. Some (le_nat f)))"

definition read_be :: "nat \<Rightarrow> bytes \<Rightarrow> nat \<Rightarrow> nat option" where
  "read_be n bs at =
     Option.bind (checked_add at n) (\<lambda>e. Option.bind (slice_range bs at e) (\<lambda>f. Some (be_nat f)))"

lemma read_le_Some:
  "read_le n bs at = Some v \<longleftrightarrow>
     at + n < usize_bound \<and> at + n \<le> length bs \<and> v = le_nat (take n (drop at bs))"
  by (auto simp: read_le_def bind_eq_Some_conv slice_range_Some)

lemma read_be_Some:
  "read_be n bs at = Some v \<longleftrightarrow>
     at + n < usize_bound \<and> at + n \<le> length bs \<and> v = be_nat (take n (drop at bs))"
  by (auto simp: read_be_def bind_eq_Some_conv slice_range_Some)

lemma be_nat_to_be: "be_nat (to_be n v) = v mod 256 ^ n"
  by (simp add: be_nat_def to_be_def le_nat_to_le)

lemma read_be_eval:
  "at + n < usize_bound \<Longrightarrow> at + n \<le> length bs \<Longrightarrow> read_be n bs at = Some (be_nat (take n (drop at bs)))"
  by (simp add: read_be_Some)

lemma read_le_eval:
  "at + n < usize_bound \<Longrightarrow> at + n \<le> length bs \<Longrightarrow> read_le n bs at = Some (le_nat (take n (drop at bs)))"
  by (simp add: read_le_Some)

lemma read_le_None: "length bs < at + n \<Longrightarrow> read_le n bs at = None"
  by (cases "read_le n bs at") (auto simp: read_le_Some)

lemma read_be_None: "length bs < at + n \<Longrightarrow> read_be n bs at = None"
  by (cases "read_be n bs at") (auto simp: read_be_Some)

lemma read_le_bound: "read_le n bs at = Some v \<Longrightarrow> v < 256 ^ n"
  using le_nat_bound [of "take n (drop at bs)"] by (auto simp: read_le_Some)

lemma read_be_bound: "read_be n bs at = Some v \<Longrightarrow> v < 256 ^ n"
  using le_nat_bound [of "rev (take n (drop at bs))"] by (auto simp: read_be_Some be_nat_def)

lemma read_le_written [slice_simps]:
  assumes "v < 256 ^ n" and "length xs + n < usize_bound"
  shows "read_le n (xs @ to_le n v @ ys) (length xs) = Some v"
  using assms by (simp add: read_le_Some le_nat_to_le)

lemma read_field_at:
  assumes "v < 256 ^ n" and "length (pre @ to_le n v @ post) < usize_bound" and "at = length pre"
  shows "read_le n (pre @ to_le n v @ post) at = Some v"
  unfolding assms(3) using assms(1,2) by (intro read_le_written) simp_all

end
