(* ===== verification/Fid_Text.thy ===== *)
theory Fid_Text
  imports Fid_Prelude
begin

text \<open>
  Rust text.  A \<open>str\<close> is its UTF-8 bytes, so it is a \<open>string\<close> here and a \<open>char\<close> is one
  byte: \<open>length\<close> is \<open>str::len\<close> and an index is a byte index.  The section on UTF-8 gives
  validity (\<open>core::str::from_utf8\<close>), character boundaries, and the split into characters
  that \<open>trim\<close> and \<open>split_whitespace\<close> work on; the others give the searches, the line
  iterator, and the integer parsing and printing that the readers use.
\<close>

named_theorems text_simps \<open>facts about Rust text\<close>

abbreviation code :: "char \<Rightarrow> nat" where
  "code c \<equiv> of_char c"

section \<open>UTF-8\<close>

definition is_cont :: "char \<Rightarrow> bool" where
  "is_cont c \<longleftrightarrow> 0x80 \<le> code c \<and> code c \<le> 0xBF"

definition is_char_boundary :: "string \<Rightarrow> nat \<Rightarrow> bool" where
  "is_char_boundary s i \<longleftrightarrow>
     i = 0 \<or> i = length s \<or> (i < length s \<and> \<not> is_cont (s ! i))"

text \<open>The length of the encoded scalar value at the head of the bytes.\<close>

definition cont_from :: "nat \<Rightarrow> nat \<Rightarrow> char \<Rightarrow> bool" where
  "cont_from lo hi c \<longleftrightarrow> lo \<le> code c \<and> code c \<le> hi"

fun utf8_head :: "string \<Rightarrow> nat option" where
  "utf8_head [] = None"
| "utf8_head (a # s) =
     (let n = code a in
      if n < 0x80 then Some 1
      else if 0xC2 \<le> n \<and> n \<le> 0xDF then
        (case s of b # _ \<Rightarrow> if is_cont b then Some 2 else None | _ \<Rightarrow> None)
      else if 0xE0 \<le> n \<and> n \<le> 0xEF then
        (case s of b # c # _ \<Rightarrow>
           if cont_from (if n = 0xE0 then 0xA0 else 0x80) (if n = 0xED then 0x9F else 0xBF) b
              \<and> is_cont c then Some 3 else None
         | _ \<Rightarrow> None)
      else if 0xF0 \<le> n \<and> n \<le> 0xF4 then
        (case s of b # c # d # _ \<Rightarrow>
           if cont_from (if n = 0xF0 then 0x90 else 0x80) (if n = 0xF4 then 0x8F else 0xBF) b
              \<and> is_cont c \<and> is_cont d then Some 4 else None
         | _ \<Rightarrow> None)
      else None)"

lemma utf8_head_pos: "utf8_head s = Some n \<Longrightarrow> 0 < n \<and> n \<le> length s"
  by (cases s) (auto simp: Let_def split: if_splits list.splits)

function utf8_valid :: "string \<Rightarrow> bool" where
  "utf8_valid s =
     (if s = [] then True
      else (case utf8_head s of None \<Rightarrow> False | Some n \<Rightarrow> utf8_valid (drop n s)))"
  by pat_completeness auto
termination
  by (relation "measure length") (auto dest: utf8_head_pos)

declare utf8_valid.simps [simp del]

lemma utf8_valid_Nil [simp]: "utf8_valid []"
  by (simp add: utf8_valid.simps)

lemma cont_from_cont: "cont_from lo hi c \<Longrightarrow> 0x80 \<le> lo \<Longrightarrow> hi \<le> 0xBF \<Longrightarrow> is_cont c"
  by (auto simp: cont_from_def is_cont_def)

text \<open>Every byte of a character after the first is a continuation byte.\<close>

lemma utf8_head_cont:
  assumes "utf8_head s = Some n" and "0 < i" and "i < n"
  shows "is_cont (s ! i)"
proof -
  from assms(1) obtain a t where s: "s = a # t" by (cases s) auto
  have small: "i = 1 \<or> i = 2 \<or> i = 3" if "n \<le> 4" using assms(2,3) that by arith
  from assms(1) s have "n \<le> 4"
    by (auto simp: Let_def split: if_splits list.splits)
  with small have i: "i = 1 \<or> i = 2 \<or> i = 3" by simp
  show ?thesis using assms(1,3) i unfolding s
    by (auto simp: Let_def numeral_2_eq_2 numeral_3_eq_3
        split: if_splits list.splits intro: cont_from_cont)
qed

lemma utf8_head_take:
  assumes "utf8_head s = Some n" and "n \<le> i"
  shows "utf8_head (take i s) = Some n"
proof -
  from assms(1) obtain a t where s: "s = a # t" by (cases s) auto
  have pos: "0 < n" using utf8_head_pos [OF assms(1)] by simp
  obtain j where i: "i = Suc j" using assms(2) pos by (cases i) auto
  show ?thesis using assms unfolding s i
    by (cases j; cases t; cases "j - 1"; cases "tl t"; cases "j - 2"; cases "tl (tl t)")
       (auto simp: Let_def take_Cons' split: if_splits list.splits)
qed

text \<open>Cutting valid text at a character boundary leaves valid text.\<close>

lemma utf8_valid_take:
  "utf8_valid s \<Longrightarrow> is_char_boundary s i \<Longrightarrow> utf8_valid (take i s)"
proof (induction s arbitrary: i rule: utf8_valid.induct)
  case (1 s)
  show ?case
  proof (cases "s = [] \<or> i = 0")
    case True
    then show ?thesis by auto
  next
    case False
    with "1.prems"(1) obtain n where n: "utf8_head s = Some n" and rest: "utf8_valid (drop n s)"
      by (auto simp: utf8_valid.simps [of s] split: option.splits)
    have pos: "0 < n" "n \<le> length s" using utf8_head_pos [OF n] by auto
    have "n \<le> i"
    proof (rule ccontr)
      assume "\<not> n \<le> i"
      then have "i < n" by simp
      with False n have "is_cont (s ! i)" by (auto intro: utf8_head_cont)
      moreover have "i < length s" using \<open>i < n\<close> pos by simp
      ultimately show False using "1.prems"(2) False by (auto simp: is_char_boundary_def)
    qed
    then have "is_char_boundary (drop n s) (i - n)"
      using "1.prems"(2) pos by (auto simp: is_char_boundary_def)
    then have "utf8_valid (take (i - n) (drop n s))"
      using "1.IH" False n rest by auto
    moreover have "utf8_head (take i s) = Some n"
      using n \<open>n \<le> i\<close> by (rule utf8_head_take)
    moreover have "drop n (take i s) = take (i - n) (drop n s)"
      by (rule drop_take)
    ultimately show ?thesis by (auto simp: utf8_valid.simps [of "take i s"])
  qed
qed

definition is_ascii :: "char \<Rightarrow> bool" where
  "is_ascii c \<longleftrightarrow> code c < 0x80"

lemma ascii_not_cont [simp]: "is_ascii c \<Longrightarrow> \<not> is_cont c"
  by (simp add: is_ascii_def is_cont_def)

lemma utf8_valid_ascii: "list_all is_ascii s \<Longrightarrow> utf8_valid s"
  by (induction s) (simp_all add: utf8_valid.simps [of "_ # _"] is_ascii_def)

section \<open>Characters and white space\<close>

function chars :: "string \<Rightarrow> string list" where
  "chars [] = []"
| "chars (c # s) = (c # takeWhile is_cont s) # chars (dropWhile is_cont s)"
  by pat_completeness auto
termination
  by (relation "measure length") (auto simp: le_imp_less_Suc length_dropWhile_le)

lemma concat_chars [simp]: "concat (chars s) = s"
  by (induction s rule: chars.induct) auto

lemma chars_ascii: "list_all is_ascii s \<Longrightarrow> chars s = map (\<lambda>c. [c]) s"
proof (induction s)
  case (Cons c s)
  then have "takeWhile is_cont s = []" "dropWhile is_cont s = s"
    by (cases s; simp)+
  with Cons show ?case by simp
qed simp

definition is_whitespace :: "string \<Rightarrow> bool" where
  "is_whitespace c \<longleftrightarrow> (case map code c of
       [a] \<Rightarrow> (0x09 \<le> a \<and> a \<le> 0x0D) \<or> a = 0x20
     | [a, b] \<Rightarrow> a = 0xC2 \<and> (b = 0x85 \<or> b = 0xA0)
     | [a, b, d] \<Rightarrow>
         (a = 0xE1 \<and> b = 0x9A \<and> d = 0x80)
       \<or> (a = 0xE2 \<and> b = 0x80 \<and> ((0x80 \<le> d \<and> d \<le> 0x8A) \<or> d = 0xA8 \<or> d = 0xA9 \<or> d = 0xAF))
       \<or> (a = 0xE2 \<and> b = 0x81 \<and> d = 0x9F)
       \<or> (a = 0xE3 \<and> b = 0x80 \<and> d = 0x80)
     | _ \<Rightarrow> False)"

definition trim_start :: "string \<Rightarrow> string" where
  "trim_start s = concat (dropWhile is_whitespace (chars s))"

definition trim_end :: "string \<Rightarrow> string" where
  "trim_end s = concat (rev (dropWhile is_whitespace (rev (chars s))))"

definition trim :: "string \<Rightarrow> string" where
  "trim s = trim_end (trim_start s)"

function split_ws_chars :: "string list \<Rightarrow> string list" where
  "split_ws_chars cs =
     (case dropWhile is_whitespace cs of
        [] \<Rightarrow> []
      | d # ds \<Rightarrow> concat (d # takeWhile (\<lambda>c. \<not> is_whitespace c) ds)
                 # split_ws_chars (dropWhile (\<lambda>c. \<not> is_whitespace c) ds))"
  by pat_completeness auto
termination
proof (relation "measure length", simp)
  fix cs :: "string list" and d ds
  assume "dropWhile is_whitespace cs = d # ds"
  then have "length (d # ds) \<le> length cs" by (metis length_dropWhile_le)
  moreover have "length (dropWhile (\<lambda>c. \<not> is_whitespace c) ds) \<le> length ds"
    by (rule length_dropWhile_le)
  ultimately show "(dropWhile (\<lambda>c. \<not> is_whitespace c) ds, cs) \<in> measure length" by simp
qed

declare split_ws_chars.simps [simp del]

definition split_whitespace :: "string \<Rightarrow> string list" where
  "split_whitespace s = split_ws_chars (chars s)"

section \<open>Searching and splitting\<close>

definition starts_with :: "string \<Rightarrow> string \<Rightarrow> bool" where
  "starts_with s pat \<longleftrightarrow> take (length pat) s = pat"

definition ends_with :: "string \<Rightarrow> string \<Rightarrow> bool" where
  "ends_with s pat \<longleftrightarrow> starts_with (rev s) (rev pat)"

definition strip_prefix :: "string \<Rightarrow> string \<Rightarrow> string option" where
  "strip_prefix s pat = (if starts_with s pat then Some (drop (length pat) s) else None)"

definition strip_suffix :: "string \<Rightarrow> string \<Rightarrow> string option" where
  "strip_suffix s pat =
     (if ends_with s pat then Some (take (length s - length pat) s) else None)"

fun find_str :: "string \<Rightarrow> string \<Rightarrow> nat option" where
  "find_str [] pat = (if pat = [] then Some 0 else None)"
| "find_str (c # s) pat =
     (if starts_with (c # s) pat then Some 0 else map_option Suc (find_str s pat))"

definition split_once :: "string \<Rightarrow> string \<Rightarrow> (string \<times> string) option" where
  "split_once s pat =
     map_option (\<lambda>i. (take i s, drop (i + length pat) s)) (find_str s pat)"

fun split_char :: "char \<Rightarrow> string \<Rightarrow> string list" where
  "split_char sep [] = [[]]"
| "split_char sep (c # s) =
     (if c = sep then [] # split_char sep s
      else (case split_char sep s of p # ps \<Rightarrow> (c # p) # ps | [] \<Rightarrow> [[c]]))"

definition strip_cr :: "string \<Rightarrow> string" where
  "strip_cr l = (if l \<noteq> [] \<and> last l = CHR 0x0D then butlast l else l)"

function lines :: "string \<Rightarrow> string list" where
  "lines s =
     (if s = [] then []
      else (let l = takeWhile (\<lambda>c. c \<noteq> CHR 0x0A) s; r = dropWhile (\<lambda>c. c \<noteq> CHR 0x0A) s
            in if r = [] then [l] else strip_cr l # lines (tl r)))"
  by pat_completeness auto
termination
proof (relation "measure length", simp)
  fix s :: string and x xa
  assume "xa = dropWhile (\<lambda>c. c \<noteq> CHR 0x0A) s" and "xa \<noteq> []"
  then have "length (tl xa) < length xa" and "length xa \<le> length s"
    using length_dropWhile_le [of "\<lambda>c. c \<noteq> CHR 0x0A" s] by (cases xa; simp)+
  then show "(tl xa, s) \<in> measure length" by simp
qed

declare lines.simps [simp del]

lemma starts_with_append [simp]: "starts_with (pat @ s) pat"
  by (simp add: starts_with_def)

lemma starts_with_iff: "starts_with s pat \<longleftrightarrow> (\<exists>r. s = pat @ r)"
  by (metis append_take_drop_id starts_with_append starts_with_def)

lemma ends_with_iff: "ends_with s pat \<longleftrightarrow> (\<exists>r. s = r @ pat)"
  unfolding ends_with_def starts_with_iff by (metis rev_append rev_rev_ident)

lemma strip_prefix_Some: "strip_prefix s pat = Some r \<longleftrightarrow> s = pat @ r"
  by (auto simp: strip_prefix_def starts_with_iff)

lemma strip_suffix_Some: "strip_suffix s pat = Some r \<longleftrightarrow> s = r @ pat"
  by (auto simp: strip_suffix_def ends_with_iff)

lemma find_str_Some:
  "find_str s pat = Some i \<Longrightarrow> \<exists>r. s = take i s @ pat @ r"
proof (induction s pat arbitrary: i rule: find_str.induct)
  case (2 c s pat)
  show ?case
  proof (cases "starts_with (c # s) pat")
    case True
    with "2.prems" show ?thesis by (auto simp: starts_with_iff)
  next
    case False
    with "2.prems" obtain j where j: "i = Suc j" "find_str s pat = Some j" by auto
    with "2.IH" False obtain r where "s = take j s @ pat @ r" by blast
    then have "c # s = take i (c # s) @ pat @ r" using j by simp
    then show ?thesis ..
  qed
qed (auto split: if_splits)

lemma find_str_append_Some: "\<exists>i. find_str (u @ pat @ v) pat = Some i"
proof (induction u)
  case Nil
  have "starts_with (pat @ v) pat" by (simp add: starts_with_iff)
  then show ?case by (cases "pat @ v") auto
qed auto

lemma find_str_iff: "(\<exists>i. find_str s pat = Some i) \<longleftrightarrow> (\<exists>u v. s = u @ pat @ v)"
  using find_str_Some find_str_append_Some by metis

lemma find_str_least:
  "find_str s pat = Some i \<Longrightarrow> j < i \<Longrightarrow> \<not> starts_with (drop j s) pat"
proof (induction s pat arbitrary: i j rule: find_str.induct)
  case (2 c s pat)
  then show ?case by (cases j) (auto split: if_splits)
qed (auto split: if_splits)

lemma find_str_append:
  assumes "\<And>j. j < length a \<Longrightarrow> \<not> starts_with (drop j (a @ pat @ r)) pat"
  shows "find_str (a @ pat @ r) pat = Some (length a)"
  using assms
proof (induction a)
  case Nil
  have "starts_with (pat @ r) pat" by simp
  then show ?case by (cases "pat @ r") auto
next
  case (Cons c a)
  from Cons.prems [of 0] have "\<not> starts_with (c # a @ pat @ r) pat" by simp
  moreover have "find_str (a @ pat @ r) pat = Some (length a)"
  proof (rule Cons.IH)
    fix j assume "j < length a"
    then show "\<not> starts_with (drop j (a @ pat @ r)) pat"
      using Cons.prems [of "Suc j"] by simp
  qed
  ultimately show ?case by simp
qed

lemma split_once_Some: "split_once s pat = Some (a, b) \<Longrightarrow> s = a @ pat @ b"
proof -
  assume "split_once s pat = Some (a, b)"
  then obtain i where i: "find_str s pat = Some i" "a = take i s" "b = drop (i + length pat) s"
    by (auto simp: split_once_def)
  from find_str_Some [OF i(1)] obtain r where r: "s = take i s @ pat @ r" by blast
  show ?thesis
  proof (cases "i \<le> length s")
    case True
    then have "drop (i + length pat) s = r"
      by (subst r) simp
    with i r show ?thesis by simp
  next
    case False
    then have "take i s = s" by simp
    with r have "pat = []" by simp
    with i show ?thesis by simp
  qed
qed

lemma split_once_char:
  assumes "c \<notin> set a"
  shows "split_once (a @ c # r) [c] = Some (a, r)"
proof -
  have "find_str (a @ c # r) [c] = Some (length a)"
    using assms by (induction a) (auto simp: starts_with_def)
  then show ?thesis by (simp add: split_once_def)
qed

section \<open>Integers as text\<close>

definition digit_val :: "char \<Rightarrow> nat option" where
  "digit_val c =
     (let n = code c in
      if 0x30 \<le> n \<and> n \<le> 0x39 then Some (n - 0x30)
      else if 0x61 \<le> n \<and> n \<le> 0x7A then Some (n - 0x61 + 10)
      else if 0x41 \<le> n \<and> n \<le> 0x5A then Some (n - 0x41 + 10)
      else None)"

fun digits_val :: "nat \<Rightarrow> string \<Rightarrow> nat \<Rightarrow> nat option" where
  "digits_val radix [] acc = Some acc"
| "digits_val radix (c # s) acc =
     (case digit_val c of
        None \<Rightarrow> None
      | Some d \<Rightarrow> if d < radix then digits_val radix s (acc * radix + d) else None)"

text \<open>\<open>uN::from_str_radix\<close>: an optional plus sign, at least one digit, and no overflow.\<close>

definition from_str_radix :: "nat \<Rightarrow> nat \<Rightarrow> string \<Rightarrow> nat option" where
  "from_str_radix bits radix s =
     (let body = (case s of c # t \<Rightarrow> if c = CHR ''+'' then t else s | [] \<Rightarrow> s) in
      if body = [] then None
      else (case digits_val radix body 0 of
              None \<Rightarrow> None
            | Some v \<Rightarrow> if v < 2 ^ bits then Some v else None))"

definition digit_char :: "nat \<Rightarrow> char" where
  "digit_char d = (if d < 10 then char_of (0x30 + d) else char_of (0x61 + d - 10))"

function to_radix :: "nat \<Rightarrow> nat \<Rightarrow> string" where
  "to_radix b n = (if b < 2 \<or> n < b then [digit_char n]
                   else to_radix b (n div b) @ [digit_char (n mod b)])"
  by pat_completeness auto
termination
  by (relation "measure snd") auto

declare to_radix.simps [simp del]

abbreviation dec :: "nat \<Rightarrow> string" where
  "dec \<equiv> to_radix 10"

abbreviation hex_text :: "nat \<Rightarrow> string" where
  "hex_text n \<equiv> ''0x'' @ to_radix 16 n"

lemma digit_val_digit_char: "d < 36 \<Longrightarrow> digit_val (digit_char d) = Some d"
  by (auto simp: digit_val_def digit_char_def Let_def)

lemma digits_val_append:
  "digits_val r (s @ t) a = Option.bind (digits_val r s a) (\<lambda>a'. digits_val r t a')"
  by (induction r s a rule: digits_val.induct) (auto split: option.splits)

lemma digits_val_to_radix:
  assumes "2 \<le> b" and "b \<le> 36"
  shows "digits_val b (to_radix b n) 0 = Some n"
  using assms
proof (induction b n rule: to_radix.induct)
  case (1 b n)
  show ?case
  proof (cases "n < b")
    case True
    with 1 show ?thesis by (simp add: to_radix.simps [of b n] digit_val_digit_char)
  next
    case False
    with 1 have "digits_val b (to_radix b (n div b)) 0 = Some (n div b)" by simp
    moreover have m: "n mod b < b" using 1 by simp
    have "digit_val (digit_char (n mod b)) = Some (n mod b)"
      by (rule digit_val_digit_char, rule less_le_trans [OF m]) (use 1 in simp)
    ultimately show ?thesis using False 1
      by (simp add: to_radix.simps [of b n] digits_val_append)
  qed
qed

lemma to_radix_digits:
  "2 \<le> b \<Longrightarrow> b \<le> 36 \<Longrightarrow> c \<in> set (to_radix b n) \<Longrightarrow> \<exists>d < b. c = digit_char d"
proof (induction b n rule: to_radix.induct)
  case (1 b n)
  show ?case
  proof (cases "n < b")
    case True
    with 1 show ?thesis by (auto simp: to_radix.simps [of b n])
  next
    case False
    have m: "n mod b < b" using 1 by simp
    have "c \<in> set (to_radix b (n div b)) \<or> c = digit_char (n mod b)"
      using 1 False by (auto simp: to_radix.simps [of b n])
    then show ?thesis
    proof
      assume "c \<in> set (to_radix b (n div b))"
      with 1 False show ?thesis by auto
    next
      assume "c = digit_char (n mod b)"
      with m show ?thesis by blast
    qed
  qed
qed

lemma to_radix_not_Nil [simp]: "to_radix b n \<noteq> []"
  by (subst to_radix.simps) simp

lemma from_str_radix_to_radix:
  assumes "2 \<le> b" and "b \<le> 36" and "n < 2 ^ bits"
  shows "from_str_radix bits b (to_radix b n) = Some n"
proof -
  obtain c t where ct: "to_radix b n = c # t" by (cases "to_radix b n") auto
  have "c \<in> set (to_radix b n)" by (simp add: ct)
  with assms obtain d where "d < b" "c = digit_char d" using to_radix_digits by blast
  with assms have "c \<noteq> CHR ''+''"
    using digit_val_digit_char [of d] by (auto simp: digit_val_def Let_def)
  with assms digits_val_to_radix [of b n] show ?thesis
    by (simp add: from_str_radix_def ct)
qed

end
