(* ===== verification/Fid_Types.thy ===== *)
theory Fid_Types
  imports Fid_Text
begin

text \<open>
  The public data model, \<open>crates/fidelity-types/src\<close>: categories and the bit set over them,
  signal strengths, detectors, bounded evidence text, findings, outcomes, the retained
  snapshot, and the expected identity with its hexadecimal digests.  A Rust struct is a
  record, an enumeration a datatype, a fallible constructor returns a sum with the error on
  the left.  The locale \<open>latch_set\<close> is the contract of a set of categories that only grows;
  the bit set of this theory is its first implementation.
\<close>

section \<open>Actions, categories and strengths\<close>

datatype action = Report | Deny | Callback | Crash

definition default_action :: action where
  "default_action = Report"

datatype category =
  Integrity | Debugging | Instrumentation | DeviceCompromise | Virtualization | UiAbuse

definition all_categories :: "category list" where
  "all_categories =
     [Integrity, Debugging, Instrumentation, DeviceCompromise, Virtualization, UiAbuse]"

definition category_count :: nat where
  "category_count = length all_categories"

fun category_index :: "category \<Rightarrow> nat" where
  "category_index Integrity = 0"
| "category_index Debugging = 1"
| "category_index Instrumentation = 2"
| "category_index DeviceCompromise = 3"
| "category_index Virtualization = 4"
| "category_index UiAbuse = 5"

lemma category_count_6 [simp]: "category_count = 6"
  by (simp add: category_count_def all_categories_def)

lemma all_categories_complete [simp]: "c \<in> set all_categories"
  by (cases c) (simp_all add: all_categories_def)

lemma category_index_less32 [simp]: "category_index c < 32"
  by (cases c) simp_all

lemma category_index_less [simp]: "category_index c < 6"
  by (cases c) simp_all

lemma category_index_inject [simp]: "category_index c = category_index d \<longleftrightarrow> c = d"
  by (cases c; cases d; simp)

lemma category_index_surj: "i < 6 \<Longrightarrow> all_categories ! i \<in> set all_categories
    \<and> category_index (all_categories ! i) = i"
  by (auto simp: all_categories_def less_Suc_eq numeral_eq_Suc)

text \<open>Rust derives the order of a category from its declaration order.\<close>

instantiation category :: linorder
begin

definition less_eq_category :: "category \<Rightarrow> category \<Rightarrow> bool" where
  "less_eq_category c d \<longleftrightarrow> category_index c \<le> category_index d"

definition less_category :: "category \<Rightarrow> category \<Rightarrow> bool" where
  "less_category c d \<longleftrightarrow> category_index c < category_index d"

instance
  by standard (auto simp: less_eq_category_def less_category_def)

end

datatype strength = Low | Medium | High

fun strength_rank :: "strength \<Rightarrow> nat" where
  "strength_rank Low = 0"
| "strength_rank Medium = 1"
| "strength_rank High = 2"

lemma strength_rank_inject [simp]: "strength_rank s = strength_rank t \<longleftrightarrow> s = t"
  by (cases s; cases t; simp)

instantiation strength :: linorder
begin

definition less_eq_strength :: "strength \<Rightarrow> strength \<Rightarrow> bool" where
  "less_eq_strength s t \<longleftrightarrow> strength_rank s \<le> strength_rank t"

definition less_strength :: "strength \<Rightarrow> strength \<Rightarrow> bool" where
  "less_strength s t \<longleftrightarrow> strength_rank s < strength_rank t"

instance
  by standard (auto simp: less_eq_strength_def less_strength_def)

end

lemmas strength_order = less_eq_strength_def less_strength_def

lemma Low_least [simp]: "Low \<le> s"
  by (simp add: strength_order)

lemma High_greatest [simp]: "s \<le> High"
  by (cases s) (simp_all add: strength_order)

lemma High_le_iff [simp]: "High \<le> s \<longleftrightarrow> s = High"
  by (cases s) (simp_all add: strength_order)

lemma le_Low_iff [simp]: "s \<le> Low \<longleftrightarrow> s = Low"
  by (cases s) (simp_all add: strength_order)

definition reaches :: "strength \<Rightarrow> strength \<Rightarrow> bool" where
  "reaches s threshold \<longleftrightarrow> threshold \<le> s"

section \<open>The category set\<close>

type_synonym category_set = u32

definition cs_new :: category_set where
  "cs_new = 0"

definition cs_mask :: "category \<Rightarrow> u32" where
  "cs_mask c = push_bit (category_index c) 1"

definition cs_insert :: "category \<Rightarrow> category_set \<Rightarrow> category_set \<times> bool" where
  "cs_insert c s = (s OR cs_mask c, s AND cs_mask c = 0)"

definition cs_contains :: "category_set \<Rightarrow> category \<Rightarrow> bool" where
  "cs_contains s c \<longleftrightarrow> s AND cs_mask c \<noteq> 0"

definition cs_is_empty :: "category_set \<Rightarrow> bool" where
  "cs_is_empty s \<longleftrightarrow> s = 0"

definition cs_len :: "category_set \<Rightarrow> nat" where
  "cs_len s = length (filter (bit s) [0..<32])"

record category_set_iter =
  iter_set :: category_set
  iter_next :: nat

definition cs_iter :: "category_set \<Rightarrow> category_set_iter" where
  "cs_iter s = \<lparr>iter_set = s, iter_next = 0\<rparr>"

function cs_iter_next :: "category_set_iter \<Rightarrow> category option \<times> category_set_iter" where
  "cs_iter_next it =
     (if iter_next it < length all_categories then
        (let c = all_categories ! iter_next it;
             it' = it\<lparr>iter_next := iter_next it + 1\<rparr>
         in if cs_contains (iter_set it) c then (Some c, it') else cs_iter_next it')
      else (None, it))"
  by pat_completeness auto
termination
  by (relation "measure (\<lambda>it. length all_categories - iter_next it)") auto

declare cs_iter_next.simps [simp del]

text \<open>A \<open>for\<close> loop over a set drains the iterator.\<close>

lemma cs_iter_next_Some:
  "cs_iter_next it = (Some c, it') \<Longrightarrow>
     iter_next it < iter_next it' \<and> iter_next it' \<le> length all_categories \<and> iter_set it' = iter_set it"
proof (induction it rule: cs_iter_next.induct)
  case (1 it)
  show ?case
  proof (cases "iter_next it < length all_categories
      \<and> \<not> cs_contains (iter_set it) (all_categories ! iter_next it)")
    case True
    with "1.prems" have "cs_iter_next (it\<lparr>iter_next := iter_next it + 1\<rparr>) = (Some c, it')"
      by (simp add: cs_iter_next.simps [of it] Let_def)
    with "1.IH" True show ?thesis by fastforce
  next
    case False
    with "1.prems" show ?thesis
      by (auto simp: cs_iter_next.simps [of it] Let_def split: if_splits)
  qed
qed

function cs_drain :: "category_set_iter \<Rightarrow> category list" where
  "cs_drain it = (case cs_iter_next it of
      (None, _) \<Rightarrow> [] | (Some c, it') \<Rightarrow> c # cs_drain it')"
  by pat_completeness auto
termination
  by (relation "measure (\<lambda>it. length all_categories - iter_next it)")
     (auto dest!: sym [THEN cs_iter_next_Some])

declare cs_drain.simps [simp del]

definition cs_list :: "category_set \<Rightarrow> category list" where
  "cs_list s = cs_drain (cs_iter s)"

text \<open>Membership is one bit, and the representation invariant is that no other bit is set.\<close>

lemma and_mask_bit: "s AND push_bit i 1 \<noteq> 0 \<longleftrightarrow> bit s i" if "i < LENGTH('a)" for s :: "'a::len word"
proof -
  have "s AND push_bit i 1 = (if bit s i then push_bit i 1 else 0)"
    by (rule bit_word_eqI) (auto simp: bit_simps)
  moreover have "bit (push_bit i 1 :: 'a word) i" using that by (simp add: bit_simps)
  then have "(push_bit i 1 :: 'a word) \<noteq> 0" by (metis bit_0_eq bot_apply bot_bool_def)
  ultimately show ?thesis by simp
qed

lemma cs_contains_bit: "cs_contains s c \<longleftrightarrow> bit s (category_index c)"
proof -
  have "category_index c < LENGTH(32)" by simp
  then show ?thesis unfolding cs_contains_def cs_mask_def by (rule and_mask_bit)
qed

lemma bit_cs_mask: "bit (cs_mask c) i \<longleftrightarrow> i = category_index c"
  by (auto simp: cs_mask_def bit_simps)

lemma bit_cs_insert: "bit (fst (cs_insert c s)) i \<longleftrightarrow> i = category_index c \<or> bit s i"
  by (auto simp: cs_insert_def bit_cs_mask bit_or_iff)

definition cs_wf :: "category_set \<Rightarrow> bool" where
  "cs_wf s \<longleftrightarrow> drop_bit category_count s = 0"

lemma cs_wf_iff: "cs_wf s \<longleftrightarrow> (\<forall>i. bit s i \<longrightarrow> i < category_count)"
proof
  assume "cs_wf s"
  then have z: "\<not> bit (drop_bit category_count s) j" for j
    by (simp add: cs_wf_def)
  show "\<forall>i. bit s i \<longrightarrow> i < category_count"
  proof (intro allI impI)
    fix i
    assume b: "bit s i"
    show "i < category_count"
    proof (rule ccontr)
      assume "\<not> i < category_count"
      with b have "bit (drop_bit category_count s) (i - category_count)"
        by (simp add: bit_drop_bit_eq)
      with z show False by blast
    qed
  qed
next
  assume "\<forall>i. bit s i \<longrightarrow> i < category_count"
  then show "cs_wf s"
    unfolding cs_wf_def by (intro bit_word_eqI) (auto simp: bit_drop_bit_eq)
qed

lemma cs_wf_new [simp]: "cs_wf cs_new"
  by (simp add: cs_wf_def cs_new_def)

lemma cs_wf_insert [simp]: "cs_wf s \<Longrightarrow> cs_wf (fst (cs_insert c s))"
  by (auto simp: cs_wf_iff bit_cs_insert)

lemma cs_eqI: "cs_wf s \<Longrightarrow> cs_wf t \<Longrightarrow> (\<And>c. cs_contains s c \<longleftrightarrow> cs_contains t c) \<Longrightarrow> s = t"
proof (rule bit_word_eqI)
  fix i
  assume wf: "cs_wf s" "cs_wf t" and eq: "\<And>c. cs_contains s c \<longleftrightarrow> cs_contains t c"
  show "bit s i \<longleftrightarrow> bit t i"
  proof (cases "i < 6")
    case True
    then show ?thesis using eq [of "all_categories ! i"] category_index_surj [of i]
      by (simp add: cs_contains_bit)
  next
    case False
    with wf show ?thesis by (auto simp: cs_wf_iff)
  qed
qed

lemma cs_is_empty_iff: "cs_wf s \<Longrightarrow> cs_is_empty s \<longleftrightarrow> (\<forall>c. \<not> cs_contains s c)"
  using cs_eqI [of s cs_new, OF _ cs_wf_new] by (auto simp: cs_is_empty_def cs_contains_bit cs_new_def)

text \<open>The contract of a latch: it starts empty, and an insertion adds exactly one category.\<close>

locale latch_set =
  fixes empty :: 's
    and insert :: "category \<Rightarrow> 's \<Rightarrow> 's"
    and member :: "'s \<Rightarrow> category \<Rightarrow> bool"
  assumes member_empty: "\<not> member empty c"
    and member_insert: "member (insert c s) d \<longleftrightarrow> d = c \<or> member s d"
begin

lemma member_fold: "member (fold insert cs s) d \<longleftrightarrow> d \<in> set cs \<or> member s d"
  by (induction cs arbitrary: s) (auto simp: member_insert)

lemma member_mono: "member s d \<Longrightarrow> member (fold insert cs s) d"
  by (simp add: member_fold)

lemma member_from_empty: "member (fold insert cs empty) d \<longleftrightarrow> d \<in> set cs"
  by (simp add: member_fold member_empty)

end

interpretation cs: latch_set cs_new "\<lambda>c s. fst (cs_insert c s)" cs_contains
  by unfold_locales (auto simp: cs_contains_bit bit_cs_insert cs_new_def)

lemmas cs_member = cs.member_empty cs.member_insert

lemma cs_insert_changed: "snd (cs_insert c s) \<longleftrightarrow> \<not> cs_contains s c"
  by (simp add: cs_insert_def cs_contains_def)

lemma cs_drain_filter:
  "iter_next it \<le> length all_categories \<Longrightarrow>
     cs_drain it = filter (cs_contains (iter_set it)) (drop (iter_next it) all_categories)"
proof (induction "length all_categories - iter_next it" arbitrary: it rule: less_induct)
  case less
  show ?case
  proof (cases "iter_next it < length all_categories")
    case False
    with less.prems show ?thesis
      by (simp add: cs_drain.simps [of it] cs_iter_next.simps [of it])
  next
    case True
    let ?it = "it\<lparr>iter_next := iter_next it + 1\<rparr>"
    have IH: "cs_drain ?it = filter (cs_contains (iter_set it)) (drop (Suc (iter_next it)) all_categories)"
      using less.hyps [of ?it] True by simp
    have "drop (iter_next it) all_categories
        = all_categories ! iter_next it # drop (Suc (iter_next it)) all_categories"
      using True by (simp add: Cons_nth_drop_Suc)
    moreover have "cs_drain it = (if cs_contains (iter_set it) (all_categories ! iter_next it)
        then [all_categories ! iter_next it] else []) @ cs_drain ?it"
      using True cs_drain.simps [of it] cs_drain.simps [of ?it] cs_iter_next.simps [of it]
      by (simp add: Let_def)
    ultimately show ?thesis using IH by simp
  qed
qed

text \<open>
  Iterating a category set yields exactly its members, each once, in declaration order.
\<close>

lemma cs_list_filter: "cs_list s = filter (cs_contains s) all_categories"
  by (simp add: cs_list_def cs_iter_def cs_drain_filter)

lemma set_cs_list: "set (cs_list s) = {c. cs_contains s c}"
  by (auto simp: cs_list_def cs_iter_def cs_drain_filter)

section \<open>Detectors\<close>

record detector =
  det_id :: u16
  det_name :: string
  det_category :: category

definition detector_new :: "u16 \<Rightarrow> string \<Rightarrow> category \<Rightarrow> detector" where
  "detector_new i n c = \<lparr>det_id = i, det_name = n, det_category = c\<rparr>"

text \<open>\<open>PartialEq\<close> and \<open>Ord\<close> of \<open>Detector\<close> compare the identity alone.\<close>

definition det_eq :: "detector \<Rightarrow> detector \<Rightarrow> bool" where
  "det_eq d e \<longleftrightarrow> det_id d = det_id e"

definition det_le :: "detector \<Rightarrow> detector \<Rightarrow> bool" where
  "det_le d e \<longleftrightarrow> det_id d \<le> det_id e"

lemma det_eq_refl [simp]: "det_eq d d"
  by (simp add: det_eq_def)

lemma det_eq_sym: "det_eq d e \<longleftrightarrow> det_eq e d"
  by (auto simp: det_eq_def)

lemma det_eq_trans: "det_eq d e \<Longrightarrow> det_eq e f \<Longrightarrow> det_eq d f"
  by (simp add: det_eq_def)

datatype ui_observation = Overlay | ScreenCapture

fun ui_detail :: "ui_observation \<Rightarrow> string" where
  "ui_detail Overlay = ''the host reports that another application drew over its window''"
| "ui_detail ScreenCapture = ''the host reports that a recorder captured its window''"

section \<open>Bounded evidence\<close>

definition max_evidence_bytes :: nat where
  "max_evidence_bytes = 4096"

record bounded_text =
  bt_text :: string
  bt_truncated :: bool

fun step_back :: "string \<Rightarrow> nat \<Rightarrow> nat" where
  "step_back s 0 = 0"
| "step_back s (Suc n) = (if is_char_boundary s (Suc n) then Suc n else step_back s n)"

definition bounded_text_new :: "string \<Rightarrow> bounded_text" where
  "bounded_text_new s =
     (if length s \<le> max_evidence_bytes then \<lparr>bt_text = s, bt_truncated = False\<rparr>
      else \<lparr>bt_text = take (step_back s max_evidence_bytes) s, bt_truncated = True\<rparr>)"

lemma step_back_le: "step_back s n \<le> n"
  by (induction n) auto

lemma step_back_boundary: "is_char_boundary s (step_back s n)"
  by (induction n) (auto simp: is_char_boundary_def)

lemma step_back_max: "is_char_boundary s i \<Longrightarrow> i \<le> n \<Longrightarrow> i \<le> step_back s n"
  by (induction n) (auto simp: le_Suc_eq)

datatype evidence =
  DetectorHealth bounded_text
| ImageUntrusted bounded_text
| UnexpectedIdentity bounded_text
| TracerPresent bounded_text
| UnaccountedCode bounded_text
| LocalInstrumentationAgent bounded_text
| UnregisteredImage bounded_text
| CodeAddedAfterStart bounded_text
| CodeMadeWritable bounded_text
| DispatchRedirected bounded_text
| DevelopmentBuild bounded_text
| UnverifiedBoot bounded_text
| InterfaceObserved bounded_text
| VirtualMachineHost bounded_text
| SimulatedEnvironment bounded_text

definition is_detector_health :: "evidence \<Rightarrow> bool" where
  "is_detector_health e = (case e of DetectorHealth _ \<Rightarrow> True | _ \<Rightarrow> False)"

lemma is_detector_health_simps [simp]:
  "is_detector_health (DetectorHealth t)"
  "\<not> is_detector_health (ImageUntrusted t)"
  "\<not> is_detector_health (UnexpectedIdentity t)"
  "\<not> is_detector_health (TracerPresent t)"
  "\<not> is_detector_health (UnaccountedCode t)"
  "\<not> is_detector_health (LocalInstrumentationAgent t)"
  "\<not> is_detector_health (UnregisteredImage t)"
  "\<not> is_detector_health (CodeAddedAfterStart t)"
  "\<not> is_detector_health (CodeMadeWritable t)"
  "\<not> is_detector_health (DispatchRedirected t)"
  "\<not> is_detector_health (DevelopmentBuild t)"
  "\<not> is_detector_health (UnverifiedBoot t)"
  "\<not> is_detector_health (InterfaceObserved t)"
  "\<not> is_detector_health (VirtualMachineHost t)"
  "\<not> is_detector_health (SimulatedEnvironment t)"
  by (simp_all add: is_detector_health_def)

text \<open>
  C20.  Retained evidence text never exceeds the limit, is a prefix of what the detector wrote,
  is marked as cut exactly when the original exceeds the limit, remains valid UTF-8, and keeps
  every character that fits: no longer cut at a character boundary stays within the limit.
\<close>

theorem bounded_text_sound:
  assumes "utf8_valid s"
  shows "length (bt_text (bounded_text_new s)) \<le> max_evidence_bytes
    \<and> bt_text (bounded_text_new s) = take (length (bt_text (bounded_text_new s))) s
    \<and> (bt_truncated (bounded_text_new s) \<longleftrightarrow> max_evidence_bytes < length s)
    \<and> utf8_valid (bt_text (bounded_text_new s))
    \<and> (\<forall>i. is_char_boundary s i \<and> i \<le> length s \<and> i \<le> max_evidence_bytes
          \<longrightarrow> i \<le> length (bt_text (bounded_text_new s)))"
proof (cases "length s \<le> max_evidence_bytes")
  case True
  with assms show ?thesis by (simp add: bounded_text_new_def)
next
  case False
  let ?n = "step_back s max_evidence_bytes"
  have n: "?n \<le> max_evidence_bytes" by (rule step_back_le)
  with False have len: "length (take ?n s) = ?n" by simp
  have "utf8_valid (take ?n s)"
    using assms step_back_boundary by (rule utf8_valid_take)
  with False n len show ?thesis
    by (simp add: bounded_text_new_def step_back_max)
qed

theorem bounded_text_sound_witness:
  "bt_text (bounded_text_new ''ptrace returned EPERM'') = ''ptrace returned EPERM''
   \<and> utf8_valid ''ptrace returned EPERM''
   \<and> length (bt_text (bounded_text_new ''ptrace returned EPERM'')) \<le> max_evidence_bytes"
proof -
  have "utf8_valid ''ptrace returned EPERM''"
    by (rule utf8_valid_ascii) (simp add: is_ascii_def)
  from this bounded_text_sound [OF this] show ?thesis
    by (simp add: bounded_text_new_def max_evidence_bytes_def)
qed

section \<open>Findings, outcomes, and the snapshot\<close>

record finding =
  f_detector :: detector
  f_category :: category
  f_strength :: strength
  f_evidence :: evidence
  f_observed_at_unix_ms :: u64

definition in_category :: "detector \<Rightarrow> category \<Rightarrow> strength \<Rightarrow> evidence \<Rightarrow> u64 \<Rightarrow> finding" where
  "in_category d c s e t =
     \<lparr>f_detector = d, f_category = c, f_strength = s, f_evidence = e, f_observed_at_unix_ms = t\<rparr>"

definition finding_new :: "detector \<Rightarrow> strength \<Rightarrow> evidence \<Rightarrow> u64 \<Rightarrow> finding" where
  "finding_new d s e t = in_category d (det_category d) s e t"

lemma finding_new_simps [simp]:
  "f_detector (finding_new d s e t) = d"
  "f_category (finding_new d s e t) = det_category d"
  "f_strength (finding_new d s e t) = s"
  "f_evidence (finding_new d s e t) = e"
  "f_observed_at_unix_ms (finding_new d s e t) = t"
  by (simp_all add: finding_new_def in_category_def)

datatype outcome = NotRun | Clean | Finding finding | Unsupported string

fun outcome_finding :: "outcome \<Rightarrow> finding option" where
  "outcome_finding (Finding f) = Some f"
| "outcome_finding NotRun = None"
| "outcome_finding Clean = None"
| "outcome_finding (Unsupported r) = None"

fun outcome_ran :: "outcome \<Rightarrow> bool" where
  "outcome_ran Clean = True"
| "outcome_ran (Finding f) = True"
| "outcome_ran NotRun = False"
| "outcome_ran (Unsupported r) = False"

lemma outcome_finding_Some [simp]: "outcome_finding oc = Some f \<longleftrightarrow> oc = Finding f"
  by (cases oc) auto

record detector_state =
  ds_detector :: detector
  ds_outcome :: outcome
  ds_strongest :: "finding option"
  ds_first_unix_ms :: "u64 option"
  ds_latest_unix_ms :: "u64 option"
  ds_occurrences :: u32

record snapshot =
  sn_latched :: category_set
  sn_host_latched :: category_set
  sn_detectors :: "detector_state list"

definition sn_detector_state :: "snapshot \<Rightarrow> detector \<Rightarrow> detector_state option" where
  "sn_detector_state sn d = List.find (\<lambda>st. det_eq (ds_detector st) d) (sn_detectors sn)"

section \<open>Expected identity\<close>

datatype platform = Windows | MacOs | Ios | Android | Linux

text \<open>\<open>cfg!(target_os = ...)\<close> reads one value of the build, here an argument.\<close>

definition platform_target :: "string \<Rightarrow> platform option" where
  "platform_target target_os =
     (if target_os = ''windows'' then Some Windows
      else if target_os = ''macos'' then Some MacOs
      else if target_os = ''ios'' then Some Ios
      else if target_os = ''android'' then Some Android
      else if target_os = ''linux'' then Some Linux
      else None)"

datatype 'a choice = Value 'a | AcceptUnsupported

datatype identity_error = Empty | BadHexLength nat nat | NotHex

fun identity_error_display :: "identity_error \<Rightarrow> string" where
  "identity_error_display Empty = ''the identity value is empty''"
| "identity_error_display (BadHexLength expected actual) =
     ''the digest needs '' @ dec expected @ '' hexadecimal characters, and it has '' @ dec actual"
| "identity_error_display NotHex = ''the digest holds a character that is not hexadecimal''"

datatype authenticode_thumbprint = AuthenticodeThumbprint bytes
datatype certificate_sha256 = CertificateSha256 bytes
datatype code_requirement = CodeRequirement string
datatype team_identifier = TeamIdentifier string
datatype content_digest = ContentDigest bytes

record expected_identity =
  ei_windows :: "authenticode_thumbprint choice option"
  ei_macos :: "code_requirement choice option"
  ei_ios :: "team_identifier choice option"
  ei_android :: "certificate_sha256 choice option"
  ei_linux :: "content_digest choice option"

definition expected_identity_new :: expected_identity where
  "expected_identity_new =
     \<lparr>ei_windows = None, ei_macos = None, ei_ios = None, ei_android = None, ei_linux = None\<rparr>"

definition with_windows :: "authenticode_thumbprint choice \<Rightarrow> expected_identity \<Rightarrow> expected_identity" where
  "with_windows c e = e\<lparr>ei_windows := Some c\<rparr>"

definition with_macos :: "code_requirement choice \<Rightarrow> expected_identity \<Rightarrow> expected_identity" where
  "with_macos c e = e\<lparr>ei_macos := Some c\<rparr>"

definition with_ios :: "team_identifier choice \<Rightarrow> expected_identity \<Rightarrow> expected_identity" where
  "with_ios c e = e\<lparr>ei_ios := Some c\<rparr>"

definition with_android :: "certificate_sha256 choice \<Rightarrow> expected_identity \<Rightarrow> expected_identity" where
  "with_android c e = e\<lparr>ei_android := Some c\<rparr>"

definition with_linux :: "content_digest choice \<Rightarrow> expected_identity \<Rightarrow> expected_identity" where
  "with_linux c e = e\<lparr>ei_linux := Some c\<rparr>"

fun states_choice_for :: "expected_identity \<Rightarrow> platform \<Rightarrow> bool" where
  "states_choice_for e Windows \<longleftrightarrow> ei_windows e \<noteq> None"
| "states_choice_for e MacOs \<longleftrightarrow> ei_macos e \<noteq> None"
| "states_choice_for e Ios \<longleftrightarrow> ei_ios e \<noteq> None"
| "states_choice_for e Android \<longleftrightarrow> ei_android e \<noteq> None"
| "states_choice_for e Linux \<longleftrightarrow> ei_linux e \<noteq> None"

definition sha256_hex_len :: nat where
  "sha256_hex_len = 64"

definition hex_digit :: "u8 \<Rightarrow> identity_error + u8" where
  "hex_digit b =
     (if 0x30 \<le> b \<and> b \<le> 0x39 then Inr (b - 0x30)
      else if 0x61 \<le> b \<and> b \<le> 0x66 then Inr (b - 0x61 + 10)
      else if 0x41 \<le> b \<and> b \<le> 0x46 then Inr (b - 0x41 + 10)
      else Inl NotHex)"

definition as_bytes :: "string \<Rightarrow> bytes" where
  "as_bytes s = map (\<lambda>c. of_nat (code c)) s"

text \<open>The loop over the digest slots: two digits for each slot, the first error wins.\<close>

fun parse_hex_pairs :: "bytes \<Rightarrow> identity_error + bytes" where
  "parse_hex_pairs (a # b # rest) =
     (case hex_digit a of
        Inl e \<Rightarrow> Inl e
      | Inr high \<Rightarrow>
          (case hex_digit b of
             Inl e \<Rightarrow> Inl e
           | Inr low \<Rightarrow>
               (case parse_hex_pairs rest of
                  Inl e \<Rightarrow> Inl e
                | Inr ds \<Rightarrow> Inr ((push_bit 4 high OR low) # ds))))"
| "parse_hex_pairs _ = Inr []"

definition parse_sha256_hex :: "string \<Rightarrow> identity_error + bytes" where
  "parse_sha256_hex hex =
     (if length hex \<noteq> sha256_hex_len then Inl (BadHexLength sha256_hex_len (length hex))
      else parse_hex_pairs (as_bytes hex))"

definition thumbprint_from_hex :: "string \<Rightarrow> identity_error + authenticode_thumbprint" where
  "thumbprint_from_hex hex = map_sum id AuthenticodeThumbprint (parse_sha256_hex hex)"

definition certificate_from_hex :: "string \<Rightarrow> identity_error + certificate_sha256" where
  "certificate_from_hex hex = map_sum id CertificateSha256 (parse_sha256_hex hex)"

definition code_requirement_new :: "string \<Rightarrow> identity_error + code_requirement" where
  "code_requirement_new s = (if trim s = [] then Inl Empty else Inr (CodeRequirement s))"

definition team_identifier_new :: "string \<Rightarrow> identity_error + team_identifier" where
  "team_identifier_new s = (if trim s = [] then Inl Empty else Inr (TeamIdentifier s))"

definition content_digest_new :: "bytes \<Rightarrow> identity_error + content_digest" where
  "content_digest_new d = (if d = [] then Inl Empty else Inr (ContentDigest d))"

text \<open>
  What the parser is checked against: the two digit alphabets, and the printer that writes a
  digest with either of them.
\<close>

definition hex_lower :: string where
  "hex_lower = ''0123456789abcdef''"

definition hex_upper :: string where
  "hex_upper = ''0123456789ABCDEF''"

fun print_hex :: "string \<Rightarrow> bytes \<Rightarrow> string" where
  "print_hex alphabet [] = []"
| "print_hex alphabet (d # ds) =
     alphabet ! (unat d div 16) # alphabet ! (unat d mod 16) # print_hex alphabet ds"

definition is_hex_char :: "char \<Rightarrow> bool" where
  "is_hex_char c \<longleftrightarrow> c \<in> set hex_lower \<or> c \<in> set hex_upper"

lemma length_print_hex [simp]: "length (print_hex alphabet ds) = 2 * length ds"
  by (induction ds) auto

lemma hex_digit_table:
  "list_all (\<lambda>n. hex_digit (of_nat (code (hex_lower ! n))) = Inr (of_nat n)) [0..<16]"
  "list_all (\<lambda>n. hex_digit (of_nat (code (hex_upper ! n))) = Inr (of_nat n)) [0..<16]"
  by code_simp+

lemma hex_char_table:
  "list_all (\<lambda>n. hex_digit (of_nat n) = Inl NotHex \<or> is_hex_char (char_of n)) [0..<256]"
  by code_simp

lemma hex_digit_alphabet:
  assumes "alphabet \<in> {hex_lower, hex_upper}" and "n < 16"
  shows "hex_digit (of_nat (code (alphabet ! n))) = Inr (of_nat n)"
  using assms hex_digit_table by (auto simp: list_all_iff)

lemma nibbles_join: "push_bit 4 (of_nat (unat d div 16)) OR of_nat (unat d mod 16) = d" for d :: u8
proof -
  have "unat d div 16 = unat (drop_bit 4 d)" and "unat d mod 16 = unat (take_bit 4 d)"
    by (simp_all add: drop_bit_eq_div take_bit_eq_mod unat_div unat_mod)
  then have "push_bit 4 (of_nat (unat d div 16)) OR of_nat (unat d mod 16)
      = push_bit 4 (drop_bit 4 d) OR take_bit 4 d"
    by simp
  also have "\<dots> = d" by (rule bit_word_eqI) (auto simp: bit_simps)
  finally show ?thesis .
qed

lemma parse_hex_pairs_print:
  "alphabet \<in> {hex_lower, hex_upper} \<Longrightarrow> parse_hex_pairs (as_bytes (print_hex alphabet ds)) = Inr ds"
proof (induction ds)
  case (Cons d ds)
  have "unat d < 2 ^ LENGTH(8)" by (rule unsigned_less)
  then have "unat d div 16 < 16" by (simp add: less_mult_imp_div_less)
  with Cons show ?case
    by (simp add: as_bytes_def hex_digit_alphabet nibbles_join)
qed (simp add: as_bytes_def)

lemma hex_digit_error: "hex_digit b = Inl e \<Longrightarrow> e = NotHex"
  by (auto simp: hex_digit_def split: if_splits)

lemma parse_hex_pairs_length: "parse_hex_pairs bs = Inr ds \<Longrightarrow> length ds = length bs div 2"
  by (induction bs arbitrary: ds rule: parse_hex_pairs.induct) (auto split: sum.splits)

lemma parse_hex_pairs_error: "parse_hex_pairs bs = Inl e \<Longrightarrow> e = NotHex"
  by (induction bs rule: parse_hex_pairs.induct)
     (auto split: sum.splits dest: hex_digit_error)

lemma hex_digit_char: "hex_digit (of_nat (code c)) = Inr v \<Longrightarrow> is_hex_char c"
proof -
  assume "hex_digit (of_nat (code c)) = Inr v"
  moreover have "(code c :: nat) \<in> set [0..<256]" by simp
  then have "hex_digit (of_nat (code c)) = Inl NotHex \<or> is_hex_char (char_of (code c :: nat))"
    using hex_char_table unfolding list_all_iff by blast
  ultimately show ?thesis by simp
qed

lemma parse_hex_pairs_chars:
  "even (length s) \<Longrightarrow> parse_hex_pairs (as_bytes s) = Inr ds \<Longrightarrow> \<forall>c \<in> set s. is_hex_char c"
proof (induction s arbitrary: ds rule: induct_list012)
  case (3 a b s)
  then show ?case
    by (auto simp: as_bytes_def split: sum.splits dest: hex_digit_char)
qed auto

text \<open>
  A digest written in hexadecimal with either alphabet reads back as itself, and the reader
  accepts nothing else: an accepted text has 64 digits and yields 32 bytes, and a refusal states
  either the length found or that a character is no digit.
\<close>

lemma parse_sha256_hex_exact:
  "(\<forall>ds. length ds = 32 \<longrightarrow> parse_sha256_hex (print_hex hex_lower ds) = Inr ds
       \<and> parse_sha256_hex (print_hex hex_upper ds) = Inr ds)
   \<and> (case parse_sha256_hex s of
        Inr ds \<Rightarrow> length s = 64 \<and> (\<forall>c \<in> set s. is_hex_char c) \<and> length ds = 32
      | Inl e \<Rightarrow> e = (if length s = 64 then NotHex else BadHexLength 64 (length s)))"
proof
  show "\<forall>ds. length ds = 32 \<longrightarrow> parse_sha256_hex (print_hex hex_lower ds) = Inr ds
       \<and> parse_sha256_hex (print_hex hex_upper ds) = Inr ds"
    by (simp add: parse_sha256_hex_def sha256_hex_len_def parse_hex_pairs_print)
  show "case parse_sha256_hex s of
        Inr ds \<Rightarrow> length s = 64 \<and> (\<forall>c \<in> set s. is_hex_char c) \<and> length ds = 32
      | Inl e \<Rightarrow> e = (if length s = 64 then NotHex else BadHexLength 64 (length s))"
    using parse_hex_pairs_chars [of s] parse_hex_pairs_length [of "as_bytes s"]
      parse_hex_pairs_error [of "as_bytes s"]
    by (auto simp: parse_sha256_hex_def sha256_hex_len_def as_bytes_def split: sum.splits if_splits)
qed

lemma parse_sha256_hex_exact_example:
  "parse_sha256_hex (print_hex hex_lower (replicate 32 0xAB)) = Inr (replicate 32 0xAB)
   \<and> length (replicate 32 (0xAB :: u8)) = 32"
  using parse_sha256_hex_exact by simp

end
