(* ===== verification/Fid_Policy.thy ===== *)
theory Fid_Policy
  imports Fid_Types
begin

text \<open>
  The host's policy (\<open>fidelity-engine/src/policy.rs\<close>) and the bounded queue of qualified host
  reports (\<open>pending.rs\<close>).  The policy is an array with one entry for each category and refines
  a map from categories to entries; the queue is a fixed array with a length and refines a
  bounded first-in first-out buffer.  Both contracts are locales, interpreted on the code's
  representation.
\<close>

section \<open>Policy\<close>

record entry =
  en_action :: action
  en_threshold :: strength

definition entry_default :: entry where
  "entry_default = \<lparr>en_action = Report, en_threshold = High\<rparr>"

type_synonym policy = "entry list"

definition policy_new :: policy where
  "policy_new = replicate category_count entry_default"

definition policy_set :: "policy \<Rightarrow> category \<Rightarrow> action \<Rightarrow> strength \<Rightarrow> policy" where
  "policy_set p c a t = p[category_index c := \<lparr>en_action = a, en_threshold = t\<rparr>]"

definition policy_action :: "policy \<Rightarrow> category \<Rightarrow> action" where
  "policy_action p c = en_action (p ! category_index c)"

definition policy_threshold :: "policy \<Rightarrow> category \<Rightarrow> strength" where
  "policy_threshold p c = en_threshold (p ! category_index c)"

definition needs_callback :: "policy \<Rightarrow> bool" where
  "needs_callback p = list_ex (\<lambda>c. policy_action p c = Callback) all_categories"

definition qualifying_action :: "policy \<Rightarrow> finding \<Rightarrow> action option" where
  "qualifying_action p f =
     (let category = f_category f in
      if \<not> reaches (f_strength f) (policy_threshold p category) then None
      else let action = policy_action p category in
        if action = Crash \<and> is_detector_health (f_evidence f) then Some Report
        else Some action)"

text \<open>The array has one cell for each category, so no index of the code is out of range.\<close>

definition policy_wf :: "policy \<Rightarrow> bool" where
  "policy_wf p \<longleftrightarrow> length p = category_count"

lemma policy_wf_new [simp]: "policy_wf policy_new"
  by (simp add: policy_wf_def policy_new_def)

lemma policy_wf_set [simp]: "policy_wf (policy_set p c a t) \<longleftrightarrow> policy_wf p"
  by (simp add: policy_wf_def policy_set_def)

definition policy_entry :: "policy \<Rightarrow> category \<Rightarrow> entry" where
  "policy_entry p c = p ! category_index c"

text \<open>What a table of host choices promises.\<close>

locale choice_table =
  fixes start :: 'p
    and assign :: "'p \<Rightarrow> category \<Rightarrow> action \<Rightarrow> strength \<Rightarrow> 'p"
    and look :: "'p \<Rightarrow> category \<Rightarrow> entry"
    and ok :: "'p \<Rightarrow> bool"
    and initial :: entry
  assumes ok_start: "ok start"
    and ok_assign: "ok p \<Longrightarrow> ok (assign p c a t)"
    and look_start: "look start c = initial"
    and look_assign: "ok p \<Longrightarrow>
      look (assign p c a t) d = (if d = c then \<lparr>en_action = a, en_threshold = t\<rparr> else look p d)"
begin

text \<open>The table after a sequence of choices, and the choice that decides one category.\<close>

definition table :: "(category \<times> action \<times> strength) list \<Rightarrow> 'p" where
  "table cs = foldl (\<lambda>p (c, a, t). assign p c a t) start cs"

definition decided :: "(category \<times> action \<times> strength) list \<Rightarrow> category \<Rightarrow> entry" where
  "decided cs c = (case List.find (\<lambda>(d, _). d = c) (rev cs) of
     None \<Rightarrow> initial | Some (_, a, t) \<Rightarrow> \<lparr>en_action = a, en_threshold = t\<rparr>)"

lemma table_snoc: "table (cs @ [(c, a, t)]) = assign (table cs) c a t"
  by (simp add: table_def)

lemma ok_table: "ok (table cs)"
proof (induction cs rule: rev_induct)
  case (snoc x cs)
  then show ?case by (cases x) (simp add: table_snoc ok_assign)
qed (simp add: table_def ok_start)

lemma look_table: "look (table cs) d = decided cs d"
proof (induction cs rule: rev_induct)
  case (snoc x cs)
  then show ?case
    by (cases x) (simp add: table_snoc look_assign ok_table decided_def)
qed (simp add: table_def decided_def look_start)

end

interpretation pol: choice_table policy_new policy_set policy_entry policy_wf entry_default
proof
  show "policy_entry policy_new c = entry_default" for c
    by (simp add: policy_entry_def policy_new_def)
  show "policy_entry (policy_set p c a t) d =
      (if d = c then \<lparr>en_action = a, en_threshold = t\<rparr> else policy_entry p d)"
    if "policy_wf p" for p c a t d
    using that by (auto simp: policy_entry_def policy_set_def policy_wf_def nth_list_update)
qed simp_all

lemma policy_action_entry: "policy_action p c = en_action (policy_entry p c)"
  by (simp add: policy_action_def policy_entry_def)

lemma policy_threshold_entry: "policy_threshold p c = en_threshold (policy_entry p c)"
  by (simp add: policy_threshold_def policy_entry_def)

lemma needs_callback_iff: "needs_callback p \<longleftrightarrow> (\<exists>c. policy_action p c = Callback)"
  by (auto simp: needs_callback_def list_ex_iff)

lemma qualifying_action_iff:
  "qualifying_action p f = Some a \<longleftrightarrow>
     policy_threshold p (f_category f) \<le> f_strength f
     \<and> a = (if policy_action p (f_category f) = Crash \<and> is_detector_health (f_evidence f)
            then Report else policy_action p (f_category f))"
  by (auto simp: qualifying_action_def reaches_def Let_def)

text \<open>
  C13.  The decision of a policy is the host's last word.  After any sequence of choices a finding
  qualifies exactly when it reaches the threshold that the host last chose for its category
  (\<open>High\<close> when the host chose none), the action is the one chosen with that threshold
  (\<open>Report\<close> when none), and \<open>Crash\<close> becomes \<open>Report\<close> for a finding that describes the
  health of a detector.
\<close>

theorem policy_last_choice_decides:
  fixes choices :: "(category \<times> action \<times> strength) list"
  defines "p \<equiv> foldl (\<lambda>p (c, a, t). policy_set p c a t) policy_new choices"
    and "last_choice \<equiv> (\<lambda>c. case List.find (\<lambda>(d, _). d = c) (rev choices) of
           None \<Rightarrow> (Report, High) | Some (_, a, t) \<Rightarrow> (a, t))"
  shows "qualifying_action p f =
    (if snd (last_choice (f_category f)) \<le> f_strength f then
       Some (if fst (last_choice (f_category f)) = Crash \<and> is_detector_health (f_evidence f)
             then Report else fst (last_choice (f_category f)))
     else None)"
proof -
  have e: "policy_entry p c = \<lparr>en_action = fst (last_choice c), en_threshold = snd (last_choice c)\<rparr>" for c
    using pol.look_table [of choices c]
    unfolding pol.table_def pol.decided_def p_def last_choice_def
    by (auto simp: entry_default_def split: option.splits)
  show ?thesis
    by (simp add: qualifying_action_def policy_action_entry policy_threshold_entry e reaches_def Let_def)
qed

section \<open>Pending reports\<close>

type_synonym report = "finding \<times> action"

definition most_reports :: nat where
  "most_reports = 16"

record reports =
  rp_entries :: "report option list"
  rp_len :: nat

definition reports_new :: reports where
  "reports_new = \<lparr>rp_entries = replicate most_reports None, rp_len = 0\<rparr>"

definition reports_push :: "reports \<Rightarrow> report \<Rightarrow> bool \<times> reports" where
  "reports_push r x =
     (if most_reports \<le> rp_len r then (False, r)
      else (True, r\<lparr>rp_entries := (rp_entries r)[rp_len r := Some x], rp_len := rp_len r + 1\<rparr>))"

text \<open>The loop over \<open>entries[..len]\<close> takes each cell and keeps what it held.\<close>

definition reports_take :: "reports \<Rightarrow> report list \<times> reports" where
  "reports_take r =
     (List.map_filter id (take (rp_len r) (rp_entries r)),
      r\<lparr>rp_entries := replicate (min (rp_len r) (length (rp_entries r))) None @ drop (rp_len r) (rp_entries r),
        rp_len := 0\<rparr>)"

fun pending_add :: "report list \<Rightarrow> reports \<Rightarrow> reports" where
  "pending_add [] r = r"
| "pending_add (x # xs) r =
     (case reports_push r x of (True, r') \<Rightarrow> pending_add xs r' | (False, r') \<Rightarrow> r')"

definition pending_take :: "reports \<Rightarrow> report list \<times> reports" where
  "pending_take r = reports_take r"

definition reports_inv :: "reports \<Rightarrow> bool" where
  "reports_inv r \<longleftrightarrow> length (rp_entries r) = most_reports \<and> rp_len r \<le> most_reports
     \<and> list_all (\<lambda>e. e \<noteq> None) (take (rp_len r) (rp_entries r))
     \<and> list_all (\<lambda>e. e = None) (drop (rp_len r) (rp_entries r))"

definition reports_abs :: "reports \<Rightarrow> report list" where
  "reports_abs r = List.map_filter id (take (rp_len r) (rp_entries r))"

lemma map_filter_id_somes: "list_all (\<lambda>e. e \<noteq> None) xs \<Longrightarrow> length (List.map_filter id xs) = length xs"
  by (induction xs) (auto simp: List.map_filter_simps split: option.splits)

lemma map_filter_append: "List.map_filter f (xs @ ys) = List.map_filter f xs @ List.map_filter f ys"
  by (induction xs) (auto simp: List.map_filter_simps split: option.splits)

lemma reports_abs_length: "reports_inv r \<Longrightarrow> length (reports_abs r) = rp_len r"
  by (simp add: reports_inv_def reports_abs_def map_filter_id_somes)

lemma reports_push_ok:
  assumes "reports_inv r" and "rp_len r < most_reports"
  shows "reports_inv (snd (reports_push r x))" and "reports_abs (snd (reports_push r x)) = reports_abs r @ [x]"
    and "fst (reports_push r x)"
  using assms set_drop_subset_set_drop [of "rp_len r" "Suc (rp_len r)" "rp_entries r"]
  by (auto simp: reports_push_def reports_inv_def reports_abs_def take_Suc_conv_app_nth map_filter_append
      List.map_filter_simps list_all_iff)

lemma reports_push_full:
  "reports_inv r \<Longrightarrow> most_reports \<le> rp_len r \<Longrightarrow> reports_push r x = (False, r)"
  by (simp add: reports_push_def)

text \<open>
  A history of a buffer: \<open>Inl xs\<close> adds, \<open>Inr ()\<close> takes.  The run of an implementation and the run
  of the specification, each with the batches that the takes delivered.
\<close>

primrec buffer_run ::
  "('x list \<Rightarrow> 'b \<Rightarrow> 'b) \<Rightarrow> ('b \<Rightarrow> 'x list \<times> 'b) \<Rightarrow> ('x list + unit) list \<Rightarrow> 'b \<Rightarrow> 'x list list \<times> 'b" where
  "buffer_run add grab [] b = ([], b)"
| "buffer_run add grab (opn # ops) b = (case opn of
       Inl xs \<Rightarrow> buffer_run add grab ops (add xs b)
     | Inr u \<Rightarrow> (case buffer_run add grab ops (snd (grab b)) of (out, b') \<Rightarrow> (fst (grab b) # out, b')))"

primrec buffer_spec :: "nat \<Rightarrow> ('x list + unit) list \<Rightarrow> 'x list \<Rightarrow> 'x list list \<times> 'x list" where
  "buffer_spec limit [] q = ([], q)"
| "buffer_spec limit (opn # ops) q = (case opn of
       Inl xs \<Rightarrow> buffer_spec limit ops (take limit (q @ xs))
     | Inr u \<Rightarrow> (case buffer_spec limit ops [] of (out, q') \<Rightarrow> (q # out, q')))"

lemma buffer_spec_bounded:
  "length q \<le> limit \<Longrightarrow> length (snd (buffer_spec limit ops q)) \<le> limit
     \<and> list_all (\<lambda>b. length b \<le> limit) (fst (buffer_spec limit ops q))"
proof (induction ops arbitrary: q)
  case (Cons opn ops)
  show ?case
  proof (cases opn)
    case (Inl xs)
    have "length (take limit (q @ xs)) \<le> limit" by (simp del: take_append)
    from Cons.IH [OF this] Inl show ?thesis by simp
  next
    case (Inr u)
    from Cons.IH [of "[]"] Inr Cons.prems show ?thesis by (auto split: prod.splits)
  qed
qed simp

text \<open>The contract of a bounded buffer that keeps its oldest entries.\<close>

locale bounded_buffer =
  fixes empty :: 'b
    and add :: "'x list \<Rightarrow> 'b \<Rightarrow> 'b"
    and grab :: "'b \<Rightarrow> 'x list \<times> 'b"
    and inv :: "'b \<Rightarrow> bool"
    and contents :: "'b \<Rightarrow> 'x list"
    and limit :: nat
  assumes inv_empty: "inv empty" and contents_empty: "contents empty = []"
    and inv_add: "inv b \<Longrightarrow> inv (add xs b)"
    and contents_add: "inv b \<Longrightarrow> contents (add xs b) = take limit (contents b @ xs)"
    and inv_grab: "inv b \<Longrightarrow> inv (snd (grab b))"
    and grab_contents: "inv b \<Longrightarrow> fst (grab b) = contents b"
    and contents_grab: "inv b \<Longrightarrow> contents (snd (grab b)) = []"
begin

lemma run_refines:
  "inv b \<Longrightarrow> inv (snd (buffer_run add grab ops b))
     \<and> fst (buffer_run add grab ops b) = fst (buffer_spec limit ops (contents b))
     \<and> contents (snd (buffer_run add grab ops b)) = snd (buffer_spec limit ops (contents b))"
proof (induction ops arbitrary: b)
  case (Cons opn ops)
  show ?case
  proof (cases opn)
    case (Inl xs)
    with Cons.prems Cons.IH [of "add xs b"] show ?thesis by (simp add: inv_add contents_add)
  next
    case (Inr u)
    with Cons.prems Cons.IH [of "snd (grab b)"] show ?thesis
      by (auto simp: inv_grab grab_contents contents_grab split: prod.splits)
  qed
qed simp

end

lemma pending_add_abs:
  "reports_inv r \<Longrightarrow> reports_inv (pending_add xs r)
     \<and> reports_abs (pending_add xs r) = take most_reports (reports_abs r @ xs)"
proof (induction xs arbitrary: r)
  case Nil
  then show ?case using reports_abs_length [of r] by (simp add: reports_inv_def)
next
  case (Cons x xs)
  show ?case
  proof (cases "rp_len r < most_reports")
    case True
    then have "reports_push r x = (True, snd (reports_push r x))"
      using reports_push_ok(3) [OF Cons.prems True] by (metis prod.collapse)
    with Cons.IH [OF reports_push_ok(1) [OF Cons.prems True]] show ?thesis
      by (metis (no_types, lifting) Cons.prems True append_Cons append_Nil append_assoc pending_add.simps(2)
          case_prod_conv bool.case(1) reports_push_ok(2) split_pairs)
  next
    case False
    then have "length (reports_abs r) = most_reports"
      using reports_abs_length [OF Cons.prems] Cons.prems by (simp add: reports_inv_def)
    with False Cons.prems show ?thesis by (simp add: reports_push_full)
  qed
qed

lemma reports_inv_take: "reports_inv r \<Longrightarrow> reports_inv (snd (pending_take r))"
  by (auto simp: pending_take_def reports_take_def reports_inv_def list_all_iff)

lemma pending_take_abs:
  "fst (pending_take r) = reports_abs r" "reports_abs (snd (pending_take r)) = []"
  by (simp_all add: pending_take_def reports_take_def reports_abs_def List.map_filter_simps)

interpretation pend: bounded_buffer reports_new pending_add pending_take reports_inv reports_abs most_reports
proof
  show "reports_inv reports_new" "reports_abs reports_new = []"
    by (simp_all add: reports_new_def reports_inv_def reports_abs_def list_all_iff List.map_filter_simps)
qed (use pending_add_abs reports_inv_take pending_take_abs in auto)

text \<open>
  C14.  The queue of host reports is a bounded first-in first-out buffer that keeps its oldest
  entries.  For every history of additions and takes, the batches that the worker receives are
  exactly those of the specification, no batch and no content exceeds sixteen reports, and the
  array representation stays well formed.
\<close>

theorem pending_refines_bounded_queue:
  "fst (buffer_run pending_add pending_take ops reports_new) = fst (buffer_spec 16 ops [])
   \<and> reports_abs (snd (buffer_run pending_add pending_take ops reports_new)) = snd (buffer_spec 16 ops [])
   \<and> reports_inv (snd (buffer_run pending_add pending_take ops reports_new))
   \<and> list_all (\<lambda>batch. length batch \<le> 16) (fst (buffer_run pending_add pending_take ops reports_new))
   \<and> length (reports_abs (snd (buffer_run pending_add pending_take ops reports_new))) \<le> 16"
  using pend.run_refines [OF pend.inv_empty, of ops] buffer_spec_bounded [of "[]" most_reports ops]
  by (simp add: pend.contents_empty most_reports_def)

end
