(* ===== verification/Fid_State.thy ===== *)
theory Fid_State
  imports Fid_Types
begin

text \<open>
  The retained state of one runtime (\<open>fidelity-engine/src/state.rs\<close>): one slot for each
  detector and the two latch sets.  The refinement theorem states what the fixed amount of
  memory means: each slot is a function of the whole history of outcomes that reached its
  detector, although the state keeps none of that history.
\<close>

section \<open>Slots\<close>

record slot =
  sl_detector :: detector
  sl_outcome :: outcome
  sl_strongest :: "finding option"
  sl_first_unix_ms :: "u64 option"
  sl_latest_unix_ms :: "u64 option"
  sl_occurrences :: u32

definition slot_new :: "detector \<Rightarrow> slot" where
  "slot_new d = \<lparr>sl_detector = d, sl_outcome = NotRun, sl_strongest = None,
     sl_first_unix_ms = None, sl_latest_unix_ms = None, sl_occurrences = 0\<rparr>"

definition slot_record :: "slot \<Rightarrow> outcome \<Rightarrow> slot" where
  "slot_record sl oc =
     (let sl' = (case oc of
          Finding f \<Rightarrow>
            (let observed = f_observed_at_unix_ms f;
                 stronger = (case sl_strongest sl of
                     None \<Rightarrow> True | Some held \<Rightarrow> f_strength held < f_strength f)
             in sl\<lparr>sl_first_unix_ms := (case sl_first_unix_ms sl of None \<Rightarrow> Some observed | Some t \<Rightarrow> Some t),
                   sl_latest_unix_ms := Some observed,
                   sl_occurrences := saturating_add (sl_occurrences sl) 1,
                   sl_strongest := (if stronger then Some f else sl_strongest sl)\<rparr>)
        | _ \<Rightarrow> sl)
      in sl'\<lparr>sl_outcome := oc\<rparr>)"

definition slot_to_public :: "slot \<Rightarrow> detector_state" where
  "slot_to_public sl = \<lparr>ds_detector = sl_detector sl, ds_outcome = sl_outcome sl,
     ds_strongest = sl_strongest sl, ds_first_unix_ms = sl_first_unix_ms sl,
     ds_latest_unix_ms = sl_latest_unix_ms sl, ds_occurrences = sl_occurrences sl\<rparr>"

section \<open>State\<close>

record state =
  st_latched :: category_set
  st_host_latched :: category_set
  st_slots :: "slot list"

definition state_new :: "detector list \<Rightarrow> state" where
  "state_new ds = \<lparr>st_latched = cs_new, st_host_latched = cs_new, st_slots = map slot_new ds\<rparr>"

text \<open>\<open>iter_mut().find(...)\<close> reaches the first slot whose detector is equal.\<close>

fun slots_record :: "slot list \<Rightarrow> detector \<Rightarrow> outcome \<Rightarrow> finding option \<times> slot list" where
  "slots_record [] d oc = (None, [])"
| "slots_record (sl # sls) d oc =
     (if det_eq (sl_detector sl) d then (outcome_finding oc, slot_record sl oc # sls)
      else case slots_record sls d oc of (f, sls') \<Rightarrow> (f, sl # sls'))"

definition state_record :: "state \<Rightarrow> detector \<Rightarrow> outcome \<Rightarrow> finding option \<times> state" where
  "state_record st d oc =
     (case slots_record (st_slots st) d oc of (f, sls) \<Rightarrow> (f, st\<lparr>st_slots := sls\<rparr>))"

definition state_latch :: "category \<Rightarrow> state \<Rightarrow> state" where
  "state_latch c st = st\<lparr>st_latched := fst (cs_insert c (st_latched st))\<rparr>"

definition latch_by_host :: "category \<Rightarrow> state \<Rightarrow> state" where
  "latch_by_host c st = st\<lparr>st_latched := fst (cs_insert c (st_latched st)),
     st_host_latched := fst (cs_insert c (st_host_latched st))\<rparr>"

definition state_snapshot :: "state \<Rightarrow> snapshot" where
  "state_snapshot st = \<lparr>sn_latched = st_latched st, sn_host_latched = st_host_latched st,
     sn_detectors = map slot_to_public (st_slots st)\<rparr>"

section \<open>What a slot summarises\<close>

definition findings_of :: "outcome list \<Rightarrow> finding list" where
  "findings_of ocs = List.map_filter outcome_finding ocs"

text \<open>The first finding of the greatest strength.\<close>

fun first_strongest :: "finding list \<Rightarrow> finding option" where
  "first_strongest [] = None"
| "first_strongest (f # fs) = (case first_strongest fs of
     None \<Rightarrow> Some f | Some g \<Rightarrow> if f_strength f < f_strength g then Some g else Some f)"

definition sat_count :: "nat \<Rightarrow> u32" where
  "sat_count n = of_nat (min n (2 ^ 32 - 1))"

definition summary :: "detector \<Rightarrow> outcome list \<Rightarrow> slot" where
  "summary d ocs = \<lparr>sl_detector = d,
     sl_outcome = (if ocs = [] then NotRun else last ocs),
     sl_strongest = first_strongest (findings_of ocs),
     sl_first_unix_ms = (case findings_of ocs of [] \<Rightarrow> None | f # _ \<Rightarrow> Some (f_observed_at_unix_ms f)),
     sl_latest_unix_ms = (if findings_of ocs = [] then None else Some (f_observed_at_unix_ms (last (findings_of ocs)))),
     sl_occurrences = sat_count (length (findings_of ocs))\<rparr>"

lemma findings_of_simps [simp]:
  "findings_of [] = []"
  "findings_of (ocs @ ocs') = findings_of ocs @ findings_of ocs'"
  "findings_of [Finding f] = [f]" "findings_of [NotRun] = []" "findings_of [Clean] = []"
  "findings_of [Unsupported r] = []"
  by (simp_all add: findings_of_def List.map_filter_def)

lemma first_strongest_Nil_iff [simp]: "first_strongest fs = None \<longleftrightarrow> fs = []"
  by (cases fs) (auto split: option.splits)

lemma first_strongest_snoc:
  "first_strongest (fs @ [f]) = (case first_strongest fs of
     None \<Rightarrow> Some f | Some g \<Rightarrow> if f_strength g < f_strength f then Some f else Some g)"
  by (induction fs) (auto split: option.splits if_splits)

lemma first_strongest_in: "first_strongest fs = Some g \<Longrightarrow> g \<in> set fs"
  by (induction fs arbitrary: g) (auto split: option.splits if_splits)

lemma first_strongest_max: "first_strongest fs = Some g \<Longrightarrow> f \<in> set fs \<Longrightarrow> f_strength f \<le> f_strength g"
proof (induction fs arbitrary: g)
  case (Cons h fs)
  then show ?case
    by (cases "first_strongest fs") (auto split: if_splits)
qed simp

lemma sat_count_0 [simp]: "sat_count 0 = 0"
  by (simp add: sat_count_def)

lemma sat_count_Suc: "saturating_add (sat_count n) 1 = sat_count (Suc n)"
proof (rule word_unat_eq_iff [THEN iffD2])
  have u: "unat (sat_count m) = min m (2 ^ 32 - 1)" for m
    unfolding sat_count_def unat_of_nat by (rule mod_less) (simp add: min_def)
  show "unat (saturating_add (sat_count n) 1) = unat (sat_count (Suc n))"
    by (simp add: unat_saturating_add u min_def del: unat_of_nat)
qed

lemma first_time_snoc:
  "(case fs @ [f] of [] \<Rightarrow> None | g # _ \<Rightarrow> Some (t g)) =
     (case (case fs of [] \<Rightarrow> None | g # _ \<Rightarrow> Some (t g)) of None \<Rightarrow> Some (t f) | Some x \<Rightarrow> Some x)"
  by (cases fs) auto

lemma slot_record_summary: "slot_record (summary d ocs) oc = summary d (ocs @ [oc])"
proof (cases oc)
  case (Finding f)
  then show ?thesis
    by (auto simp: slot_record_def summary_def Let_def first_strongest_snoc first_time_snoc sat_count_Suc
        split: option.splits)
qed (simp_all add: slot_record_def summary_def)

lemma slot_history: "foldl slot_record (slot_new d) ocs = summary d ocs"
proof (induction ocs rule: rev_induct)
  case Nil
  show ?case by (simp add: slot_new_def summary_def)
next
  case (snoc oc ocs)
  then show ?case by (simp add: slot_record_summary)
qed

section \<open>Histories of the state\<close>

datatype state_op = Record detector outcome | Latch category | LatchByHost category

fun state_step :: "state \<Rightarrow> state_op \<Rightarrow> state" where
  "state_step st (Record d oc) = snd (state_record st d oc)"
| "state_step st (Latch c) = state_latch c st"
| "state_step st (LatchByHost c) = latch_by_host c st"

definition outcomes_for :: "detector \<Rightarrow> state_op list \<Rightarrow> outcome list" where
  "outcomes_for d ops = List.map_filter (\<lambda>x. case x of
     Record e oc \<Rightarrow> if det_eq d e then Some oc else None | _ \<Rightarrow> None) ops"

lemma outcomes_for_snoc [simp]:
  "outcomes_for d [] = []"
  "outcomes_for d (ops @ [Record e oc]) = outcomes_for d ops @ (if det_eq d e then [oc] else [])"
  "outcomes_for d (ops @ [Latch c]) = outcomes_for d ops"
  "outcomes_for d (ops @ [LatchByHost c]) = outcomes_for d ops"
  by (simp_all add: outcomes_for_def List.map_filter_def)

lemma summary_detector [simp]: "sl_detector (summary d ocs) = d"
  by (simp add: summary_def)

text \<open>A record reaches the one slot whose detector is equal, and no other.\<close>

lemma slots_record_map:
  assumes "distinct (map det_id ds)"
  shows "snd (slots_record (map (\<lambda>d. summary d (h d)) ds) e oc)
    = map (\<lambda>d. summary d (h d @ (if det_eq d e then [oc] else []))) ds"
  using assms
proof (induction ds)
  case (Cons d ds)
  show ?case
  proof (cases "det_eq d e")
    case True
    then have "\<forall>x \<in> set ds. \<not> det_eq x e"
      using Cons.prems unfolding det_eq_def by (metis distinct.simps(2) image_eqI list.set_map list.simps(9))
    with True show ?thesis by (simp add: slot_record_summary)
  next
    case False
    with Cons show ?thesis by (auto split: prod.splits)
  qed
qed simp

lemma slots_record_finding:
  "fst (slots_record sls e oc) =
     (if \<exists>sl \<in> set sls. det_eq (sl_detector sl) e then outcome_finding oc else None)"
  by (induction sls) (auto split: prod.splits)

lemma slots_record_detectors [simp]:
  "map sl_detector (snd (slots_record sls e oc)) = map sl_detector sls"
  by (induction sls) (auto simp: slot_record_def Let_def split: prod.splits outcome.splits)

lemma state_record_simps [simp]:
  "fst (state_record st d oc) = fst (slots_record (st_slots st) d oc)"
  "st_latched (snd (state_record st d oc)) = st_latched st"
  "st_host_latched (snd (state_record st d oc)) = st_host_latched st"
  "st_slots (snd (state_record st d oc)) = snd (slots_record (st_slots st) d oc)"
  by (simp_all add: state_record_def split: prod.splits)

lemma state_history_slots:
  assumes "distinct (map det_id ds)"
  shows "st_slots (foldl state_step (state_new ds) ops) = map (\<lambda>d. summary d (outcomes_for d ops)) ds"
proof (induction ops rule: rev_induct)
  case Nil
  show ?case by (simp add: state_new_def slot_new_def summary_def)
next
  case (snoc x ops)
  then show ?case
    by (cases x) (simp_all add: slots_record_map [OF assms] state_latch_def latch_by_host_def)
qed

lemma state_history_latches:
  "cs_contains (st_latched (foldl state_step (state_new ds) ops)) c \<longleftrightarrow> Latch c \<in> set ops \<or> LatchByHost c \<in> set ops"
  "cs_contains (st_host_latched (foldl state_step (state_new ds) ops)) c \<longleftrightarrow> LatchByHost c \<in> set ops"
proof (induction ops rule: rev_induct)
  case Nil
  { case 1 show ?case by (simp add: state_new_def cs_member) next
    case 2 show ?case by (simp add: state_new_def cs_member) }
next
  case (snoc x ops)
  { case 1 with snoc show ?case
      by (cases x) (auto simp: cs_member state_latch_def latch_by_host_def) next
    case 2 with snoc show ?case
      by (cases x) (auto simp: cs_member state_latch_def latch_by_host_def) }
qed

text \<open>
  C7.  The bounded state is a faithful summary of an unbounded history.  After any sequence of
  recorded outcomes and latches, the snapshot holds one entry for each detector of the inventory,
  in inventory order; the entry shows the last outcome of that detector, the first finding of its
  greatest strength, the times of its first and latest finding, and the number of its findings
  up to the range of the counter.  A category is latched exactly when something latched it, and
  the host's own latches are marked exactly.
\<close>

theorem snapshot_summarises_history:
  assumes "distinct (map det_id ds)"
  shows "let sn = state_snapshot (foldl state_step (state_new ds) ops) in
    sn_detectors sn = map (\<lambda>d. slot_to_public (summary d (outcomes_for d ops))) ds
    \<and> (\<forall>c. cs_contains (sn_latched sn) c \<longleftrightarrow> Latch c \<in> set ops \<or> LatchByHost c \<in> set ops)
    \<and> (\<forall>c. cs_contains (sn_host_latched sn) c \<longleftrightarrow> LatchByHost c \<in> set ops)"
  using state_history_slots [OF assms] state_history_latches
  by (simp add: state_snapshot_def)

theorem snapshot_summarises_history_witness:
  "distinct (map det_id [detector_new 1 ''a'' Integrity, detector_new 2 ''b'' Debugging])
   \<and> sn_detectors (state_snapshot (foldl state_step
       (state_new [detector_new 1 ''a'' Integrity, detector_new 2 ''b'' Debugging])
       [Record (detector_new 2 ''b'' Debugging) Clean, Latch Integrity]))
     = [slot_to_public (summary (detector_new 1 ''a'' Integrity) []),
        slot_to_public (summary (detector_new 2 ''b'' Debugging) [Clean])]"
proof -
  let ?ds = "[detector_new 1 ''a'' Integrity, detector_new 2 ''b'' Debugging]"
  have d: "distinct (map det_id ?ds)" by (simp add: detector_new_def)
  show ?thesis
    using snapshot_summarises_history [OF d, of "[Record (detector_new 2 ''b'' Debugging) Clean, Latch Integrity]"]
    unfolding Let_def by (simp add: detector_new_def outcomes_for_def List.map_filter_def det_eq_def)
qed

end
