(* ===== verification/Fid_Facts.thy ===== *)
theory Fid_Facts
  imports Fid_Types "HOL-Library.Product_Lexorder"
begin

text \<open>
  The facts of \<open>fidelity-core\<close>: what a probe reads (\<open>observation.rs\<close>, \<open>fact/*.rs\<close>), the
  capability defaults (\<open>capability/*.rs\<close>), and the two snapshot types with their linear
  comparisons (\<open>fact/baseline.rs\<close>, \<open>fact/dispatch.rs\<close>).  The comparisons walk two sorted
  sequences with one index; the locale \<open>merge_scan\<close> states when such a walk decides the same
  question as a search through the whole earlier snapshot, and it is interpreted for each of
  the three walks of the code.
\<close>

section \<open>Observations\<close>

datatype 'a observation =
  Fact 'a
| ObsUnsupported string
| ObsFailed bounded_text

definition obs_failed :: "string \<Rightarrow> 'a observation" where
  "obs_failed detail = ObsFailed (bounded_text_new detail)"

fun obs_fact :: "'a observation \<Rightarrow> 'a option" where
  "obs_fact (Fact x) = Some x"
| "obs_fact (ObsUnsupported r) = None"
| "obs_fact (ObsFailed d) = None"

lemma obs_fact_Some [simp]: "obs_fact ob = Some x \<longleftrightarrow> ob = Fact x"
  by (cases ob) auto

section \<open>Facts\<close>

datatype platform_trust =
  Accepted
| Rejected bounded_text
| Unavailable string

record signer =
  sg_material :: bytes
  sg_label :: bounded_text

definition signer_new :: "bytes \<Rightarrow> string \<Rightarrow> signer" where
  "signer_new m l = \<lparr>sg_material = m, sg_label = bounded_text_new l\<rparr>"

record code_identity =
  ci_trust :: platform_trust
  ci_signer :: "signer option"

datatype identity_match = Same | Different bounded_text

datatype system_build = Released | Development bounded_text

datatype machine_host = Hardware | VirtualMachine bounded_text | Simulated bounded_text

datatype image_catalog_state = CatalogAccounted | Unregistered u32 bounded_text

datatype code_origin = Accounted | Unaccounted u32 bounded_text

datatype local_agent_state = AgentAbsent | AgentPresent bounded_text

datatype tracer_state = TracerAbsent | TracerHeld bounded_text

datatype boot_verification = Verified | Unverified bounded_text

datatype worker_setup = NothingToDo | Prepared bounded_text | SetupFailed bounded_text

definition ws_prepared :: "worker_setup \<Rightarrow> bool" where
  "ws_prepared w = (case w of Prepared _ \<Rightarrow> True | _ \<Rightarrow> False)"

section \<open>Executable regions\<close>

record region =
  rg_start :: u64
  rg_end :: u64
  rg_writable :: bool

definition region_new :: "u64 \<Rightarrow> u64 \<Rightarrow> bool \<Rightarrow> region" where
  "region_new s e w = \<lparr>rg_start = s, rg_end = e, rg_writable = w\<rparr>"

definition rg_bytes :: "region \<Rightarrow> u64" where
  "rg_bytes r = saturating_sub (rg_end r) (rg_start r)"

definition rg_holds :: "region \<Rightarrow> u64 \<Rightarrow> bool" where
  "rg_holds r a \<longleftrightarrow> rg_start r \<le> a \<and> a < rg_end r"

text \<open>The derived \<open>Ord\<close> compares the fields in declaration order.\<close>

definition region_key :: "region \<Rightarrow> u64 \<times> u64 \<times> bool" where
  "region_key r = (rg_start r, rg_end r, rg_writable r)"

lemma region_key_inject: "region_key r = region_key s \<Longrightarrow> r = s"
  by (cases r; cases s) (simp add: region_key_def)

definition max_regions :: nat where
  "max_regions = 1024"

record code_regions =
  cr_regions :: "region list"
  cr_truncated :: bool

definition code_regions_new :: "region list \<Rightarrow> code_regions" where
  "code_regions_new rs =
     (let sorted = sort_key region_key rs
      in \<lparr>cr_regions = take max_regions sorted, cr_truncated = (max_regions < length sorted)\<rparr>)"

section \<open>Dispatch targets\<close>

record target =
  tg_slot :: u64
  tg_value :: u64

definition target_new :: "u64 \<Rightarrow> u64 \<Rightarrow> target" where
  "target_new s v = \<lparr>tg_slot = s, tg_value = v\<rparr>"

definition target_key :: "target \<Rightarrow> u64 \<times> u64" where
  "target_key t = (tg_slot t, tg_value t)"

definition max_targets :: nat where
  "max_targets = 4096"

record dispatch_targets =
  dt_targets :: "target list"
  dt_bound :: bool
  dt_truncated :: bool

definition dispatch_targets_new :: "target list \<Rightarrow> bool \<Rightarrow> dispatch_targets" where
  "dispatch_targets_new ts bound =
     (let sorted = sort_key target_key ts
      in \<lparr>dt_targets = take max_targets sorted, dt_bound = bound,
          dt_truncated = (max_targets < length sorted)\<rparr>)"

section \<open>The linear comparisons\<close>

definition is_some_and :: "('a \<Rightarrow> bool) \<Rightarrow> 'a option \<Rightarrow> bool" where
  "is_some_and p m = (case m of None \<Rightarrow> False | Some x \<Rightarrow> p x)"

text \<open>\<open>while xs.get(known).is_some_and(p) { known += 1 }\<close>\<close>

function while_get :: "('a \<Rightarrow> bool) \<Rightarrow> 'a list \<Rightarrow> nat \<Rightarrow> nat" where
  "while_get p xs known =
     (if is_some_and p (slice_get xs known) then while_get p xs (known + 1) else known)"
  by pat_completeness auto
termination
  by (relation "measure (\<lambda>(p, xs, known). length xs - known)")
     (auto simp: is_some_and_def slice_get_def split: if_splits)

declare while_get.simps [simp del]

text \<open>
  The shape of the three comparisons: one pass over the later sequence, an index into the
  earlier one that only moves forward, and a question asked of the entry at that index.
\<close>

fun merge_select ::
  "('c \<Rightarrow> 't \<Rightarrow> bool) \<Rightarrow> ('c option \<Rightarrow> 't \<Rightarrow> bool) \<Rightarrow> 'c list \<Rightarrow> nat \<Rightarrow> 't list \<Rightarrow> 't list" where
  "merge_select skip pick earlier known [] = []"
| "merge_select skip pick earlier known (t # ts) =
     (let known' = while_get (\<lambda>c. skip c t) earlier known
      in if pick (slice_get earlier known') t
         then t # merge_select skip pick earlier known' ts
         else merge_select skip pick earlier known' ts)"

definition added_since :: "code_regions \<Rightarrow> code_regions \<Rightarrow> region list" where
  "added_since self earlier =
     merge_select (\<lambda>c r. rg_end c \<le> rg_start r)
       (\<lambda>c r. \<not> is_some_and (\<lambda>c. rg_holds c (rg_start r)) c)
       (cr_regions earlier) 0 (cr_regions self)"

definition now_writable_since :: "code_regions \<Rightarrow> code_regions \<Rightarrow> region list" where
  "now_writable_since self earlier =
     merge_select (\<lambda>c r. rg_start c < rg_start r)
       (\<lambda>c r. is_some_and (\<lambda>c. rg_start c = rg_start r \<and> \<not> rg_writable c) c)
       (cr_regions earlier) 0 (filter rg_writable (cr_regions self))"

definition redirected_since :: "dispatch_targets \<Rightarrow> dispatch_targets \<Rightarrow> target list" where
  "redirected_since self start =
     merge_select (\<lambda>c t. tg_slot c < tg_slot t)
       (\<lambda>c t. is_some_and (\<lambda>c. tg_slot c = tg_slot t \<and> tg_value c \<noteq> tg_value t) c)
       (dt_targets start) 0 (dt_targets self)"

lemma while_get_ge: "known \<le> while_get p xs known"
proof (induction p xs known rule: while_get.induct)
  case (1 p xs known)
  then show ?case by (auto simp: while_get.simps [of p xs known])
qed

lemma while_get_skipped:
  "known \<le> i \<Longrightarrow> i < while_get p xs known \<Longrightarrow> i < length xs \<and> p (xs ! i)"
proof (induction p xs known rule: while_get.induct)
  case (1 p xs known)
  then show ?case
    by (cases "i = known")
       (auto simp: while_get.simps [of p xs known] is_some_and_def slice_get_def
          split: if_splits option.splits)
qed

lemma while_get_stop:
  "while_get p xs known < length xs \<Longrightarrow> \<not> p (xs ! while_get p xs known)"
proof (induction p xs known rule: while_get.induct)
  case (1 p xs known)
  show ?case
  proof (cases "is_some_and p (slice_get xs known)")
    case True
    with 1 show ?thesis by (simp add: while_get.simps [of p xs known])
  next
    case False
    with "1.prems" show ?thesis
      by (auto simp: while_get.simps [of p xs known] is_some_and_def slice_get_def split: if_splits)
  qed
qed

text \<open>
  When the walk is exact: a skipped entry stays skipped and never answers, and the first entry
  that is not skipped answers for every entry after it.
\<close>

locale merge_scan =
  fixes skip hit :: "'c \<Rightarrow> 't \<Rightarrow> bool"
    and before :: "'c \<Rightarrow> 'c \<Rightarrow> bool"
    and upto :: "'t \<Rightarrow> 't \<Rightarrow> bool"
  assumes skip_mono: "skip c t \<Longrightarrow> upto t t' \<Longrightarrow> skip c t'"
    and skip_no_hit: "skip c t \<Longrightarrow> \<not> hit c t"
    and first_decides: "before c c' \<Longrightarrow> \<not> skip c t \<Longrightarrow> hit c' t \<Longrightarrow> hit c t"
begin

lemma pointer_decides:
  assumes es: "sorted_wrt before es"
    and sk: "\<forall>i < known. i < length es \<longrightarrow> skip (es ! i) t"
  shows "is_some_and (\<lambda>c. hit c t) (slice_get es (while_get (\<lambda>c. skip c t) es known))
    \<longleftrightarrow> (\<exists>c \<in> set es. hit c t)"
proof -
  let ?k = "while_get (\<lambda>c. skip c t) es known"
  have below: "skip (es ! i) t" if "i < ?k" "i < length es" for i
    using sk that while_get_skipped [of known i "\<lambda>c. skip c t" es] by (cases "i < known") auto
  show ?thesis
  proof (cases "?k < length es")
    case True
    have "hit (es ! ?k) t" if "c \<in> set es" "hit c t" for c
    proof -
      from that obtain j where j: "j < length es" "es ! j = c" by (auto simp: in_set_conv_nth)
      with below that skip_no_hit have "?k \<le> j" by (metis not_le)
      have "before (es ! ?k) c" if "?k \<noteq> j"
        using that j \<open>?k \<le> j\<close> es by (auto simp: sorted_wrt_iff_nth_less)
      with j that while_get_stop [OF True] first_decides [of "es ! ?k" c t] show ?thesis
        by (cases "?k = j") auto
    qed
    with True show ?thesis by (auto simp: is_some_and_def slice_get_def)
  next
    case False
    with below skip_no_hit show ?thesis
      by (auto simp: is_some_and_def slice_get_def in_set_conv_nth)
  qed
qed

lemma merge_select_filter:
  assumes es: "sorted_wrt before es"
  shows "sorted_wrt upto ts \<Longrightarrow> \<forall>t \<in> set ts. \<forall>i < known. i < length es \<longrightarrow> skip (es ! i) t \<Longrightarrow>
    merge_select skip (\<lambda>c t. answer (is_some_and (\<lambda>c. hit c t) c)) es known ts
      = filter (\<lambda>t. answer (\<exists>c \<in> set es. hit c t)) ts"
proof (induction ts arbitrary: known)
  case (Cons t ts)
  let ?k = "while_get (\<lambda>c. skip c t) es known"
  have dec: "is_some_and (\<lambda>c. hit c t) (slice_get es ?k) \<longleftrightarrow> (\<exists>c \<in> set es. hit c t)"
    using Cons.prems by (intro pointer_decides [OF es]) simp
  have "\<forall>u \<in> set ts. \<forall>i < ?k. i < length es \<longrightarrow> skip (es ! i) u"
  proof (intro ballI allI impI)
    fix u i
    assume u: "u \<in> set ts" and i: "i < ?k" "i < length es"
    have "skip (es ! i) t"
      using Cons.prems i while_get_skipped [of known i "\<lambda>c. skip c t" es]
      by (cases "i < known") auto
    with u Cons.prems(1) skip_mono show "skip (es ! i) u" by auto
  qed
  with Cons have "merge_select skip (\<lambda>c t. answer (is_some_and (\<lambda>c. hit c t) c)) es ?k ts
      = filter (\<lambda>t. answer (\<exists>c \<in> set es. hit c t)) ts" by simp
  with dec show ?case by (simp add: Let_def)
qed simp

end

interpretation added_scan: merge_scan
  "\<lambda>c r. rg_end c \<le> rg_start r" "\<lambda>c r. rg_holds c (rg_start r)"
  "\<lambda>c c'. rg_start c \<le> rg_start c'" "\<lambda>r r'. rg_start r \<le> rg_start r'"
  by unfold_locales (auto simp: rg_holds_def)

interpretation writable_scan: merge_scan
  "\<lambda>c r. rg_start c < rg_start r" "\<lambda>c r. rg_start c = rg_start r \<and> \<not> rg_writable c"
  "\<lambda>c c'. rg_start c < rg_start c'" "\<lambda>r r'. rg_start r \<le> rg_start r'"
  by unfold_locales auto

interpretation redirected_scan: merge_scan
  "\<lambda>c t. tg_slot c < tg_slot t" "\<lambda>c t. tg_slot c = tg_slot t \<and> tg_value c \<noteq> tg_value t"
  "\<lambda>c c'. tg_slot c < tg_slot c'" "\<lambda>t t'. tg_slot t \<le> tg_slot t'"
  by unfold_locales auto

text \<open>What the constructors establish: address order, the bound, and an honest mark of a cut.\<close>

lemma sorted_key_first:
  assumes "sorted (map key xs)" and "\<And>x y. key x \<le> key y \<Longrightarrow> first x \<le> first y"
  shows "sorted_wrt (\<lambda>x y. first x \<le> first y) xs"
  using assms(1) unfolding sorted_map by (rule sorted_wrt_mono_rel [rotated]) (rule assms(2))

lemma sorted_wrt_strict:
  fixes key :: "'a \<Rightarrow> 'b::linorder"
  assumes "sorted_wrt (\<lambda>x y. key x \<le> key y) xs" and "distinct (map key xs)"
  shows "sorted_wrt (\<lambda>x y. key x < key y) xs"
  using assms by (auto simp: sorted_wrt_iff_nth_less distinct_conv_nth order.strict_iff_order)

lemma code_regions_new_sorted:
  "sorted_wrt (\<lambda>r s. rg_start r \<le> rg_start s) (cr_regions (code_regions_new rs))"
proof -
  have "sorted_wrt (\<lambda>r s. rg_start r \<le> rg_start s) (sort_key region_key rs)"
    by (rule sorted_key_first [OF sorted_sort_key])
       (auto simp: region_key_def less_eq_prod_def)
  then show ?thesis by (simp add: code_regions_new_def Let_def sorted_wrt_take)
qed

lemma dispatch_targets_new_sorted:
  "sorted_wrt (\<lambda>r s. tg_slot r \<le> tg_slot s) (dt_targets (dispatch_targets_new ts b))"
proof -
  have "sorted_wrt (\<lambda>r s. tg_slot r \<le> tg_slot s) (sort_key target_key ts)"
    by (rule sorted_key_first [OF sorted_sort_key])
       (auto simp: target_key_def less_eq_prod_def)
  then show ?thesis by (simp add: dispatch_targets_new_def Let_def sorted_wrt_take)
qed

lemma code_regions_new_bounded:
  "length (cr_regions (code_regions_new rs)) = min max_regions (length rs)"
  "cr_truncated (code_regions_new rs) \<longleftrightarrow> max_regions < length rs"
  by (auto simp: code_regions_new_def Let_def min_def)

lemma code_regions_new_complete:
  "\<not> cr_truncated (code_regions_new rs) \<Longrightarrow> set (cr_regions (code_regions_new rs)) = set rs"
  by (simp add: code_regions_new_def Let_def)

lemma dispatch_targets_new_complete:
  "\<not> dt_truncated (dispatch_targets_new ts b) \<Longrightarrow> set (dt_targets (dispatch_targets_new ts b)) = set ts"
  by (simp add: dispatch_targets_new_def Let_def)

text \<open>
  The single pass of \<open>added_since\<close> reports exactly the regions whose first address no earlier
  region holds, overlapping and repeated regions included.
\<close>

lemma added_since_exact:
  "added_since (code_regions_new later) (code_regions_new earlier) =
     filter (\<lambda>r. \<not> (\<exists>e \<in> set (cr_regions (code_regions_new earlier)). rg_holds e (rg_start r)))
       (cr_regions (code_regions_new later))"
  unfolding added_since_def
  using added_scan.merge_select_filter [where answer = Not and known = 0,
      OF code_regions_new_sorted [of earlier] code_regions_new_sorted [of later]]
  by simp

text \<open>
  The other two passes stop at the first entry with an equal key, so they are exact for a start
  snapshot that holds each key once.
\<close>

lemma now_writable_since_exact:
  assumes "distinct (map rg_start (cr_regions (code_regions_new rs0)))"
  shows "now_writable_since (code_regions_new rs) (code_regions_new rs0) =
      filter (\<lambda>r. rg_writable r \<and> (\<exists>e \<in> set (cr_regions (code_regions_new rs0)).
          rg_start e = rg_start r \<and> \<not> rg_writable e)) (cr_regions (code_regions_new rs))"
  unfolding now_writable_since_def
  using writable_scan.merge_select_filter [where answer = "\<lambda>x. x" and known = 0,
      OF sorted_wrt_strict [OF code_regions_new_sorted assms]
        sorted_wrt_filter [OF code_regions_new_sorted [of rs], of rg_writable]]
  by simp

lemma redirected_since_exact:
  assumes "distinct (map tg_slot (dt_targets (dispatch_targets_new ts0 b0)))"
  shows "redirected_since (dispatch_targets_new ts b) (dispatch_targets_new ts0 b0) =
      filter (\<lambda>t. \<exists>e \<in> set (dt_targets (dispatch_targets_new ts0 b0)).
          tg_slot e = tg_slot t \<and> tg_value e \<noteq> tg_value t) (dt_targets (dispatch_targets_new ts b))"
  unfolding redirected_since_def
  using redirected_scan.merge_select_filter [where answer = "\<lambda>x. x" and known = 0,
      OF sorted_wrt_strict [OF dispatch_targets_new_sorted assms] dispatch_targets_new_sorted]
  by simp

text \<open>A snapshot that fits keeps every entry of the input, each as often as it came.\<close>

lemma code_regions_fit:
  assumes "length rs \<le> max_regions"
  shows "cr_regions (code_regions_new rs) = sort_key region_key rs"
    and "\<not> cr_truncated (code_regions_new rs)"
  using assms by (simp_all add: code_regions_new_def Let_def)

lemma code_regions_cut: "cr_truncated (code_regions_new rs) \<longleftrightarrow> max_regions < length rs"
  by (simp add: code_regions_new_def Let_def)

lemma dispatch_targets_fit:
  assumes "length ts \<le> max_targets"
  shows "dt_targets (dispatch_targets_new ts b) = sort_key target_key ts"
    and "\<not> dt_truncated (dispatch_targets_new ts b)" and "dt_bound (dispatch_targets_new ts b) = b"
  using assms by (simp_all add: dispatch_targets_new_def Let_def)

lemma distinct_map_sort_key: "distinct (map f (sort_key k xs)) \<longleftrightarrow> distinct (map f xs)"
  by (metis distinct_map distinct_sort set_sort)

section \<open>The environment\<close>

text \<open>
  One value of \<open>environment\<close> is what the probe answers during one scan.  Every method of a
  capability can unwind, so each answer is a value of type \<open>exec\<close>.
\<close>

record environment =
  en_platform :: platform
  en_code_identity :: "code_identity observation exec"
  en_identity_match :: "expected_identity \<Rightarrow> identity_match observation exec"
  en_code_regions :: "code_regions observation exec"
  en_tracer_state :: "tracer_state observation exec"
  en_code_origin :: "code_origin observation exec"
  en_dispatch_targets :: "dispatch_targets observation exec"
  en_image_catalog_state :: "image_catalog_state observation exec"
  en_local_agent_state :: "local_agent_state observation exec"
  en_system_build :: "system_build observation exec"
  en_boot_verification :: "boot_verification observation exec"
  en_machine_host :: "machine_host observation exec"
  en_prepare_worker :: "worker_setup exec"

definition no_probe :: string where
  "no_probe = ''this build ships no probe for this fact''"

text \<open>
  The default methods of the capability traits: the environment of a probe that writes an empty
  implementation for every capability.  The default of \<open>LocalAgent\<close> asks the network, so its
  answer is an argument.
\<close>

definition default_environment :: "platform \<Rightarrow> local_agent_state observation exec \<Rightarrow> environment" where
  "default_environment p agent =
     \<lparr>en_platform = p,
      en_code_identity = Returns (ObsUnsupported no_probe),
      en_identity_match = (\<lambda>expected. Returns (ObsUnsupported no_probe)),
      en_code_regions = Returns (ObsUnsupported no_probe),
      en_tracer_state = Returns (ObsUnsupported no_probe),
      en_code_origin = Returns (ObsUnsupported no_probe),
      en_dispatch_targets = Returns (ObsUnsupported no_probe),
      en_image_catalog_state =
        Returns (ObsUnsupported ''this platform offers no image-catalog reader''),
      en_local_agent_state = agent,
      en_system_build = Returns (ObsUnsupported no_probe),
      en_boot_verification = Returns (ObsUnsupported no_probe),
      en_machine_host = Returns (ObsUnsupported no_probe),
      en_prepare_worker = Returns NothingToDo\<rparr>"


end
