(* ===== verification/Fid_Detect.thy ===== *)
theory Fid_Detect
  imports Fid_Facts
begin

text \<open>
  The built-in detectors of \<open>fidelity-detect\<close>: one definition for each detector, the panic
  guard, the inventory and the two scans.  A detector reads one capability of the environment
  and may unwind with it; \<open>guarded\<close> turns that into a health finding.  The locale
  \<open>detector_contract\<close> states what every detector owes the engine and is interpreted for each
  of the eleven detectors that a scan runs.
\<close>

named_theorems detector_defs \<open>the detectors and their identities\<close>

section \<open>Identities\<close>

definition PLATFORM_TRUST :: detector where
  "PLATFORM_TRUST = detector_new 1 ''integrity.platform_trust'' Integrity"

definition EXPECTED_IDENTITY :: detector where
  "EXPECTED_IDENTITY = detector_new 2 ''integrity.expected_identity'' Integrity"

definition TRACER_PRESENT :: detector where
  "TRACER_PRESENT = detector_new 3 ''debugging.tracer_present'' Debugging"

definition UNACCOUNTED_CODE :: detector where
  "UNACCOUNTED_CODE = detector_new 4 ''instrumentation.unaccounted_code'' Instrumentation"

definition RUNTIME_BASELINE :: detector where
  "RUNTIME_BASELINE = detector_new 5 ''integrity.runtime_baseline'' Integrity"

definition SYSTEM_BUILD :: detector where
  "SYSTEM_BUILD = detector_new 6 ''device_compromise.system_build'' DeviceCompromise"

definition MACHINE_HOST :: detector where
  "MACHINE_HOST = detector_new 7 ''virtualization.machine_host'' Virtualization"

definition HOST_REPORT :: detector where
  "HOST_REPORT = detector_new 8 ''ui_abuse.host_report'' UiAbuse"

definition DISPATCH_TARGETS :: detector where
  "DISPATCH_TARGETS = detector_new 9 ''instrumentation.dispatch_targets'' Instrumentation"

definition VERIFIED_BOOT :: detector where
  "VERIFIED_BOOT = detector_new 10 ''device_compromise.verified_boot'' DeviceCompromise"

definition LOCAL_AGENT :: detector where
  "LOCAL_AGENT = detector_new 11 ''instrumentation.local_agent'' Instrumentation"

definition IMAGE_CATALOG :: detector where
  "IMAGE_CATALOG = detector_new 12 ''instrumentation.image_catalog'' Instrumentation"

definition INVENTORY :: "detector list" where
  "INVENTORY = [PLATFORM_TRUST, EXPECTED_IDENTITY, TRACER_PRESENT, UNACCOUNTED_CODE,
     DISPATCH_TARGETS, IMAGE_CATALOG, LOCAL_AGENT, RUNTIME_BASELINE, SYSTEM_BUILD,
     VERIFIED_BOOT, MACHINE_HOST, HOST_REPORT]"

lemmas detector_ids = PLATFORM_TRUST_def EXPECTED_IDENTITY_def TRACER_PRESENT_def
  UNACCOUNTED_CODE_def RUNTIME_BASELINE_def SYSTEM_BUILD_def MACHINE_HOST_def HOST_REPORT_def
  DISPATCH_TARGETS_def VERIFIED_BOOT_def LOCAL_AGENT_def IMAGE_CATALOG_def

section \<open>Captured snapshots\<close>

datatype 'a captured = Snapshot 'a | CapturedUnsupported | CapturedFailed bounded_text

section \<open>The detectors\<close>

definition health :: "detector \<Rightarrow> bounded_text \<Rightarrow> u64 \<Rightarrow> outcome" where
  "health d detail now = Finding (finding_new d Low (DetectorHealth detail) now)"

definition platform_trust_detector :: "environment \<Rightarrow> u64 \<Rightarrow> outcome exec" where
  "platform_trust_detector env now = exec_bind (en_code_identity env) (\<lambda>ob. Returns (case ob of
       ObsUnsupported reason \<Rightarrow> Unsupported reason
     | ObsFailed detail \<Rightarrow> health PLATFORM_TRUST detail now
     | Fact identity \<Rightarrow> (case ci_trust identity of
           Accepted \<Rightarrow> Clean
         | Unavailable reason \<Rightarrow> Unsupported reason
         | Rejected detail \<Rightarrow> Finding (finding_new PLATFORM_TRUST Medium (ImageUntrusted detail) now))))"

definition no_host_value :: string where
  "no_host_value = ''the host supplied no expected identity''"

definition expected_identity_detector ::
  "environment \<Rightarrow> expected_identity option \<Rightarrow> u64 \<Rightarrow> outcome exec" where
  "expected_identity_detector env expected now = (case expected of
       None \<Rightarrow> Returns (Unsupported no_host_value)
     | Some ex \<Rightarrow> exec_bind (en_identity_match env ex) (\<lambda>ob. Returns (case ob of
           ObsUnsupported reason \<Rightarrow> Unsupported reason
         | ObsFailed detail \<Rightarrow> health EXPECTED_IDENTITY detail now
         | Fact Same \<Rightarrow> Clean
         | Fact (Different detail) \<Rightarrow>
             Finding (finding_new EXPECTED_IDENTITY High (UnexpectedIdentity detail) now))))"

definition tracer_present :: "environment \<Rightarrow> u64 \<Rightarrow> outcome exec" where
  "tracer_present env now = exec_bind (en_tracer_state env) (\<lambda>ob. Returns (case ob of
       ObsUnsupported reason \<Rightarrow> Unsupported reason
     | ObsFailed detail \<Rightarrow> health TRACER_PRESENT detail now
     | Fact TracerAbsent \<Rightarrow> Clean
     | Fact (TracerHeld detail) \<Rightarrow>
         Finding (finding_new TRACER_PRESENT Medium (TracerPresent detail) now)))"

definition unaccounted_code :: "environment \<Rightarrow> u64 \<Rightarrow> outcome exec" where
  "unaccounted_code env now = exec_bind (en_code_origin env) (\<lambda>ob. Returns (case ob of
       ObsUnsupported reason \<Rightarrow> Unsupported reason
     | ObsFailed detail \<Rightarrow> health UNACCOUNTED_CODE detail now
     | Fact Accounted \<Rightarrow> Clean
     | Fact (Unaccounted regions detail) \<Rightarrow>
         Finding (finding_new UNACCOUNTED_CODE Medium (UnaccountedCode detail) now)))"

definition not_bound :: string where
  "not_bound =
     ''the image of the host does not bind its dispatch table fully, so a change there is ordinary''"

definition no_snapshot :: string where
  "no_snapshot = ''this build captured no dispatch snapshot at start''"

definition targets_truncated :: string where
  "targets_truncated = ''the image of the host holds more dispatch targets than a snapshot keeps''"

definition redirected_detail :: "target list \<Rightarrow> string" where
  "redirected_detail redirected =
     (let first = (case redirected of [] \<Rightarrow> 0 | t # _ \<Rightarrow> tg_slot t)
      in ''dispatch targets that moved after start: '' @ dec (length redirected)
           @ '', first at '' @ hex_text (unat first))"

definition dispatch_targets_detector ::
  "environment \<Rightarrow> dispatch_targets captured \<Rightarrow> u64 \<Rightarrow> outcome exec" where
  "dispatch_targets_detector env captured now = (case captured of
       CapturedUnsupported \<Rightarrow> Returns (Unsupported no_snapshot)
     | CapturedFailed detail \<Rightarrow> Returns (health DISPATCH_TARGETS detail now)
     | Snapshot start \<Rightarrow>
         if \<not> dt_bound start then Returns (Unsupported not_bound)
         else if dt_truncated start then Returns (Unsupported targets_truncated)
         else exec_bind (en_dispatch_targets env) (\<lambda>ob. Returns (case ob of
             ObsUnsupported reason \<Rightarrow> Unsupported reason
           | ObsFailed detail \<Rightarrow> health DISPATCH_TARGETS detail now
           | Fact current \<Rightarrow>
               if dt_truncated current then Unsupported targets_truncated
               else let redirected = redirected_since current start in
                 if redirected = [] then Clean
                 else Finding (finding_new DISPATCH_TARGETS Medium
                        (DispatchRedirected (bounded_text_new (redirected_detail redirected))) now))))"

definition image_catalog :: "environment \<Rightarrow> u64 \<Rightarrow> outcome exec" where
  "image_catalog env now = exec_bind (en_image_catalog_state env) (\<lambda>ob. Returns (case ob of
       ObsUnsupported reason \<Rightarrow> Unsupported reason
     | ObsFailed detail \<Rightarrow> health IMAGE_CATALOG detail now
     | Fact CatalogAccounted \<Rightarrow> Clean
     | Fact (Unregistered regions detail) \<Rightarrow>
         Finding (finding_new IMAGE_CATALOG Medium (UnregisteredImage detail) now)))"

definition local_agent :: "environment \<Rightarrow> u64 \<Rightarrow> outcome exec" where
  "local_agent env now = exec_bind (en_local_agent_state env) (\<lambda>ob. Returns (case ob of
       ObsUnsupported reason \<Rightarrow> Unsupported reason
     | ObsFailed detail \<Rightarrow> health LOCAL_AGENT detail now
     | Fact AgentAbsent \<Rightarrow> Clean
     | Fact (AgentPresent detail) \<Rightarrow>
         Finding (finding_new LOCAL_AGENT Medium (LocalInstrumentationAgent detail) now)))"

definition regions_truncated :: string where
  "regions_truncated = ''the process maps more executable regions than a snapshot keeps''"

definition no_baseline :: string where
  "no_baseline = ''this build captured no baseline at start''"

text \<open>
  The byte total is a \<open>u64\<close> sum: it wraps in a release build and panics in one with overflow checks.
  Regions that do not overlap, which is what a kernel reports, have a sum that fits
  (\<open>region_bytes_exact\<close> below), so the two builds agree on them.
\<close>

definition region_bytes :: "region list \<Rightarrow> u64" where
  "region_bytes rs = sum_list (map rg_bytes rs)"

definition added_detail :: "region list \<Rightarrow> string" where
  "added_detail added = ''executable memory that start did not map: '' @ dec (unat (region_bytes added))
     @ '' bytes, region count '' @ dec (length added)"

definition opened_detail :: "region list \<Rightarrow> string" where
  "opened_detail opened =
     ''executable memory that start did not map writable: '' @ dec (unat (region_bytes opened))
     @ '' bytes, region count '' @ dec (length opened)"

definition runtime_baseline ::
  "environment \<Rightarrow> code_regions captured \<Rightarrow> u64 \<Rightarrow> outcome exec" where
  "runtime_baseline env captured now = (case captured of
       CapturedUnsupported \<Rightarrow> Returns (Unsupported no_baseline)
     | CapturedFailed detail \<Rightarrow> Returns (health RUNTIME_BASELINE detail now)
     | Snapshot baseline \<Rightarrow>
         if cr_truncated baseline then Returns (Unsupported regions_truncated)
         else exec_bind (en_code_regions env) (\<lambda>ob. Returns (case ob of
             ObsUnsupported reason \<Rightarrow> Unsupported reason
           | ObsFailed detail \<Rightarrow> health RUNTIME_BASELINE detail now
           | Fact current \<Rightarrow>
               if cr_truncated current then Unsupported regions_truncated
               else let added = added_since current baseline in
                 if added \<noteq> []
                 then Finding (finding_new RUNTIME_BASELINE Medium
                        (CodeAddedAfterStart (bounded_text_new (added_detail added))) now)
                 else let opened = now_writable_since current baseline in
                   if opened = [] then Clean
                   else Finding (finding_new RUNTIME_BASELINE Medium
                          (CodeMadeWritable (bounded_text_new (opened_detail opened))) now))))"

definition system_build_detector :: "environment \<Rightarrow> u64 \<Rightarrow> outcome exec" where
  "system_build_detector env now = exec_bind (en_system_build env) (\<lambda>ob. Returns (case ob of
       ObsUnsupported reason \<Rightarrow> Unsupported reason
     | ObsFailed detail \<Rightarrow> health SYSTEM_BUILD detail now
     | Fact Released \<Rightarrow> Clean
     | Fact (Development detail) \<Rightarrow>
         Finding (finding_new SYSTEM_BUILD Medium (DevelopmentBuild detail) now)))"

definition verified_boot :: "environment \<Rightarrow> u64 \<Rightarrow> outcome exec" where
  "verified_boot env now = exec_bind (en_boot_verification env) (\<lambda>ob. Returns (case ob of
       ObsUnsupported reason \<Rightarrow> Unsupported reason
     | ObsFailed detail \<Rightarrow> health VERIFIED_BOOT detail now
     | Fact Verified \<Rightarrow> Clean
     | Fact (Unverified detail) \<Rightarrow>
         Finding (finding_new VERIFIED_BOOT Medium (UnverifiedBoot detail) now)))"

definition machine_host_detector :: "environment \<Rightarrow> u64 \<Rightarrow> outcome exec" where
  "machine_host_detector env now = exec_bind (en_machine_host env) (\<lambda>ob. Returns (case ob of
       ObsUnsupported reason \<Rightarrow> Unsupported reason
     | ObsFailed detail \<Rightarrow> health MACHINE_HOST detail now
     | Fact Hardware \<Rightarrow> Clean
     | Fact (VirtualMachine detail) \<Rightarrow>
         Finding (finding_new MACHINE_HOST Medium (VirtualMachineHost detail) now)
     | Fact (Simulated detail) \<Rightarrow>
         Finding (finding_new MACHINE_HOST Medium (SimulatedEnvironment detail) now)))"

definition host_report :: "ui_observation \<Rightarrow> u64 \<Rightarrow> outcome" where
  "host_report observation now =
     (let strength = (case observation of Overlay \<Rightarrow> Medium | _ \<Rightarrow> Low)
      in Finding (finding_new HOST_REPORT strength
           (InterfaceObserved (bounded_text_new (ui_detail observation))) now))"

declare platform_trust_detector_def [detector_defs] expected_identity_detector_def [detector_defs]
  tracer_present_def [detector_defs] unaccounted_code_def [detector_defs]
  dispatch_targets_detector_def [detector_defs] image_catalog_def [detector_defs]
  local_agent_def [detector_defs] runtime_baseline_def [detector_defs]
  system_build_detector_def [detector_defs] verified_boot_def [detector_defs]
  machine_host_detector_def [detector_defs]

section \<open>Scans\<close>

record detectors =
  dt_expected :: "expected_identity option"
  dt_baseline :: "code_regions captured"
  dt_dispatch :: "dispatch_targets captured"

definition detectors_new ::
  "expected_identity option \<Rightarrow> code_regions captured \<Rightarrow> dispatch_targets captured \<Rightarrow> detectors" where
  "detectors_new expected baseline dispatch =
     \<lparr>dt_expected = expected, dt_baseline = baseline, dt_dispatch = dispatch\<rparr>"

definition panicked :: string where
  "panicked = ''the detector panicked, so this scan reports its health''"

definition guarded :: "detector \<Rightarrow> u64 \<Rightarrow> outcome exec \<Rightarrow> detector \<times> outcome" where
  "guarded d now scan =
     (d, catch_unwind scan (Finding (finding_new d Low (DetectorHealth (bounded_text_new panicked)) now)))"

definition scan_cheap :: "detectors \<Rightarrow> environment \<Rightarrow> u64 \<Rightarrow> (detector \<times> outcome) list" where
  "scan_cheap ds env now =
     [guarded PLATFORM_TRUST now (platform_trust_detector env now),
      guarded EXPECTED_IDENTITY now (expected_identity_detector env (dt_expected ds) now),
      guarded TRACER_PRESENT now (tracer_present env now),
      guarded UNACCOUNTED_CODE now (unaccounted_code env now),
      guarded DISPATCH_TARGETS now (dispatch_targets_detector env (dt_dispatch ds) now),
      guarded IMAGE_CATALOG now (image_catalog env now),
      guarded RUNTIME_BASELINE now (runtime_baseline env (dt_baseline ds) now),
      guarded SYSTEM_BUILD now (system_build_detector env now),
      guarded VERIFIED_BOOT now (verified_boot env now),
      guarded MACHINE_HOST now (machine_host_detector env now)]"

definition scan_all :: "detectors \<Rightarrow> environment \<Rightarrow> u64 \<Rightarrow> (detector \<times> outcome) list" where
  "scan_all ds env now =
     scan_cheap ds env now @ [guarded LOCAL_AGENT now (local_agent env now)]"

section \<open>What a probe answered\<close>

text \<open>
  The state of the one probe that a detector reads in a scan: it was not asked, it answered with
  a fact, the platform has no such interface, or the call failed or unwound.
\<close>

datatype probe_status = NotAsked | Answered | Missing string | Broken bounded_text

fun status_of :: "'a observation exec \<Rightarrow> probe_status" where
  "status_of Panic = Broken (bounded_text_new panicked)"
| "status_of (Returns (Fact x)) = Answered"
| "status_of (Returns (ObsUnsupported r)) = Missing r"
| "status_of (Returns (ObsFailed d)) = Broken d"

definition expected_status :: "detectors \<Rightarrow> environment \<Rightarrow> probe_status" where
  "expected_status ds env = (case dt_expected ds of None \<Rightarrow> Missing no_host_value
     | Some ex \<Rightarrow> status_of (en_identity_match env ex))"

definition dispatch_status :: "detectors \<Rightarrow> environment \<Rightarrow> probe_status" where
  "dispatch_status ds env = (case dt_dispatch ds of
       CapturedUnsupported \<Rightarrow> Missing no_snapshot
     | CapturedFailed d \<Rightarrow> Broken d
     | Snapshot start \<Rightarrow> if dt_bound start \<and> \<not> dt_truncated start
         then status_of (en_dispatch_targets env) else NotAsked)"

definition baseline_status :: "detectors \<Rightarrow> environment \<Rightarrow> probe_status" where
  "baseline_status ds env = (case dt_baseline ds of
       CapturedUnsupported \<Rightarrow> Missing no_baseline
     | CapturedFailed d \<Rightarrow> Broken d
     | Snapshot baseline \<Rightarrow> if \<not> cr_truncated baseline
         then status_of (en_code_regions env) else NotAsked)"

definition probe_status :: "detectors \<Rightarrow> environment \<Rightarrow> detector \<Rightarrow> probe_status" where
  "probe_status ds env d =
     (if d = PLATFORM_TRUST then status_of (en_code_identity env)
      else if d = EXPECTED_IDENTITY then expected_status ds env
      else if d = TRACER_PRESENT then status_of (en_tracer_state env)
      else if d = UNACCOUNTED_CODE then status_of (en_code_origin env)
      else if d = DISPATCH_TARGETS then dispatch_status ds env
      else if d = IMAGE_CATALOG then status_of (en_image_catalog_state env)
      else if d = LOCAL_AGENT then status_of (en_local_agent_state env)
      else if d = RUNTIME_BASELINE then baseline_status ds env
      else if d = SYSTEM_BUILD then status_of (en_system_build env)
      else if d = VERIFIED_BOOT then status_of (en_boot_verification env)
      else if d = MACHINE_HOST then status_of (en_machine_host env)
      else NotAsked)"

definition sound_finding :: "detector \<Rightarrow> u64 \<Rightarrow> strength \<Rightarrow> finding \<Rightarrow> bool" where
  "sound_finding d now strongest f \<longleftrightarrow> f_detector f = d \<and> f_category f = det_category d
     \<and> f_observed_at_unix_ms f = now \<and> f_strength f \<le> strongest
     \<and> (is_detector_health (f_evidence f) \<longleftrightarrow> f_strength f = Low)"

lemma Low_le [simp]: "Low \<le> s"
  by (cases s) (simp_all add: strength_order)

lemma sound_health: "sound_finding d now strongest (finding_new d Low (DetectorHealth t) now)"
  by (simp add: sound_finding_def)

lemma strength_simps [simp]: "Medium \<le> Medium" "Medium \<le> High" "\<not> Medium \<le> Low"
  by (simp_all add: strength_order)

text \<open>
  What a scan owes for one entry: a broken probe is a health finding with the probe's detail, a
  missing one is a stated gap, a clean answer needs a fact, and a finding names its detector,
  the detector's category and the time of the scan.
\<close>

definition strength_limit :: "detector \<Rightarrow> strength" where
  "strength_limit d = (if d = EXPECTED_IDENTITY then High else Medium)"

definition entry_ok :: "detectors \<Rightarrow> environment \<Rightarrow> u64 \<Rightarrow> detector \<times> outcome \<Rightarrow> bool" where
  "entry_ok ds env now e \<longleftrightarrow>
     (\<forall>detail. probe_status ds env (fst e) = Broken detail \<longrightarrow> snd e = health (fst e) detail now)
   \<and> (\<forall>r. probe_status ds env (fst e) = Missing r \<longrightarrow> snd e = Unsupported r)
   \<and> (snd e = Clean \<longrightarrow> probe_status ds env (fst e) = Answered)
   \<and> snd e \<noteq> NotRun
   \<and> (\<forall>f. snd e = Finding f \<longrightarrow> sound_finding (fst e) now (strength_limit (fst e)) f)"

section \<open>The contract of a detector\<close>

locale detector_contract =
  fixes det :: detector
    and strongest :: strength
    and status :: "detectors \<Rightarrow> environment \<Rightarrow> probe_status"
    and run :: "detectors \<Rightarrow> environment \<Rightarrow> u64 \<Rightarrow> outcome exec"
  assumes broken: "status ds env = Broken detail \<Longrightarrow>
      run ds env now = Returns (health det detail now) \<or> run ds env now = Panic \<and> detail = bounded_text_new panicked"
    and missing: "status ds env = Missing r \<Longrightarrow> run ds env now = Returns (Unsupported r)"
    and clean: "run ds env now = Returns Clean \<Longrightarrow> status ds env = Answered"
    and ran: "run ds env now \<noteq> Returns NotRun"
    and panic: "run ds env now = Panic \<Longrightarrow> status ds env = Broken (bounded_text_new panicked)"
    and finding: "run ds env now = Returns (Finding f) \<Longrightarrow> sound_finding det now strongest f"
begin

lemma fst_guarded [simp]: "fst (guarded det now (run ds env now)) = det"
  by (simp add: guarded_def)

lemma guarded_broken:
  "status ds env = Broken detail \<Longrightarrow> snd (guarded det now (run ds env now)) = health det detail now"
  using broken [of ds env detail now] by (auto simp: guarded_def health_def)

lemma guarded_missing:
  "status ds env = Missing r \<Longrightarrow> snd (guarded det now (run ds env now)) = Unsupported r"
  using missing [of ds env r now] by (simp add: guarded_def)

lemma guarded_clean:
  "snd (guarded det now (run ds env now)) = Clean \<Longrightarrow> status ds env = Answered"
  using clean [of ds env now] by (cases "run ds env now") (auto simp: guarded_def)

lemma guarded_ran: "snd (guarded det now (run ds env now)) \<noteq> NotRun"
  using ran [of ds env now] by (cases "run ds env now") (auto simp: guarded_def)

lemma guarded_finding:
  "snd (guarded det now (run ds env now)) = Finding f \<Longrightarrow> sound_finding det now strongest f"
  using finding [of ds env now f]
  by (cases "run ds env now") (auto simp: guarded_def sound_health)

lemma guarded_entry:
  assumes "probe_status ds env det = status ds env" and "strength_limit det = strongest"
  shows "entry_ok ds env now (guarded det now (run ds env now))"
  unfolding entry_ok_def fst_guarded assms
  by (intro conjI allI impI guarded_broken guarded_missing guarded_clean guarded_ran guarded_finding)

end

text \<open>Every detector keeps the contract; only the expected identity reaches \<open>High\<close>.\<close>

lemma exec_bind_case: "exec_bind m f = (case m of Panic \<Rightarrow> Panic | Returns x \<Rightarrow> f x)"
  by (cases m) auto

lemmas contract_simps = detector_defs health_def sound_finding_def exec_bind_case
lemmas contract_splits = exec.splits observation.splits captured.splits option.splits if_splits
  platform_trust.splits identity_match.splits tracer_state.splits code_origin.splits
  image_catalog_state.splits local_agent_state.splits system_build.splits
  boot_verification.splits machine_host.splits

lemma status_of_Broken:
  "status_of m = Broken d \<longleftrightarrow> m = Returns (ObsFailed d) \<or> m = Panic \<and> d = bounded_text_new panicked"
  by (cases m rule: status_of.cases) auto

lemma status_of_Missing: "status_of m = Missing r \<longleftrightarrow> m = Returns (ObsUnsupported r)"
  by (cases m rule: status_of.cases) auto

lemma status_of_Answered: "status_of m = Answered \<longleftrightarrow> (\<exists>x. m = Returns (Fact x))"
  by (cases m rule: status_of.cases) auto

lemmas status_simps = status_of_Broken status_of_Missing status_of_Answered

interpretation trust: detector_contract PLATFORM_TRUST Medium
  "\<lambda>ds env. status_of (en_code_identity env)" "\<lambda>ds env now. platform_trust_detector env now"
  by unfold_locales (auto simp: contract_simps status_simps
      split: contract_splits simp del: exec_bind_Returns)

interpretation expected: detector_contract EXPECTED_IDENTITY High
  expected_status "\<lambda>ds env now. expected_identity_detector env (dt_expected ds) now"
  by unfold_locales (auto simp: contract_simps status_simps expected_status_def
      split: contract_splits simp del: exec_bind_Returns)

interpretation tracer: detector_contract TRACER_PRESENT Medium
  "\<lambda>ds env. status_of (en_tracer_state env)" "\<lambda>ds env now. tracer_present env now"
  by unfold_locales (auto simp: contract_simps status_simps
      split: contract_splits simp del: exec_bind_Returns)

interpretation code: detector_contract UNACCOUNTED_CODE Medium
  "\<lambda>ds env. status_of (en_code_origin env)" "\<lambda>ds env now. unaccounted_code env now"
  by unfold_locales (auto simp: contract_simps status_simps
      split: contract_splits simp del: exec_bind_Returns)

interpretation dispatch: detector_contract DISPATCH_TARGETS Medium
  dispatch_status "\<lambda>ds env now. dispatch_targets_detector env (dt_dispatch ds) now"
  by unfold_locales (auto simp: contract_simps status_simps dispatch_status_def Let_def
      split: contract_splits simp del: exec_bind_Returns)

interpretation catalog: detector_contract IMAGE_CATALOG Medium
  "\<lambda>ds env. status_of (en_image_catalog_state env)" "\<lambda>ds env now. image_catalog env now"
  by unfold_locales (auto simp: contract_simps status_simps
      split: contract_splits simp del: exec_bind_Returns)

interpretation agent: detector_contract LOCAL_AGENT Medium
  "\<lambda>ds env. status_of (en_local_agent_state env)" "\<lambda>ds env now. local_agent env now"
  by unfold_locales (auto simp: contract_simps status_simps
      split: contract_splits simp del: exec_bind_Returns)

interpretation baseline: detector_contract RUNTIME_BASELINE Medium
  baseline_status "\<lambda>ds env now. runtime_baseline env (dt_baseline ds) now"
  by unfold_locales (auto simp: contract_simps status_simps baseline_status_def Let_def
      split: contract_splits simp del: exec_bind_Returns)

interpretation build: detector_contract SYSTEM_BUILD Medium
  "\<lambda>ds env. status_of (en_system_build env)" "\<lambda>ds env now. system_build_detector env now"
  by unfold_locales (auto simp: contract_simps status_simps
      split: contract_splits simp del: exec_bind_Returns)

interpretation boot: detector_contract VERIFIED_BOOT Medium
  "\<lambda>ds env. status_of (en_boot_verification env)" "\<lambda>ds env now. verified_boot env now"
  by unfold_locales (auto simp: contract_simps status_simps
      split: contract_splits simp del: exec_bind_Returns)

interpretation machine: detector_contract MACHINE_HOST Medium
  "\<lambda>ds env. status_of (en_machine_host env)" "\<lambda>ds env now. machine_host_detector env now"
  by unfold_locales (auto simp: contract_simps status_simps
      split: contract_splits simp del: exec_bind_Returns)

section \<open>Properties of a scan\<close>

lemma probe_status_simps:
  "probe_status ds env PLATFORM_TRUST = status_of (en_code_identity env)"
  "probe_status ds env EXPECTED_IDENTITY = expected_status ds env"
  "probe_status ds env TRACER_PRESENT = status_of (en_tracer_state env)"
  "probe_status ds env UNACCOUNTED_CODE = status_of (en_code_origin env)"
  "probe_status ds env DISPATCH_TARGETS = dispatch_status ds env"
  "probe_status ds env IMAGE_CATALOG = status_of (en_image_catalog_state env)"
  "probe_status ds env LOCAL_AGENT = status_of (en_local_agent_state env)"
  "probe_status ds env RUNTIME_BASELINE = baseline_status ds env"
  "probe_status ds env SYSTEM_BUILD = status_of (en_system_build env)"
  "probe_status ds env VERIFIED_BOOT = status_of (en_boot_verification env)"
  "probe_status ds env MACHINE_HOST = status_of (en_machine_host env)"
  by (simp_all add: probe_status_def detector_ids detector_new_def)

lemma strength_limit_simps:
  "strength_limit PLATFORM_TRUST = Medium" "strength_limit EXPECTED_IDENTITY = High"
  "strength_limit TRACER_PRESENT = Medium" "strength_limit UNACCOUNTED_CODE = Medium"
  "strength_limit DISPATCH_TARGETS = Medium" "strength_limit IMAGE_CATALOG = Medium"
  "strength_limit LOCAL_AGENT = Medium" "strength_limit RUNTIME_BASELINE = Medium"
  "strength_limit SYSTEM_BUILD = Medium" "strength_limit VERIFIED_BOOT = Medium"
  "strength_limit MACHINE_HOST = Medium"
  by (simp_all add: strength_limit_def detector_ids detector_new_def)

lemma scan_all_entries: "list_all (entry_ok ds env now) (scan_all ds env now)"
  unfolding scan_all_def scan_cheap_def list_all_append list.pred_inject
  by (intro conjI list.pred_inject(1) trust.guarded_entry expected.guarded_entry tracer.guarded_entry
      code.guarded_entry dispatch.guarded_entry catalog.guarded_entry agent.guarded_entry
      baseline.guarded_entry build.guarded_entry boot.guarded_entry machine.guarded_entry
      probe_status_simps strength_limit_simps)

lemma scan_all_entry: "(d, oc) \<in> set (scan_all ds env now) \<Longrightarrow> entry_ok ds env now (d, oc)"
  using scan_all_entries by (metis list_all_iff)

lemma scan_cheap_subset: "set (scan_cheap ds env now) \<subseteq> set (scan_all ds env now)"
  by (auto simp: scan_all_def)

lemma map_fst_scan_cheap:
  "map fst (scan_cheap ds env now) =
     [PLATFORM_TRUST, EXPECTED_IDENTITY, TRACER_PRESENT, UNACCOUNTED_CODE, DISPATCH_TARGETS,
      IMAGE_CATALOG, RUNTIME_BASELINE, SYSTEM_BUILD, VERIFIED_BOOT, MACHINE_HOST]"
  by (simp add: scan_cheap_def guarded_def)

lemma map_fst_scan_all:
  "map fst (scan_all ds env now) = map fst (scan_cheap ds env now) @ [LOCAL_AGENT]"
  by (simp add: scan_all_def guarded_def)

lemma inventory_distinct: "distinct (map det_id INVENTORY)"
  by (simp add: INVENTORY_def detector_ids detector_new_def)

text \<open>
  C5.  No scan converts a probe error into a clean result.  Whatever the probe does, and whether
  it fails or unwinds, each entry of a full scan is a health finding with the probe's own detail
  when the probe broke, a stated gap when the platform has no interface, and clean only when the
  probe answered with a fact; no entry is ever left not run.
\<close>

theorem scan_never_hides_failure:
  assumes "(d, oc) \<in> set (scan_all ds env now)"
  shows "(\<forall>detail. probe_status ds env d = Broken detail \<longrightarrow> oc = health d detail now)
    \<and> (\<forall>reason. probe_status ds env d = Missing reason \<longrightarrow> oc = Unsupported reason)
    \<and> (oc = Clean \<longrightarrow> probe_status ds env d = Answered)
    \<and> oc \<noteq> NotRun"
  using scan_all_entry [OF assms] unfolding entry_ok_def fst_conv snd_conv by blast

text \<open>A detector answers clean exactly for the clean fact of its capability.\<close>

lemma health_not_Clean [simp]: "health d t now \<noteq> Clean"
  by (simp add: health_def)

lemma detector_clean:
  "tracer_present env now = Returns Clean \<longleftrightarrow> en_tracer_state env = Returns (Fact TracerAbsent)"
  "unaccounted_code env now = Returns Clean \<longleftrightarrow> en_code_origin env = Returns (Fact Accounted)"
  "image_catalog env now = Returns Clean \<longleftrightarrow> en_image_catalog_state env = Returns (Fact CatalogAccounted)"
  "machine_host_detector env now = Returns Clean \<longleftrightarrow> en_machine_host env = Returns (Fact Hardware)"
  "system_build_detector env now = Returns Clean \<longleftrightarrow> en_system_build env = Returns (Fact Released)"
  "verified_boot env now = Returns Clean \<longleftrightarrow> en_boot_verification env = Returns (Fact Verified)"
  "expected_identity_detector env (Some ex) now = Returns Clean \<longleftrightarrow> en_identity_match env ex = Returns (Fact Same)"
  "platform_trust_detector env now = Returns Clean \<longleftrightarrow>
     (\<exists>i. en_code_identity env = Returns (Fact i) \<and> ci_trust i = Accepted)"
  unfolding tracer_present_def unaccounted_code_def image_catalog_def machine_host_detector_def
    system_build_detector_def verified_boot_def expected_identity_detector_def platform_trust_detector_def
  by (auto simp: exec_bind_Returns split: observation.split_asm tracer_state.split_asm
      code_origin.split_asm image_catalog_state.split_asm machine_host.split_asm system_build.split_asm
      boot_verification.split_asm identity_match.split_asm platform_trust.split_asm)

definition sample_env :: environment where
  "sample_env = (default_environment Linux (Returns (Fact AgentAbsent)))
     \<lparr>en_tracer_state := Panic, en_identity_match := \<lambda>_. Returns (Fact (Different (bounded_text_new ''other signer'')))\<rparr>"

definition sample_detectors :: detectors where
  "sample_detectors = detectors_new (Some expected_identity_new) CapturedUnsupported CapturedUnsupported"

theorem scan_never_hides_failure_witness:
  "(TRACER_PRESENT, health TRACER_PRESENT (bounded_text_new panicked) 7)
      \<in> set (scan_all sample_detectors sample_env 7)
   \<and> probe_status sample_detectors sample_env TRACER_PRESENT = Broken (bounded_text_new panicked)
   \<and> health TRACER_PRESENT (bounded_text_new panicked) 7 \<noteq> NotRun"
proof -
  have s: "probe_status sample_detectors sample_env TRACER_PRESENT = Broken (bounded_text_new panicked)"
    by (simp add: probe_status_simps sample_env_def)
  have m: "(TRACER_PRESENT, health TRACER_PRESENT (bounded_text_new panicked) 7)
      \<in> set (scan_all sample_detectors sample_env 7)"
    by (simp add: scan_all_def scan_cheap_def guarded_def tracer_present_def sample_env_def health_def)
  from scan_never_hides_failure [OF m] m s show ?thesis by blast
qed

text \<open>The one entry of a scan that belongs to the expected identity.\<close>

lemma scan_expected_entry:
  "(EXPECTED_IDENTITY, oc) \<in> set (scan_all ds env now) \<longleftrightarrow>
     oc = snd (guarded EXPECTED_IDENTITY now (expected_identity_detector env (dt_expected ds) now))"
  by (auto simp: scan_all_def scan_cheap_def guarded_def detector_ids detector_new_def)

lemma expected_identity_High:
  "snd (guarded EXPECTED_IDENTITY now (expected_identity_detector env expected now)) = Finding f \<Longrightarrow>
     f_strength f = High \<longleftrightarrow> (\<exists>ex detail. expected = Some ex
       \<and> en_identity_match env ex = Returns (Fact (Different detail)) \<and> f_evidence f = UnexpectedIdentity detail)"
  by (auto simp: guarded_def expected_identity_detector_def health_def exec_bind_case
      split: option.splits exec.splits observation.splits identity_match.splits)

text \<open>
  C15.  Every finding of a full scan names the detector it came from, carries that detector's
  category and the time of the scan, is \<open>Low\<close> exactly when it reports detector health, and is
  \<open>High\<close> exactly when it is the one of the expected identity, the host pinned an identity, and the
  platform answered that the running image is a different one; its evidence is then that answer.
\<close>

theorem scan_findings_attributed:
  assumes "(d, Finding f) \<in> set (scan_all ds env now)"
  shows "f_detector f = d \<and> f_category f = det_category d \<and> f_observed_at_unix_ms f = now
    \<and> (is_detector_health (f_evidence f) \<longleftrightarrow> f_strength f = Low)
    \<and> (f_strength f = High \<longleftrightarrow> d = EXPECTED_IDENTITY
         \<and> (\<exists>expected detail. dt_expected ds = Some expected
              \<and> en_identity_match env expected = Returns (Fact (Different detail))
              \<and> f_evidence f = UnexpectedIdentity detail))"
proof -
  have e: "f_detector f = d \<and> f_category f = det_category d \<and> f_observed_at_unix_ms f = now
    \<and> (is_detector_health (f_evidence f) \<longleftrightarrow> f_strength f = Low) \<and> (f_strength f = High \<longrightarrow> d = EXPECTED_IDENTITY)"
    using scan_all_entry [OF assms] unfolding entry_ok_def sound_finding_def strength_limit_def
    by (auto split: if_splits)
  moreover have "f_strength f = High \<longleftrightarrow> (\<exists>expected detail. dt_expected ds = Some expected
      \<and> en_identity_match env expected = Returns (Fact (Different detail)) \<and> f_evidence f = UnexpectedIdentity detail)"
    if "d = EXPECTED_IDENTITY"
    using assms that expected_identity_High [of now env "dt_expected ds" f] by (simp add: scan_expected_entry)
  ultimately show ?thesis by blast
qed

theorem scan_findings_attributed_witness:
  "\<exists>f. (EXPECTED_IDENTITY, Finding f) \<in> set (scan_all sample_detectors sample_env 7)
     \<and> f_strength f = High \<and> f_category f = Integrity \<and> f_observed_at_unix_ms f = 7
     \<and> (\<exists>detail. en_identity_match sample_env expected_identity_new = Returns (Fact (Different detail))
          \<and> f_evidence f = UnexpectedIdentity detail)"
proof -
  let ?f = "finding_new EXPECTED_IDENTITY High (UnexpectedIdentity (bounded_text_new ''other signer'')) 7"
  have m: "(EXPECTED_IDENTITY, Finding ?f) \<in> set (scan_all sample_detectors sample_env 7)"
    by (simp add: scan_all_def scan_cheap_def guarded_def expected_identity_detector_def
        sample_env_def sample_detectors_def detectors_new_def)
  have "f_category ?f = det_category EXPECTED_IDENTITY \<and> f_observed_at_unix_ms ?f = 7
      \<and> (\<exists>detail. en_identity_match sample_env expected_identity_new = Returns (Fact (Different detail))
          \<and> f_evidence ?f = UnexpectedIdentity detail)"
    using scan_findings_attributed [OF m] by (simp add: sample_detectors_def detectors_new_def)
  moreover have "det_category EXPECTED_IDENTITY = Integrity"
    by (simp add: EXPECTED_IDENTITY_def detector_new_def)
  ultimately show ?thesis using m by (intro exI [of _ ?f]) simp
qed

text \<open>
  The two scans cover a fixed part of the inventory, each detector once, whatever the
  environment does: the full scan covers every detector but the host report, which the host
  drives itself, and the initial scan leaves out the loopback probe as well.
\<close>

lemma scan_covers_inventory:
  "distinct (map det_id INVENTORY)
   \<and> distinct (map fst (scan_all ds env now))
   \<and> set (map fst (scan_all ds env now)) = set INVENTORY - {HOST_REPORT}
   \<and> set (map fst (scan_cheap ds env now)) = set INVENTORY - {HOST_REPORT, LOCAL_AGENT}"
proof -
  have "distinct (map fst (scan_all ds env now))"
    by (simp add: map_fst_scan_all map_fst_scan_cheap detector_ids detector_new_def)
  moreover have "set (map fst (scan_all ds env now)) = set INVENTORY - {HOST_REPORT}"
    unfolding map_fst_scan_all map_fst_scan_cheap INVENTORY_def
    by (auto simp: detector_ids detector_new_def)
  moreover have "set (map fst (scan_cheap ds env now)) = set INVENTORY - {HOST_REPORT, LOCAL_AGENT}"
    unfolding map_fst_scan_cheap INVENTORY_def by (auto simp: detector_ids detector_new_def)
  ultimately show ?thesis using inventory_distinct by simp
qed

text \<open>The bytes of regions in address order that do not overlap are counted without wrap-around.\<close>

fun apart :: "region list \<Rightarrow> bool" where
  "apart (r # s # rest) \<longleftrightarrow> rg_start r \<le> rg_end r \<and> rg_end r \<le> rg_start s \<and> apart (s # rest)"
| "apart [r] \<longleftrightarrow> rg_start r \<le> rg_end r"
| "apart [] \<longleftrightarrow> True"

lemma region_bytes_exact:
  assumes "apart rs"
  shows "sum_list (map (unat \<circ> rg_bytes) rs) < 2 ^ 64
    \<and> unat (region_bytes rs) = sum_list (map (unat \<circ> rg_bytes) rs)"
proof -
  have "rs \<noteq> [] \<longrightarrow> unat (rg_start (hd rs)) + sum_list (map (unat \<circ> rg_bytes) rs) \<le> unat (rg_end (last rs))"
    using assms
    by (induction rs rule: apart.induct) (auto simp: rg_bytes_def unat_saturating_sub word_le_nat_alt)
  moreover have "unat (rg_end (last rs)) < 2 ^ 64" using unsigned_less [of "rg_end (last rs)"] by simp
  ultimately have fits: "sum_list (map (unat \<circ> rg_bytes) rs) < 2 ^ 64" by (cases rs) auto
  have "unat (sum_list ws) = sum_list (map unat ws)" if "sum_list (map unat ws) < 2 ^ 64" for ws :: "u64 list"
    using that by (induction ws) (auto simp: unat_word_ariths)
  from this [of "map rg_bytes rs"] fits show ?thesis by (simp add: region_bytes_def)
qed

text \<open>
  C11.  The runtime baseline is exact.  With each first address once at start, and whatever the
  order in which the platform lists the regions: when either reading was cut at the limit the
  detector states a gap; otherwise it answers clean exactly when every executable region of the
  later reading begins inside a region of the start and none of them is a writable form of one
  that the start held as not writable, and reports a \<open>Medium\<close> finding when not.
\<close>

theorem runtime_baseline_exact:
  assumes "en_code_regions env = Returns (Fact (code_regions_new rs))" and "distinct (map rg_start rs0)"
  shows "\<exists>oc. runtime_baseline env (Snapshot (code_regions_new rs0)) now = Returns oc
    \<and> (if max_regions < length rs0 \<or> max_regions < length rs then oc = Unsupported regions_truncated
       else (oc = Clean \<longleftrightarrow>
           (\<forall>r \<in> set rs. (\<exists>e \<in> set rs0. rg_holds e (rg_start r))
             \<and> \<not> (rg_writable r \<and> (\<exists>e \<in> set rs0. rg_start e = rg_start r \<and> \<not> rg_writable e))))
         \<and> (oc \<noteq> Clean \<longrightarrow> (\<exists>f. oc = Finding f \<and> f_strength f = Medium \<and> f_detector f = RUNTIME_BASELINE)))"
proof (cases "max_regions < length rs0 \<or> max_regions < length rs")
  case True
  then show ?thesis
    using assms(1) by (auto simp: runtime_baseline_def code_regions_cut)
next
  case False
  then have fit: "length rs \<le> max_regions" "length rs0 \<le> max_regions" by simp_all
  have d: "distinct (map rg_start (cr_regions (code_regions_new rs0)))"
    using assms fit by (simp add: code_regions_fit distinct_map_sort_key)
  have added: "added_since (code_regions_new rs) (code_regions_new rs0) = [] \<longleftrightarrow>
      (\<forall>r \<in> set rs. \<exists>e \<in> set rs0. rg_holds e (rg_start r))"
    using fit by (simp add: added_since_exact code_regions_fit filter_empty_conv)
  have opened: "now_writable_since (code_regions_new rs) (code_regions_new rs0) = [] \<longleftrightarrow>
      (\<forall>r \<in> set rs. \<not> (rg_writable r \<and> (\<exists>e \<in> set rs0. rg_start e = rg_start r \<and> \<not> rg_writable e)))"
    using fit d by (simp add: now_writable_since_exact code_regions_fit filter_empty_conv)
  show ?thesis
    using assms(1) fit added opened by (auto simp: runtime_baseline_def code_regions_fit Let_def)
qed

theorem runtime_baseline_exact_witness:
  "en_code_regions (sample_env\<lparr>en_code_regions := Returns (Fact (code_regions_new [region_new 0x1000 0x2000 True]))\<rparr>)
     = Returns (Fact (code_regions_new [region_new 0x1000 0x2000 True]))
   \<and> distinct (map rg_start [region_new 0x1000 0x3000 False])
   \<and> (\<exists>f. runtime_baseline
        (sample_env\<lparr>en_code_regions := Returns (Fact (code_regions_new [region_new 0x1000 0x2000 True]))\<rparr>)
        (Snapshot (code_regions_new [region_new 0x1000 0x3000 False])) 9 = Returns (Finding f)
      \<and> f_strength f = Medium)"
proof -
  let ?env = "sample_env\<lparr>en_code_regions := Returns (Fact (code_regions_new [region_new 0x1000 0x2000 True]))\<rparr>"
  have "\<not> (\<forall>r \<in> set [region_new 0x1000 0x2000 True].
      (\<exists>e \<in> set [region_new 0x1000 0x3000 False]. rg_holds e (rg_start r))
      \<and> \<not> (rg_writable r \<and> (\<exists>e \<in> set [region_new 0x1000 0x3000 False].
              rg_start e = rg_start r \<and> \<not> rg_writable e)))"
    by (simp add: region_new_def)
  then show ?thesis
    using runtime_baseline_exact [of ?env "[region_new 0x1000 0x2000 True]" "[region_new 0x1000 0x3000 False]" 9]
    by (auto simp: max_regions_def)
qed

text \<open>
  C12.  The dispatch comparison is exact.  For a fully bound start table and a later reading that
  both fit the limit, with each slot once at start, the detector answers clean exactly when no
  slot that the start held points elsewhere now; otherwise it reports a \<open>Medium\<close> finding.  A
  table that the loader did not bind fully, or one that was cut, is a stated gap and never a
  clean answer.
\<close>

theorem dispatch_targets_exact:
  assumes "en_dispatch_targets env = Returns (Fact (dispatch_targets_new ts b))"
    and "length ts \<le> max_targets" and "distinct (map tg_slot ts0)"
  shows "\<exists>oc. dispatch_targets_detector env (Snapshot (dispatch_targets_new ts0 b0)) now = Returns oc
    \<and> (oc = Clean \<longleftrightarrow> b0 \<and> length ts0 \<le> max_targets \<and>
        (\<forall>t \<in> set ts. \<forall>e \<in> set ts0. tg_slot e = tg_slot t \<longrightarrow> tg_value e = tg_value t))
    \<and> (b0 \<and> length ts0 \<le> max_targets \<and> oc \<noteq> Clean \<longrightarrow>
        (\<exists>f. oc = Finding f \<and> f_strength f = Medium \<and> f_detector f = DISPATCH_TARGETS))"
proof (cases "length ts0 \<le> max_targets")
  case True
  have d: "distinct (map tg_slot (dt_targets (dispatch_targets_new ts0 b0)))"
    using assms True by (simp add: dispatch_targets_fit distinct_map_sort_key)
  have "redirected_since (dispatch_targets_new ts b) (dispatch_targets_new ts0 b0) = [] \<longleftrightarrow>
      (\<forall>t \<in> set ts. \<forall>e \<in> set ts0. tg_slot e = tg_slot t \<longrightarrow> tg_value e = tg_value t)"
    using assms True d by (auto simp: redirected_since_exact dispatch_targets_fit filter_empty_conv)
  then show ?thesis
    using assms True by (auto simp: dispatch_targets_detector_def dispatch_targets_fit Let_def)
next
  case False
  then show ?thesis
    by (simp add: dispatch_targets_detector_def dispatch_targets_new_def Let_def)
qed

theorem dispatch_targets_exact_witness:
  "distinct (map tg_slot [target_new 0x10 0x40])
   \<and> dispatch_targets_detector
       (sample_env\<lparr>en_dispatch_targets := Returns (Fact (dispatch_targets_new [target_new 0x10 0x40] True))\<rparr>)
       (Snapshot (dispatch_targets_new [target_new 0x10 0x40] True)) 9 = Returns Clean"
proof -
  let ?env = "sample_env\<lparr>en_dispatch_targets := Returns (Fact (dispatch_targets_new [target_new 0x10 0x40] True))\<rparr>"
  show ?thesis
    using dispatch_targets_exact [of ?env "[target_new 0x10 0x40]" True "[target_new 0x10 0x40]" True 9]
    by (auto simp: max_targets_def)
qed

end
