(* ===== verification/Fid_Worker.thy ===== *)
theory Fid_Worker
  imports Fid_Policy Fid_State Fid_Detect
begin

text \<open>
  The worker of \<open>fidelity-engine/src/worker.rs\<close>: recording with its latches, the dispatch of
  qualified actions, one scan cycle, the run from the initial actions on, and the jittered wait.
  The process-wide words belong to the facade, so the engine reaches them through \<open>hooks\<close> on an
  abstract process state; the locale \<open>latch_hooks\<close> states what the engine needs of them.  The
  host callback is code outside the repository: it is an argument that may change its own state
  and everything it shares with the runtime, and it may unwind.  The system clock is an argument
  too, read in order.
\<close>

section \<open>Shared state and hooks\<close>

record 'p hooks =
  hk_latch :: "category \<Rightarrow> 'p \<Rightarrow> 'p"
  hk_full_scan_complete :: "'p \<Rightarrow> 'p"

definition hooks_detached :: "'p hooks" where
  "hooks_detached = \<lparr>hk_latch = (\<lambda>_ p. p), hk_full_scan_complete = (\<lambda>p. p)\<rparr>"

record 'p shared =
  sh_state :: state
  sh_process :: 'p
  sh_pending :: reports
  sh_reads :: nat

text \<open>
  The clock gives the milliseconds since the epoch, or nothing for a time before it.
\<close>

type_synonym clock = "nat \<Rightarrow> nat option"

definition now_unix_ms :: "nat option \<Rightarrow> u64" where
  "now_unix_ms since = (case since of None \<Rightarrow> 0 | Some ms \<Rightarrow> if ms < 2 ^ 64 then of_nat ms else - 1)"

definition read_clock :: "clock \<Rightarrow> 'p shared \<Rightarrow> u64 \<times> 'p shared" where
  "read_clock clk sh = (now_unix_ms (clk (sh_reads sh)), sh\<lparr>sh_reads := sh_reads sh + 1\<rparr>)"

section \<open>Recording\<close>

text \<open>The loop of \<open>record\<close>, which holds the state lock from the first outcome to the last.\<close>

fun record_loop ::
  "policy \<Rightarrow> 'p hooks \<Rightarrow> (detector \<times> outcome) list \<Rightarrow> state \<Rightarrow> 'p \<Rightarrow> report list \<times> state \<times> 'p" where
  "record_loop pol hooks [] st pr = ([], st, pr)"
| "record_loop pol hooks ((d, oc) # rest) st pr =
     (case state_record st d oc of
        (None, st') \<Rightarrow> record_loop pol hooks rest st' pr
      | (Some f, st') \<Rightarrow>
          (case qualifying_action pol f of
             None \<Rightarrow> record_loop pol hooks rest st' pr
           | Some a \<Rightarrow>
               (let pr' = (if a = Deny then hk_latch hooks (f_category f) pr else pr);
                    st'' = (if a = Deny then state_latch (f_category f) st' else st')
                in case record_loop pol hooks rest st'' pr' of
                     (qualified, st3, pr3) \<Rightarrow> ((f, a) # qualified, st3, pr3))))"

definition engine_record ::
  "policy \<Rightarrow> 'p hooks \<Rightarrow> (detector \<times> outcome) list \<Rightarrow> 'p shared \<Rightarrow> report list \<times> 'p shared" where
  "engine_record pol hooks outcomes sh =
     (case record_loop pol hooks outcomes (sh_state sh) (sh_process sh) of
        (qualified, st, pr) \<Rightarrow> (qualified, sh\<lparr>sh_state := st, sh_process := pr\<rparr>))"

section \<open>The worker\<close>

text \<open>A callback returns whether it unwound, its own state, and the shared state it left.\<close>

type_synonym ('h, 'p) callback = "finding \<Rightarrow> 'h \<times> 'p shared \<Rightarrow> bool \<times> 'h \<times> 'p shared"

record ('h, 'p) worker =
  wk_policy :: policy
  wk_detectors :: detectors
  wk_callback :: "('h, 'p) callback option"
  wk_hooks :: "'p hooks"
  wk_jitter :: u64
  wk_cycle :: nat

text \<open>A \<open>Duration\<close> in nanoseconds; its seconds are a \<open>u64\<close>, and an addition beyond that unwinds.\<close>

definition CYCLE :: nat where
  "CYCLE = 5 * 1000000000"

definition jitter_percent :: u64 where
  "jitter_percent = 40"

definition duration_bound :: nat where
  "duration_bound = 2 ^ 64 * 1000000000"

definition worker_new ::
  "policy \<Rightarrow> detectors \<Rightarrow> ('h, 'p) callback option \<Rightarrow> 'p hooks \<Rightarrow> nat option \<Rightarrow> ('h, 'p) worker" where
  "worker_new pol ds cb hooks since =
     \<lparr>wk_policy = pol, wk_detectors = ds, wk_callback = cb, wk_hooks = hooks,
      wk_jitter = now_unix_ms since OR 1, wk_cycle = CYCLE\<rparr>"

definition with_cycle :: "nat \<Rightarrow> ('h, 'p) worker \<Rightarrow> ('h, 'p) worker" where
  "with_cycle c wk = wk\<lparr>wk_cycle := c\<rparr>"

definition prepare :: "environment \<Rightarrow> worker_setup" where
  "prepare env = catch_unwind (en_prepare_worker env)
     (SetupFailed (bounded_text_new ''the platform worker setup panicked''))"

definition callback_panicked :: string where
  "callback_panicked = ''the host callback panicked''"

definition invoke ::
  "clock \<Rightarrow> ('h, 'p) worker \<Rightarrow> finding \<Rightarrow> 'h \<times> 'p shared \<Rightarrow> 'h \<times> 'p shared" where
  "invoke clk wk f x = (case wk_callback wk of
       None \<Rightarrow> x
     | Some callback \<Rightarrow>
         (case callback f x of (unwound, h, sh) \<Rightarrow>
            if unwound then
              (case read_clock clk sh of (now, sh') \<Rightarrow>
                 let outcome = Finding (finding_new (f_detector f) Low
                       (DetectorHealth (bounded_text_new callback_panicked)) now)
                 in (h, sh'\<lparr>sh_state := snd (state_record (sh_state sh') (f_detector f) outcome)\<rparr>))
            else (h, sh)))"

datatype 'x flow = Continues 'x | Aborted 'x

fun dispatch ::
  "clock \<Rightarrow> ('h, 'p) worker \<Rightarrow> report list \<Rightarrow> 'h \<times> 'p shared \<Rightarrow> ('h \<times> 'p shared) flow" where
  "dispatch clk wk [] x = Continues x"
| "dispatch clk wk ((f, a) # rest) x = (case a of
       Report \<Rightarrow> dispatch clk wk rest x
     | Deny \<Rightarrow> dispatch clk wk rest x
     | Callback \<Rightarrow> dispatch clk wk rest (invoke clk wk f x)
     | Crash \<Rightarrow> Aborted x)"

definition apply_outcomes ::
  "clock \<Rightarrow> ('h, 'p) worker \<Rightarrow> (detector \<times> outcome) list \<Rightarrow> 'h \<times> 'p shared \<Rightarrow> ('h \<times> 'p shared) flow" where
  "apply_outcomes clk wk outcomes x =
     (case engine_record (wk_policy wk) (wk_hooks wk) outcomes (snd x) of
        (qualified, sh) \<Rightarrow> dispatch clk wk qualified (fst x, sh))"

definition run_once ::
  "clock \<Rightarrow> ('h, 'p) worker \<Rightarrow> environment \<Rightarrow> 'h \<times> 'p shared \<Rightarrow> ('h \<times> 'p shared) flow" where
  "run_once clk wk env x =
     (case pending_take (sh_pending (snd x)) of (waiting, rest) \<Rightarrow>
        (case dispatch clk wk waiting (fst x, (snd x)\<lparr>sh_pending := rest\<rparr>) of
           Aborted y \<Rightarrow> Aborted y
         | Continues (h, sh) \<Rightarrow>
             (case read_clock clk sh of (now, sh') \<Rightarrow>
                (case apply_outcomes clk wk (scan_all (wk_detectors wk) env now) (h, sh') of
                   Aborted y \<Rightarrow> Aborted y
                 | Continues (h', sh'') \<Rightarrow>
                     Continues (h', sh''\<lparr>sh_process := hk_full_scan_complete (wk_hooks wk) (sh_process sh'')\<rparr>)))))"

definition xorshift :: "u64 \<Rightarrow> u64" where
  "xorshift x =
     (let a = x XOR push_bit 13 x; b = a XOR drop_bit 7 a in b XOR push_bit 17 b)"

definition next_wait :: "('h, 'p) worker \<Rightarrow> nat exec \<times> ('h, 'p) worker" where
  "next_wait wk =
     (let jitter = xorshift (wk_jitter wk);
          ms = wk_cycle wk div 1000000;
          millis = (if ms < 2 ^ 64 then of_nat ms else - 1 :: u64);
          span = millis div 100 * jitter_percent;
          extra = (if span = 0 then 0 else jitter mod span);
          total = wk_cycle wk + unat extra * 1000000
      in (if total < duration_bound then Returns total else Panic, wk\<lparr>wk_jitter := jitter\<rparr>))"

text \<open>
  The run of the worker thread, observed for as many cycles as the list of environments has:
  it returns when the start caller is gone, it ends with the process, or it keeps cycling.
\<close>

datatype ('h, 'p) run_state =
  RunReturned 'h "'p shared"
| RunAborted 'h "'p shared"
| RunPanicked 'h "'p shared"
| Cycling "('h, 'p) worker" 'h "'p shared"

fun run_cycles ::
  "clock \<Rightarrow> ('h, 'p) worker \<Rightarrow> environment list \<Rightarrow> 'h \<times> 'p shared \<Rightarrow> ('h, 'p) run_state" where
  "run_cycles clk wk [] x = Cycling wk (fst x) (snd x)"
| "run_cycles clk wk (env # envs) x = (case run_once clk wk env x of
       Aborted y \<Rightarrow> RunAborted (fst y) (snd y)
     | Continues y \<Rightarrow>
         (case next_wait wk of
            (Panic, wk') \<Rightarrow> RunPanicked (fst y) (snd y)
          | (Returns wait, wk') \<Rightarrow> run_cycles clk wk' envs y))"

definition worker_run ::
  "clock \<Rightarrow> ('h, 'p) worker \<Rightarrow> environment \<Rightarrow> report list \<Rightarrow> bool \<Rightarrow> environment list
     \<Rightarrow> 'h \<times> 'p shared \<Rightarrow> worker_setup \<times> ('h, 'p) run_state" where
  "worker_run clk wk env0 initial ready_ok envs x =
     (prepare env0,
      case dispatch clk wk initial x of
        Aborted y \<Rightarrow> RunAborted (fst y) (snd y)
      | Continues y \<Rightarrow>
          if ready_ok then run_cycles clk wk envs y else RunReturned (fst y) (snd y))"

section \<open>What recording does\<close>

text \<open>The qualified reports of a scan, read off the outcomes alone.\<close>

definition qualified_of ::
  "policy \<Rightarrow> detector list \<Rightarrow> (detector \<times> outcome) list \<Rightarrow> report list" where
  "qualified_of pol known outcomes = List.map_filter (\<lambda>(d, oc).
     if \<exists>k \<in> set known. det_eq k d
     then Option.bind (outcome_finding oc) (\<lambda>f. map_option (Pair f) (qualifying_action pol f))
     else None) outcomes"

definition denied :: "report list \<Rightarrow> category list" where
  "denied q = map (\<lambda>(f, a). f_category f) (filter (\<lambda>(f, a). a = Deny) q)"

definition known_detectors :: "state \<Rightarrow> detector list" where
  "known_detectors st = map sl_detector (st_slots st)"

lemma known_detectors_record [simp]:
  "known_detectors (snd (state_record st d oc)) = known_detectors st"
  by (simp add: known_detectors_def)

lemma state_latch_simps [simp]:
  "known_detectors (state_latch c st) = known_detectors st"
  "st_slots (state_latch c st) = st_slots st"
  "st_latched (state_latch c st) = fst (cs_insert c (st_latched st))"
  "st_host_latched (state_latch c st) = st_host_latched st"
  by (simp_all add: state_latch_def known_detectors_def)

lemma state_record_finding:
  "fst (state_record st d oc) =
     (if \<exists>k \<in> set (known_detectors st). det_eq k d then outcome_finding oc else None)"
  by (simp add: slots_record_finding known_detectors_def)

definition record_slots :: "(detector \<times> outcome) list \<Rightarrow> slot list \<Rightarrow> slot list" where
  "record_slots outcomes sls = foldl (\<lambda>sls (d, oc). snd (slots_record sls d oc)) sls outcomes"

lemma record_slots_simps [simp]:
  "record_slots [] sls = sls"
  "record_slots ((d, oc) # rest) sls = record_slots rest (snd (slots_record sls d oc))"
  by (simp_all add: record_slots_def)

lemma qualified_of_Cons:
  "qualified_of pol (known_detectors st) ((d, oc) # rest) =
     (case Option.bind (fst (state_record st d oc)) (\<lambda>f. map_option (Pair f) (qualifying_action pol f)) of
        None \<Rightarrow> qualified_of pol (known_detectors st) rest
      | Some r \<Rightarrow> r # qualified_of pol (known_detectors st) rest)"
  unfolding qualified_of_def state_record_finding List.map_filter_simps by simp

lemma denied_Cons: "denied ((f, a) # q) = (if a = Deny then f_category f # denied q else denied q)"
  by (simp add: denied_def)

lemma record_loop_exact:
  assumes "record_loop pol hooks outcomes st pr = (q, st', pr')"
  shows "q = qualified_of pol (known_detectors st) outcomes
    \<and> pr' = fold (hk_latch hooks) (denied q) pr
    \<and> st_latched st' = fold (\<lambda>c s. fst (cs_insert c s)) (denied q) (st_latched st)
    \<and> st_host_latched st' = st_host_latched st
    \<and> known_detectors st' = known_detectors st
    \<and> st_slots st' = record_slots outcomes (st_slots st)"
  using assms
proof (induction outcomes arbitrary: st pr q st' pr')
  case Nil
  then show ?case by (simp add: qualified_of_def denied_def List.map_filter_simps)
next
  case (Cons entry rest)
  obtain d oc where e: "entry = (d, oc)" by fastforce
  define st1 where "st1 = snd (state_record st d oc)"
  show ?case
  proof (cases "Option.bind (fst (state_record st d oc)) (\<lambda>f. map_option (Pair f) (qualifying_action pol f))")
    case None
    then have "record_loop pol hooks (entry # rest) st pr = record_loop pol hooks rest st1 pr"
      by (cases "state_record st d oc") (auto simp: e st1_def split: option.splits)
    with Cons.prems have "record_loop pol hooks rest st1 pr = (q, st', pr')" by simp
    from Cons.IH [OF this] None show ?thesis
      by (simp add: e st1_def qualified_of_Cons del: state_record_simps(1))
  next
    case (Some r)
    then obtain f a where r: "r = (f, a)" and f: "fst (state_record st d oc) = Some f"
      and a: "qualifying_action pol f = Some a"
      by (auto simp: bind_eq_Some_conv)
    let ?pr = "if a = Deny then hk_latch hooks (f_category f) pr else pr"
    let ?st = "if a = Deny then state_latch (f_category f) st1 else st1"
    have "state_record st d oc = (Some f, st1)" using f by (metis prod.collapse st1_def)
    with a Cons.prems obtain q2 where q: "q = (f, a) # q2"
      and rec: "record_loop pol hooks rest ?st ?pr = (q2, st', pr')"
      by (auto simp: e Let_def split: prod.splits)
    from Cons.IH [OF rec] q f a show ?thesis
      by (cases "a = Deny") (simp_all add: e st1_def qualified_of_Cons denied_Cons del: state_record_simps(1))
  qed
qed

text \<open>
  C6.  Recording a scan.  The returned reports are exactly the findings of known detectors that
  reach their threshold, in scan order, each with its action; the engine latches and the process
  latch hook is called for exactly the categories of the reports that deny, in the same order;
  every outcome of a known detector reaches its slot and nothing else of the shared state
  changes.
\<close>

theorem engine_record_exact:
  "let (q, sh') = engine_record pol hooks outcomes sh in
     q = qualified_of pol (known_detectors (sh_state sh)) outcomes
   \<and> sh_process sh' = fold (hk_latch hooks) (denied q) (sh_process sh)
   \<and> (\<forall>c. cs_contains (st_latched (sh_state sh')) c \<longleftrightarrow>
         cs_contains (st_latched (sh_state sh)) c \<or> c \<in> set (denied q))
   \<and> st_host_latched (sh_state sh') = st_host_latched (sh_state sh)
   \<and> st_slots (sh_state sh') = record_slots outcomes (st_slots (sh_state sh))
   \<and> sh_pending sh' = sh_pending sh \<and> sh_reads sh' = sh_reads sh"
proof -
  obtain q st' pr' where r: "record_loop pol hooks outcomes (sh_state sh) (sh_process sh) = (q, st', pr')"
    by (metis prod_cases3)
  from record_loop_exact [OF r] r show ?thesis
    by (simp add: engine_record_def cs.member_fold disj_commute)
qed

section \<open>What the engine needs of the process words\<close>

locale latch_hooks =
  fixes hooks :: "'p hooks"
    and word :: "'p \<Rightarrow> category_set"
  assumes word_latch: "word (hk_latch hooks c p) = fst (cs_insert c (word p))"
    and word_full_scan: "word (hk_full_scan_complete hooks p) = word p"
begin

definition agree :: "'p shared \<Rightarrow> bool" where
  "agree sh \<longleftrightarrow> word (sh_process sh) = st_latched (sh_state sh)"

lemma word_fold: "word (fold (hk_latch hooks) cs p) = fold (\<lambda>c s. fst (cs_insert c s)) cs (word p)"
  by (induction cs arbitrary: p) (simp_all add: word_latch)

lemma engine_record_agree:
  assumes "agree sh"
  shows "agree (snd (engine_record pol hooks outcomes sh))"
proof -
  obtain q st' pr' where r: "record_loop pol hooks outcomes (sh_state sh) (sh_process sh) = (q, st', pr')"
    by (metis prod_cases3)
  from record_loop_exact [OF r] r assms show ?thesis
    by (simp add: engine_record_def agree_def word_fold)
qed

end

section \<open>Invariants of the worker thread\<close>

text \<open>
  An assertion on everything the worker shares with the host survives the whole run when the
  callback keeps it and each of the worker's own steps keeps it.
\<close>

locale worker_invariant =
  fixes pol :: policy
    and hooks :: "'p hooks"
    and callback :: "('h, 'p) callback option"
    and inv :: "'h \<times> 'p shared \<Rightarrow> bool"
  assumes inv_callback: "callback = Some cb \<Longrightarrow> inv x \<Longrightarrow> inv (snd (cb f x))"
    and inv_record: "inv (h, sh) \<Longrightarrow> inv (h, snd (engine_record pol hooks outcomes sh))"
    and inv_slot: "inv (h, sh) \<Longrightarrow> inv (h, sh\<lparr>sh_state := snd (state_record (sh_state sh) d oc)\<rparr>)"
    and inv_clock: "inv (h, sh) \<Longrightarrow> inv (h, sh\<lparr>sh_reads := n\<rparr>)"
    and inv_take: "inv (h, sh) \<Longrightarrow> inv (h, sh\<lparr>sh_pending := snd (pending_take (sh_pending sh))\<rparr>)"
    and inv_full_scan: "inv (h, sh) \<Longrightarrow>
      inv (h, sh\<lparr>sh_process := hk_full_scan_complete hooks (sh_process sh)\<rparr>)"
begin

definition ours :: "('h, 'p) worker \<Rightarrow> bool" where
  "ours wk \<longleftrightarrow> wk_policy wk = pol \<and> wk_hooks wk = hooks \<and> wk_callback wk = callback"

lemma oursD:
  assumes "ours wk"
  shows "wk_policy wk = pol" "wk_hooks wk = hooks" "wk_callback wk = callback"
  using assms by (simp_all add: ours_def)

lemma invoke_inv: "ours wk \<Longrightarrow> inv x \<Longrightarrow> inv (invoke clk wk f x)"
proof (cases callback)
  case None
  assume "ours wk" "inv x"
  with None oursD(3) [OF \<open>ours wk\<close>] show ?thesis by (simp add: invoke_def)
next
  case (Some cb)
  assume o: "ours wk" and "inv x"
  obtain u h sh where c: "cb f x = (u, h, sh)" by (metis prod_cases3)
  from inv_callback [OF Some \<open>inv x\<close>, of f] c have "inv (h, sh)" by simp
  with oursD(3) [OF o] Some c show ?thesis
    using inv_slot [OF inv_clock [OF \<open>inv (h, sh)\<close>], of _ "f_detector f"]
    by (auto simp: invoke_def read_clock_def Let_def)
qed

definition flow_inv :: "('h \<times> 'p shared) flow \<Rightarrow> bool" where
  "flow_inv fl = (case fl of Continues x \<Rightarrow> inv x | Aborted x \<Rightarrow> inv x)"

lemma dispatch_inv: "ours wk \<Longrightarrow> inv x \<Longrightarrow> flow_inv (dispatch clk wk q x)"
proof (induction q arbitrary: x)
  case Nil
  then show ?case by (simp add: flow_inv_def)
next
  case (Cons r q)
  then show ?case
    by (cases r; cases "snd r") (auto simp: flow_inv_def invoke_inv)
qed

lemma run_once_inv: "ours wk \<Longrightarrow> inv x \<Longrightarrow> flow_inv (run_once clk wk env x)"
proof -
  assume o: "ours wk" and "inv x"
  obtain h sh where x: "x = (h, sh)" by fastforce
  obtain waiting rest where t: "pending_take (sh_pending sh) = (waiting, rest)" by fastforce
  from inv_take [of h sh] \<open>inv x\<close> x t have "inv (h, sh\<lparr>sh_pending := rest\<rparr>)" by simp
  from dispatch_inv [OF o this] have d: "flow_inv (dispatch clk wk waiting (h, sh\<lparr>sh_pending := rest\<rparr>))" .
  have apply_inv: "flow_inv (apply_outcomes clk wk outcomes (h', sh'))" if "inv (h', sh')" for outcomes h' sh'
    using inv_record [OF that, of outcomes] oursD [OF o] dispatch_inv [OF o]
    by (auto simp: apply_outcomes_def split: prod.splits)
  show ?thesis
  proof (cases "dispatch clk wk waiting (h, sh\<lparr>sh_pending := rest\<rparr>)")
    case (Aborted y)
    with d x t show ?thesis by (simp add: run_once_def flow_inv_def)
  next
    case (Continues y)
    obtain h1 sh1 where y: "y = (h1, sh1)" by fastforce
    with d Continues have "inv (h1, sh1)" by (simp add: flow_inv_def)
    let ?a = "apply_outcomes clk wk (scan_all (wk_detectors wk) env (now_unix_ms (clk (sh_reads sh1))))
      (h1, sh1\<lparr>sh_reads := sh_reads sh1 + 1\<rparr>)"
    have a: "flow_inv ?a" by (rule apply_inv [OF inv_clock [OF \<open>inv (h1, sh1)\<close>]])
    show ?thesis
    proof (cases ?a)
      case (Aborted z)
      with a Continues x t y show ?thesis by (simp add: run_once_def flow_inv_def read_clock_def)
    next
      case (Continues z)
      obtain h2 sh2 where z: "z = (h2, sh2)" by fastforce
      with a Continues have "inv (h2, sh2)" by (simp add: flow_inv_def)
      from inv_full_scan [OF this] Continues z x t y oursD(2) [OF o]
        \<open>dispatch clk wk waiting (h, sh\<lparr>sh_pending := rest\<rparr>) = Continues y\<close>
      show ?thesis by (simp add: run_once_def flow_inv_def read_clock_def)
    qed
  qed
qed

fun run_inv :: "('h, 'p) run_state \<Rightarrow> bool" where
  "run_inv (RunReturned h sh) = inv (h, sh)"
| "run_inv (RunAborted h sh) = inv (h, sh)"
| "run_inv (RunPanicked h sh) = inv (h, sh)"
| "run_inv (Cycling wk h sh) = (ours wk \<and> inv (h, sh))"

lemma next_wait_ours: "ours wk \<Longrightarrow> ours (snd (next_wait wk))"
  by (simp add: ours_def next_wait_def Let_def)

lemma run_cycles_inv: "ours wk \<Longrightarrow> inv x \<Longrightarrow> run_inv (run_cycles clk wk envs x)"
proof (induction envs arbitrary: wk x)
  case Nil
  then show ?case by simp
next
  case (Cons env envs)
  have f: "flow_inv (run_once clk wk env x)" by (rule run_once_inv [OF Cons.prems])
  show ?case
  proof (cases "run_once clk wk env x")
    case (Aborted y)
    with f show ?thesis by (simp add: flow_inv_def)
  next
    case (Continues y)
    with f have "inv y" by (simp add: flow_inv_def)
    obtain m wk' where n: "next_wait wk = (m, wk')" by fastforce
    from Cons.IH [OF next_wait_ours [OF Cons.prems(1)] \<open>inv y\<close>] n
    have "run_inv (run_cycles clk wk' envs y)" by simp
    with Continues n \<open>inv y\<close> show ?thesis by (cases m) (simp_all del: split_paired_All)
  qed
qed

lemma worker_run_inv:
  assumes "ours wk" and "inv x"
  shows "run_inv (snd (worker_run clk wk env0 initial ready_ok envs x))"
  using dispatch_inv [OF assms, of clk initial] run_cycles_inv [OF assms(1)]
  by (auto simp: worker_run_def flow_inv_def split: flow.splits)

end

section \<open>Dispatch\<close>

lemma dispatch_split:
  "dispatch clk wk q x =
     (let before = takeWhile (\<lambda>(f, a). a \<noteq> Crash) q;
          y = fold (invoke clk wk) (map fst (filter (\<lambda>(f, a). a = Callback) before)) x
      in if list_ex (\<lambda>(f, a). a = Crash) q then Aborted y else Continues y)"
proof (induction q arbitrary: x)
  case (Cons r q)
  obtain f a where "r = (f, a)" by fastforce
  with Cons.IH show ?case by (cases a) (simp_all add: Let_def)
qed simp

text \<open>A policy with no crash entry never stops the process in a cycle with nothing pending.\<close>

lemma run_once_continues:
  assumes "\<And>c. policy_action (wk_policy wk) c \<noteq> Crash" and "fst (pending_take (sh_pending (snd x))) = []"
  shows "\<exists>h' sh'. run_once clk wk env x = Continues (h', sh')"
proof -
  have applied: "\<exists>h' sh'. apply_outcomes clk wk ocs y = Continues (h', sh')" for ocs y
  proof -
    obtain q st' pr' where r: "record_loop (wk_policy wk) (wk_hooks wk) ocs (sh_state (snd y)) (sh_process (snd y)) = (q, st', pr')"
      by (metis prod_cases3)
    from record_loop_exact [OF r] have "a \<noteq> Crash" if "(f, a) \<in> set q" for f a
      using that assms(1)
      by (auto simp: qualified_of_def map_filter_def qualifying_action_iff bind_eq_Some_conv split: if_splits)
    then have "\<not> list_ex (\<lambda>(f, a). a = Crash) q" by (auto simp: list_ex_iff)
    with r show ?thesis by (simp add: apply_outcomes_def engine_record_def dispatch_split Let_def)
  qed
  obtain rest where t: "pending_take (sh_pending (snd x)) = ([], rest)" using assms(2) by (metis prod.collapse)
  obtain now sh1 where c: "read_clock clk ((snd x)\<lparr>sh_pending := rest\<rparr>) = (now, sh1)" by fastforce
  from applied obtain h' sh' where "apply_outcomes clk wk (scan_all (wk_detectors wk) env now) (fst x, sh1) = Continues (h', sh')"
    by blast
  with t c show ?thesis by (simp add: run_once_def)
qed

text \<open>
  C10.  Dispatch runs host code for exactly the reports that ask for it.  The callback is invoked
  once for each report with the callback action, in order, up to the first report that stops the
  process; the process stops exactly when a report asks for it; and a callback that unwinds costs
  only a \<open>Low\<close> health entry in the slot of its own detector: no latch and no other slot changes,
  and the reports after it are still dispatched.
\<close>

theorem dispatch_exact:
  "(dispatch clk wk q x =
     (let before = takeWhile (\<lambda>(f, a). a \<noteq> Crash) q;
          y = fold (invoke clk wk) (map fst (filter (\<lambda>(f, a). a = Callback) before)) x
      in if list_ex (\<lambda>(f, a). a = Crash) q then Aborted y else Continues y))
   \<and> (wk_callback wk = Some callback \<and> callback f x = (True, h, sh) \<longrightarrow>
       (\<exists>sh'. invoke clk wk f x = (h, sh')
          \<and> st_latched (sh_state sh') = st_latched (sh_state sh)
          \<and> st_host_latched (sh_state sh') = st_host_latched (sh_state sh)
          \<and> sh_process sh' = sh_process sh \<and> sh_pending sh' = sh_pending sh
          \<and> st_slots (sh_state sh') = snd (slots_record (st_slots (sh_state sh)) (f_detector f)
               (health (f_detector f) (bounded_text_new callback_panicked)
                  (now_unix_ms (clk (sh_reads sh)))))))"
  using dispatch_split [of clk wk q x]
  by (simp add: invoke_def read_clock_def health_def Let_def)

definition sample_shared :: "unit shared" where
  "sample_shared = \<lparr>sh_state = state_new INVENTORY, sh_process = (), sh_pending = reports_new, sh_reads = 0\<rparr>"

definition sample_worker :: "(nat, unit) worker" where
  "sample_worker = worker_new policy_new (detectors_new None CapturedUnsupported CapturedUnsupported)
     (Some (\<lambda>f (n, sh). (True, n + 1, sh))) hooks_detached (Some 0)"

theorem dispatch_exact_witness:
  "\<exists>sh'. invoke (\<lambda>_. Some 5) sample_worker (finding_new TRACER_PRESENT Medium (TracerPresent (bounded_text_new ''P_TRACED'')) 1) (0, sample_shared)
       = (1, sh') \<and> sh_process sh' = sh_process sample_shared"
  using dispatch_exact [of "\<lambda>_. Some 5" sample_worker "[]" "(0, sample_shared)"
      "\<lambda>f (n, sh). (True, n + 1, sh)" "finding_new TRACER_PRESENT Medium (TracerPresent (bounded_text_new ''P_TRACED'')) 1" 1 sample_shared]
  by (auto simp: sample_worker_def worker_new_def)

section \<open>The wait between two scans\<close>

lemma xor_zero_eq: "x XOR y = 0 \<Longrightarrow> x = y" for x y :: "'a::len word"
  by (metis xor.assoc xor.right_neutral xor_self_eq)

lemma xor_push_zero:
  fixes x :: "'a::len word"
  assumes "x XOR push_bit k x = 0" and "0 < k"
  shows "x = 0"
proof -
  have x: "push_bit k x = x" using xor_zero_eq [OF assms(1)] by simp
  have "\<not> bit x m" for m
  proof (induction m rule: less_induct)
    case (less m)
    show ?case
    proof
      assume "bit x m"
      then have "bit (push_bit k x) m" by (simp only: x)
      then have "k \<le> m \<and> bit x (m - k)" by (simp add: bit_push_bit_iff)
      with less [of "m - k"] assms(2) show False by auto
    qed
  qed
  then show ?thesis by (simp add: bit_eq_iff)
qed

lemma xor_drop_zero:
  fixes x :: "'a::len word"
  assumes "x XOR drop_bit k x = 0" and "0 < k"
  shows "x = 0"
proof -
  have x: "drop_bit k x = x" using xor_zero_eq [OF assms(1)] by simp
  have "\<not> bit x m" for m
  proof (induction "LENGTH('a) - m" arbitrary: m rule: less_induct)
    case less
    show ?case
    proof
      assume b: "bit x m"
      then have "bit (drop_bit k x) m" by (simp only: x)
      then have "bit x (k + m)" by (simp add: bit_drop_bit_eq)
      moreover have "m < LENGTH('a)" using b by (rule bit_imp_le_length)
      ultimately show False using less [of "k + m"] assms(2) by auto
    qed
  qed
  then show ?thesis by (simp add: bit_eq_iff)
qed

lemma xorshift_nonzero: "x \<noteq> 0 \<Longrightarrow> xorshift x \<noteq> 0"
  unfolding xorshift_def Let_def
  using xor_push_zero [of x 13] xor_drop_zero [of "x XOR push_bit 13 x" 7]
    xor_push_zero [of "(x XOR push_bit 13 x) XOR drop_bit 7 (x XOR push_bit 13 x)" 17]
  by auto

lemma jitter_span:
  fixes millis :: u64
  shows "unat (millis div 100 * jitter_percent) * 100 \<le> unat millis * 40"
proof -
  have m: "unat (millis div 100) = unat millis div 100" by (simp add: unat_div)
  have "unat millis div 100 * 40 < 2 ^ LENGTH(64)"
    using unsigned_less [of millis, where 'a = nat] by simp
  then have "unat (millis div 100 * jitter_percent) = unat millis div 100 * 40"
    by (simp add: jitter_percent_def unat_word_ariths m)
  then show ?thesis by simp
qed

text \<open>
  C18.  The wait between two full scans.  A worker starts with a nonzero jitter state, the
  generator never reaches the fixed point zero, and each wait lies between the cycle and the
  cycle plus forty percent, so a scan is never skipped and never postponed beyond that bound; the
  addition does not unwind for any cycle below half the range of a duration.
\<close>

theorem next_wait_bounds:
  "wk_jitter (worker_new pol ds cb hooks since) \<noteq> 0
   \<and> (wk_jitter wk \<noteq> 0 \<and> 2 * wk_cycle wk < duration_bound \<longrightarrow>
       (\<exists>wait j. next_wait wk = (Returns wait, wk\<lparr>wk_jitter := j\<rparr>) \<and> j \<noteq> 0
          \<and> wk_cycle wk \<le> wait \<and> wait * 100 \<le> wk_cycle wk * 140))"
proof (intro conjI impI)
  have "bit (now_unix_ms since OR 1) 0" by (simp add: bit_or_iff bit_1_iff)
  then show "wk_jitter (worker_new pol ds cb hooks since) \<noteq> 0"
    unfolding worker_new_def by (metis bit_0_eq bot_apply bot_bool_def worker.select_convs(5))
next
  assume a: "wk_jitter wk \<noteq> 0 \<and> 2 * wk_cycle wk < duration_bound"
  define j where "j = xorshift (wk_jitter wk)"
  define millis :: u64
    where "millis = (if wk_cycle wk div 1000000 < 2 ^ 64 then of_nat (wk_cycle wk div 1000000) else - 1)"
  define span where "span = millis div 100 * jitter_percent"
  define extra where "extra = (if span = 0 then 0 else j mod span)"
  have mu: "unat millis \<le> wk_cycle wk div 1000000"
  proof (cases "wk_cycle wk div 1000000 < 2 ^ 64")
    case True
    then have "unat (of_nat (wk_cycle wk div 1000000) :: u64) = wk_cycle wk div 1000000"
      unfolding unat_of_nat by (intro mod_less) simp
    with True show ?thesis by (simp add: millis_def)
  next
    case False
    have "unat millis < 2 ^ LENGTH(64)" by (rule unsigned_less)
    with False show ?thesis by simp
  qed
  have "unat extra \<le> unat span"
    by (auto simp: extra_def unat_mod intro: less_imp_le simp: mod_less_divisor unat_gt_0)
  with jitter_span [of millis] mu have "unat extra * 100 \<le> (wk_cycle wk div 1000000) * 40"
    unfolding span_def by linarith
  moreover have "wk_cycle wk div 1000000 * 1000000 \<le> wk_cycle wk" by simp
  ultimately have e: "unat extra * 1000000 * 100 \<le> wk_cycle wk * 40" by linarith
  then have "wk_cycle wk + unat extra * 1000000 < duration_bound" using a by linarith
  moreover have "next_wait wk = (if wk_cycle wk + unat extra * 1000000 < duration_bound
      then Returns (wk_cycle wk + unat extra * 1000000) else Panic, wk\<lparr>wk_jitter := j\<rparr>)"
    unfolding next_wait_def Let_def j_def millis_def span_def extra_def ..
  moreover have "j \<noteq> 0" using a xorshift_nonzero by (simp add: j_def)
  ultimately show "\<exists>wait j. next_wait wk = (Returns wait, wk\<lparr>wk_jitter := j\<rparr>) \<and> j \<noteq> 0
          \<and> wk_cycle wk \<le> wait \<and> wait * 100 \<le> wk_cycle wk * 140"
    using e by (intro exI [of _ "wk_cycle wk + unat extra * 1000000"] exI [of _ j]) auto
qed

theorem next_wait_bounds_witness:
  "wk_jitter sample_worker \<noteq> 0 \<and> (\<exists>wait. fst (next_wait sample_worker) = Returns wait
     \<and> CYCLE \<le> wait \<and> wait \<le> 7000000000)"
proof -
  have j: "wk_jitter sample_worker \<noteq> 0" and c: "wk_cycle sample_worker = CYCLE"
    by (simp_all add: sample_worker_def worker_new_def now_unix_ms_def)
  then have "2 * wk_cycle sample_worker < duration_bound" by (simp add: CYCLE_def duration_bound_def)
  with j c next_wait_bounds [of policy_new "wk_detectors sample_worker" None hooks_detached None sample_worker]
  show ?thesis by (auto simp: CYCLE_def)
qed

end
