(* ===== verification/Fid_Process.thy ===== *)
theory Fid_Process
  imports Fid_Worker
begin

text \<open>
  The process-wide words of the facade (\<open>fidelity/src/lib.rs\<close>), its error types
  (\<open>error.rs\<close>), and the operations of a handle (\<open>handle.rs\<close>).  The five words are one record;
  an operation on them is a function on that record.  The engine's hooks are the facade's own
  functions, which interpret the contract \<open>latch_hooks\<close> of the worker.
\<close>

section \<open>Process words\<close>

record process =
  pw_running :: bool
  pw_latched :: u32
  pw_full_scan_done :: bool
  pw_full_scan_wait :: bool
  pw_deny_until_full_scan :: bool

definition process_init :: process where
  "process_init = \<lparr>pw_running = False, pw_latched = 0, pw_full_scan_done = False,
     pw_full_scan_wait = False, pw_deny_until_full_scan = False\<rparr>"

definition claim_slot :: "process \<Rightarrow> bool \<times> process" where
  "claim_slot p = (if pw_running p then (False, p) else (True, p\<lparr>pw_running := True\<rparr>))"

definition release_slot :: "process \<Rightarrow> process" where
  "release_slot p = p\<lparr>pw_running := False\<rparr>"

definition latched_categories :: "process \<Rightarrow> category_set" where
  "latched_categories p = pw_latched p"

definition latch :: "category \<Rightarrow> process \<Rightarrow> process" where
  "latch c p = p\<lparr>pw_latched := pw_latched p OR fst (cs_insert c cs_new)\<rparr>"

definition clear_latched :: "process \<Rightarrow> process" where
  "clear_latched p = p\<lparr>pw_latched := 0\<rparr>"

definition set_deny_until_full_scan :: "bool \<Rightarrow> process \<Rightarrow> process" where
  "set_deny_until_full_scan b p = p\<lparr>pw_deny_until_full_scan := b\<rparr>"

definition denies_until_full_scan :: "process \<Rightarrow> bool" where
  "denies_until_full_scan p = pw_deny_until_full_scan p"

definition full_scan_complete :: "process \<Rightarrow> bool" where
  "full_scan_complete p = pw_full_scan_done p"

definition mark_full_scan_complete :: "process \<Rightarrow> process" where
  "mark_full_scan_complete p = p\<lparr>pw_full_scan_wait := True, pw_full_scan_done := True\<rparr>"

definition abandon_start :: "process \<Rightarrow> process" where
  "abandon_start p =
     (let p1 = set_deny_until_full_scan False p;
          p2 = clear_latched p1;
          p3 = p2\<lparr>pw_full_scan_wait := False\<rparr>;
          p4 = p3\<lparr>pw_full_scan_done := False\<rparr>
      in release_slot p4)"

text \<open>
  \<open>wait_for_full_scan\<close>: the words when the call begins, and the words when the condition
  variable wakes it, by a notification or by the deadline.
\<close>

definition wait_for_full_scan :: "process \<Rightarrow> process \<Rightarrow> bool" where
  "wait_for_full_scan p woken = (if full_scan_complete p then True else pw_full_scan_wait woken)"

definition HOOKS :: "process hooks" where
  "HOOKS = \<lparr>hk_latch = latch, hk_full_scan_complete = mark_full_scan_complete\<rparr>"

section \<open>Errors\<close>

datatype start_error =
  AlreadyRunning
| MissingCallback
| MissingExpectedIdentity platform
| RequiredCoverageUnavailable category_set
| IdentityBindingUnavailable platform string
| UnsupportedTarget
| PlatformUnavailable string
| WorkerUnavailable error_kind
| WorkerStoppedDuringStart

datatype denial_reason = Latched | IncompleteCoverage

record denied =
  dn_categories :: category_set
  dn_reason :: denial_reason

definition denied_latched :: "category_set \<Rightarrow> denied" where
  "denied_latched cs = \<lparr>dn_categories = cs, dn_reason = Latched\<rparr>"

definition denied_incomplete_coverage :: denied where
  "denied_incomplete_coverage = \<lparr>dn_categories = cs_new, dn_reason = IncompleteCoverage\<rparr>"

fun category_debug :: "category \<Rightarrow> string" where
  "category_debug Integrity = ''Integrity''"
| "category_debug Debugging = ''Debugging''"
| "category_debug Instrumentation = ''Instrumentation''"
| "category_debug DeviceCompromise = ''DeviceCompromise''"
| "category_debug Virtualization = ''Virtualization''"
| "category_debug UiAbuse = ''UiAbuse''"

text \<open>\<open>write_categories\<close>: the separator is empty before the first category.\<close>

fun write_categories_loop :: "string \<Rightarrow> category list \<Rightarrow> string" where
  "write_categories_loop separator [] = []"
| "write_categories_loop separator (c # cs) =
     separator @ category_debug c @ write_categories_loop '', '' cs"

definition write_categories :: "category_set \<Rightarrow> string" where
  "write_categories cs = write_categories_loop [] (cs_list cs)"

fun platform_debug :: "platform \<Rightarrow> string" where
  "platform_debug Windows = ''Windows''"
| "platform_debug MacOs = ''MacOs''"
| "platform_debug Ios = ''Ios''"
| "platform_debug Android = ''Android''"
| "platform_debug Linux = ''Linux''"

text \<open>The text of an operating-system error kind belongs to the standard library.\<close>

fun start_error_display :: "(error_kind \<Rightarrow> string) \<Rightarrow> start_error \<Rightarrow> string" where
  "start_error_display kind_text AlreadyRunning = ''a fidelity runtime already runs in this process''"
| "start_error_display kind_text MissingCallback =
     ''a category selects Callback, and no callback was supplied''"
| "start_error_display kind_text (MissingExpectedIdentity p) =
     ''expected identity states no choice for the target platform '' @ platform_debug p"
| "start_error_display kind_text (RequiredCoverageUnavailable cs) =
     ''the target platform cannot supply complete detector coverage for '' @ write_categories cs"
| "start_error_display kind_text (IdentityBindingUnavailable p reason) =
     ''this build binds guarded constants to a code identity, and the target platform ''
     @ platform_debug p @ '' supplies none. '' @ reason
     @ '' Sign the image with the identity that the build names, or set FIDELITY_CODE_IDENTITY=none''"
| "start_error_display kind_text UnsupportedTarget =
     ''this build targets a platform that fidelity does not support''"
| "start_error_display kind_text (PlatformUnavailable reason) =
     ''no platform backend is available: '' @ reason"
| "start_error_display kind_text (WorkerUnavailable reason) =
     ''the operating system refused the worker thread: '' @ kind_text reason"
| "start_error_display kind_text WorkerStoppedDuringStart =
     ''the fidelity worker stopped before the initial actions completed''"

definition denied_display :: "denied \<Rightarrow> string" where
  "denied_display d = (case dn_reason d of
       Latched \<Rightarrow> ''a fidelity category latched a denial''
     | IncompleteCoverage \<Rightarrow> ''the fidelity detectors have not all run yet'')"

section \<open>Handles\<close>

text \<open>
  A handle refers to one runtime.  The state and the queue of that runtime are shared with the
  worker, so they live in the shared record; the identity and the policy never change.
\<close>

record runtime =
  rt_identity :: bytes
  rt_policy :: policy

type_synonym sys = "process shared"

definition ensure_allowed :: "process \<Rightarrow> denied + unit" where
  "ensure_allowed p =
     (let categories = latched_categories p in
      if \<not> cs_is_empty categories then Inl (denied_latched categories)
      else if denies_until_full_scan p \<and> \<not> full_scan_complete p
      then Inl denied_incomplete_coverage
      else Inr ())"

definition deny :: "category \<Rightarrow> sys \<Rightarrow> sys" where
  "deny c sh = sh\<lparr>sh_process := latch c (sh_process sh), sh_state := latch_by_host c (sh_state sh)\<rparr>"

definition report_ui_abuse :: "clock \<Rightarrow> runtime \<Rightarrow> ui_observation \<Rightarrow> sys \<Rightarrow> sys" where
  "report_ui_abuse clk rt observation sh =
     (case read_clock clk sh of (now, sh1) \<Rightarrow>
        (case engine_record (rt_policy rt) HOOKS [(HOST_REPORT, host_report observation now)] sh1 of
           (qualified, sh2) \<Rightarrow> sh2\<lparr>sh_pending := pending_add qualified (sh_pending sh2)\<rparr>))"

definition first_full_scan_complete :: "sys \<Rightarrow> bool" where
  "first_full_scan_complete sh = full_scan_complete (sh_process sh)"

definition handle_code_identity :: "runtime \<Rightarrow> bytes" where
  "handle_code_identity rt = rt_identity rt"

definition handle_snapshot :: "sys \<Rightarrow> snapshot" where
  "handle_snapshot sh = state_snapshot (sh_state sh)"

section \<open>Lemmas\<close>

lemma latch_word: "pw_latched (latch c p) = fst (cs_insert c (pw_latched p))"
  by (simp add: latch_def cs_insert_def cs_new_def)

interpretation facade: latch_hooks HOOKS pw_latched
  by unfold_locales (simp_all add: HOOKS_def latch_word mark_full_scan_complete_def)

lemma latch_other [simp]:
  "pw_running (latch c p) = pw_running p"
  "pw_full_scan_done (latch c p) = pw_full_scan_done p"
  "pw_full_scan_wait (latch c p) = pw_full_scan_wait p"
  "pw_deny_until_full_scan (latch c p) = pw_deny_until_full_scan p"
  by (simp_all add: latch_def)

lemma fold_latch_other [simp]:
  "pw_running (fold latch cs p) = pw_running p"
  "pw_full_scan_done (fold latch cs p) = pw_full_scan_done p"
  "pw_full_scan_wait (fold latch cs p) = pw_full_scan_wait p"
  "pw_deny_until_full_scan (fold latch cs p) = pw_deny_until_full_scan p"
  by (induction cs arbitrary: p) simp_all

lemma abandon_start_init: "abandon_start p = process_init"
  by (simp add: abandon_start_def process_init_def set_deny_until_full_scan_def clear_latched_def
      release_slot_def Let_def)

lemma ensure_allowed_Ok:
  "ensure_allowed p = Inr () \<longleftrightarrow> pw_latched p = 0 \<and> (pw_deny_until_full_scan p \<longrightarrow> pw_full_scan_done p)"
  by (auto simp: ensure_allowed_def Let_def cs_is_empty_def latched_categories_def
      denies_until_full_scan_def full_scan_complete_def)

end
