(* ===== verification/Fid_Builder.thy ===== *)
theory Fid_Builder
  imports Fid_Process
begin

text \<open>
  The builder and the start of the runtime (\<open>fidelity/src/builder.rs\<close>, \<open>backend.rs\<close>).  A start
  is one function from the process words to a result; each of its early returns and each place
  where a probe can unwind is a branch.  What the build fixes (the target, whether it binds an
  identity), what the probe answers and what the operating system does with the worker thread
  are the fields of \<open>start_inputs\<close>.
\<close>

section \<open>Configuration\<close>

text \<open>
  A host callback receives the finding and the handle.  Through the handle it can deny, report a
  user-interface observation and read; what it read is a function of the shared state, so its
  effect is the list of calls it made, its own new state, and whether it unwound at the end.
\<close>

datatype host_call = CallDeny category | CallReport ui_observation

type_synonym 'h host_callback = "finding \<Rightarrow> 'h \<times> sys \<Rightarrow> bool \<times> 'h \<times> host_call list"

fun host_call_step :: "clock \<Rightarrow> runtime \<Rightarrow> host_call \<Rightarrow> sys \<Rightarrow> sys" where
  "host_call_step clk rt (CallDeny c) sh = deny c sh"
| "host_call_step clk rt (CallReport ob) sh = report_ui_abuse clk rt ob sh"

record 'h builder =
  bd_policy :: policy
  bd_identity :: "expected_identity option"
  bd_callback :: "'h host_callback option"
  bd_deny_until_full_scan :: bool
  bd_required_coverage :: category_set

definition builder_new :: "'h builder" where
  "builder_new = \<lparr>bd_policy = policy_new, bd_identity = None, bd_callback = None,
     bd_deny_until_full_scan = False, bd_required_coverage = cs_new\<rparr>"

definition category_setter :: "category \<Rightarrow> action \<Rightarrow> strength \<Rightarrow> 'h builder \<Rightarrow> 'h builder" where
  "category_setter c a t b = b\<lparr>bd_policy := policy_set (bd_policy b) c a t\<rparr>"

definition expected_identity_setter :: "expected_identity \<Rightarrow> 'h builder \<Rightarrow> 'h builder" where
  "expected_identity_setter i b = b\<lparr>bd_identity := Some i\<rparr>"

definition deny_until_first_full_scan :: "'h builder \<Rightarrow> 'h builder" where
  "deny_until_first_full_scan b = b\<lparr>bd_deny_until_full_scan := True\<rparr>"

definition require_complete_coverage :: "category \<Rightarrow> 'h builder \<Rightarrow> 'h builder" where
  "require_complete_coverage c b =
     b\<lparr>bd_required_coverage := fst (cs_insert c (bd_required_coverage b))\<rparr>"

definition on_finding :: "'h host_callback \<Rightarrow> 'h builder \<Rightarrow> 'h builder" where
  "on_finding cb b = b\<lparr>bd_callback := Some cb\<rparr>"

section \<open>Steps of a start\<close>

definition bind_callback ::
  "clock \<Rightarrow> runtime \<Rightarrow> 'h host_callback option \<Rightarrow> ('h, process) callback option" where
  "bind_callback clk rt callback = map_option (\<lambda>cb f x.
     case cb f x of (unwound, h, calls) \<Rightarrow> (unwound, h, fold (host_call_step clk rt) calls (snd x))) callback"

definition supplies_coverage :: "outcome \<Rightarrow> bool" where
  "supplies_coverage oc = (case oc of
       Clean \<Rightarrow> True
     | Finding f \<Rightarrow> \<not> is_detector_health (f_evidence f)
     | NotRun \<Rightarrow> False
     | Unsupported r \<Rightarrow> False)"

definition detector_supplied_coverage :: "detector \<Rightarrow> (detector \<times> outcome) list \<Rightarrow> bool" where
  "detector_supplied_coverage d outcomes =
     (case List.find (\<lambda>(candidate, _). det_eq candidate d) outcomes of
        None \<Rightarrow> False | Some (_, oc) \<Rightarrow> supplies_coverage oc)"

definition missing_step ::
  "(detector \<times> outcome) list \<Rightarrow> category \<Rightarrow> category_set \<Rightarrow> category_set" where
  "missing_step outcomes c missing =
     (case filter (\<lambda>d. det_category d = c) INVENTORY of
        [] \<Rightarrow> fst (cs_insert c missing)
      | first # rest \<Rightarrow>
          if \<not> detector_supplied_coverage first outcomes
            \<or> list_ex (\<lambda>d. \<not> detector_supplied_coverage d outcomes) rest
          then fst (cs_insert c missing) else missing)"

definition missing_required_coverage ::
  "category_set \<Rightarrow> (detector \<times> outcome) list \<Rightarrow> category_set" where
  "missing_required_coverage required outcomes =
     fold (missing_step outcomes) (cs_list required) cs_new"

definition no_signer :: string where
  "no_signer = ''The running image carries no signer, so it is unsigned or signed ad hoc.''"

definition no_platform_identity :: string where
  "no_platform_identity = ''The probe reports no code identity on this platform.''"

definition identity_unreadable :: string where
  "identity_unreadable = ''The code identity read failed.''"

definition signer_material :: "environment \<Rightarrow> (string + bytes) exec" where
  "signer_material env = exec_bind (en_code_identity env) (\<lambda>ob. Returns (case ob of
       Fact identity \<Rightarrow>
         (case ci_signer identity of
            Some signer \<Rightarrow> if sg_material signer \<noteq> [] then Inr (sg_material signer) else Inl no_signer
          | None \<Rightarrow> Inl no_signer)
     | ObsUnsupported _ \<Rightarrow> Inl no_platform_identity
     | ObsFailed _ \<Rightarrow> Inl identity_unreadable))"

definition resolve_material :: "bool \<Rightarrow> string + bytes \<Rightarrow> platform \<Rightarrow> start_error + bytes" where
  "resolve_material binds material platform = (case material of
       Inr m \<Rightarrow> Inr m
     | Inl reason \<Rightarrow>
         if \<not> binds then Inr [] else Inl (IdentityBindingUnavailable platform reason))"

definition capture :: "'a observation exec \<Rightarrow> 'a captured exec" where
  "capture m = exec_bind m (\<lambda>ob. Returns (case ob of
       Fact x \<Rightarrow> Snapshot x
     | ObsUnsupported _ \<Rightarrow> CapturedUnsupported
     | ObsFailed detail \<Rightarrow> CapturedFailed detail))"

text \<open>
  The environment answers the reads before the initial scan (\<open>si_reads\<close>) and the scan itself
  (\<open>si_scan\<close>); it may answer differently each time.
\<close>

record start_inputs =
  si_target_os :: string
  si_binds :: bool
  si_reads :: environment
  si_scan :: environment
  si_spawn_error :: "error_kind option"
  si_worker_lost :: bool

definition backend_build :: "string \<Rightarrow> 'e \<Rightarrow> start_error + 'e" where
  "backend_build target_os env =
     (if target_os \<in> {''macos'', ''ios'', ''linux'', ''android'', ''windows''} then Inr env
      else Inl (PlatformUnavailable ''this build ships no probe crate for the target platform''))"

text \<open>Step 2: the checks before anything runs.\<close>

definition start_validate :: "start_inputs \<Rightarrow> 'h builder \<Rightarrow> start_error + platform" where
  "start_validate si b =
     (if needs_callback (bd_policy b) \<and> bd_callback b = None then Inl MissingCallback
      else case platform_target (si_target_os si) of
        None \<Rightarrow> Inl UnsupportedTarget
      | Some platform \<Rightarrow>
          if (case bd_identity b of None \<Rightarrow> False | Some i \<Rightarrow> \<not> states_choice_for i platform)
          then Inl (MissingExpectedIdentity platform) else Inr platform)"

text \<open>Steps 3 and 4: the backend, the material, the two captures, and the initial scan.\<close>

definition start_scan ::
  "start_inputs \<Rightarrow> 'h builder \<Rightarrow> platform \<Rightarrow> u64
     \<Rightarrow> (start_error + bytes \<times> detectors \<times> (detector \<times> outcome) list) exec" where
  "start_scan si b platform now =
     (case backend_build (si_target_os si) (si_reads si) of
        Inl e \<Rightarrow> Returns (Inl e)
      | Inr env \<Rightarrow>
          exec_bind (signer_material env) (\<lambda>material.
            case resolve_material (si_binds si) material platform of
              Inl e \<Rightarrow> Returns (Inl e)
            | Inr identity \<Rightarrow>
                exec_bind (capture (en_code_regions env)) (\<lambda>baseline.
                exec_bind (capture (en_dispatch_targets env)) (\<lambda>dispatch.
                  let ds = detectors_new (bd_identity b) baseline dispatch;
                      outcomes = scan_cheap ds (si_scan si) now;
                      missing = missing_required_coverage (bd_required_coverage b) outcomes
                  in Returns (if \<not> cs_is_empty missing
                       then Inl (RequiredCoverageUnavailable missing)
                       else Inr (identity, ds, outcomes))))))"

datatype 'h start_result =
  StartErr start_error process 'h
| StartPanic process 'h
| StartAborted process 'h
| StartOk runtime "('h, process) worker" 'h sys

text \<open>Steps 5 and 6: the state, the handle, the worker, and the wait for the initial actions.\<close>

definition start_launch ::
  "clock \<Rightarrow> start_inputs \<Rightarrow> 'h builder \<Rightarrow> bytes \<Rightarrow> detectors \<Rightarrow> (detector \<times> outcome) list
     \<Rightarrow> 'h \<Rightarrow> process \<Rightarrow> nat \<Rightarrow> 'h start_result" where
  "start_launch clk si b identity ds outcomes h p n =
     (let sh0 = \<lparr>sh_state = state_new INVENTORY, sh_process = p, sh_pending = reports_new, sh_reads = n\<rparr>
      in case engine_record (bd_policy b) HOOKS outcomes sh0 of (initial, sh1) \<Rightarrow>
        let rt = \<lparr>rt_identity = identity, rt_policy = bd_policy b\<rparr>;
            sh2 = sh1\<lparr>sh_reads := n + 1\<rparr>;
            wk = worker_new (bd_policy b) ds (bind_callback clk rt (bd_callback b)) HOOKS (clk n)
        in case si_spawn_error si of
             Some e \<Rightarrow> StartErr (WorkerUnavailable e) (sh_process sh2) h
           | None \<Rightarrow>
               (case dispatch clk wk initial (h, sh2) of
                  Aborted (h', sh3) \<Rightarrow> StartAborted (sh_process sh3) h'
                | Continues (h', sh3) \<Rightarrow>
                    if si_worker_lost si then StartErr WorkerStoppedDuringStart (sh_process sh3) h'
                    else StartOk rt wk h' sh3))"

definition start_claimed ::
  "clock \<Rightarrow> start_inputs \<Rightarrow> 'h builder \<Rightarrow> 'h \<Rightarrow> process \<Rightarrow> nat \<Rightarrow> 'h start_result" where
  "start_claimed clk si b h p n =
     (case start_validate si b of
        Inl e \<Rightarrow> StartErr e p h
      | Inr platform \<Rightarrow>
          let p1 = set_deny_until_full_scan (bd_deny_until_full_scan b) p
          in case start_scan si b platform (now_unix_ms (clk n)) of
               Panic \<Rightarrow> StartPanic p1 h
             | Returns (Inl e) \<Rightarrow> StartErr e p1 h
             | Returns (Inr (identity, ds, outcomes)) \<Rightarrow>
                 start_launch clk si b identity ds outcomes h p1 (n + 1))"

text \<open>
  The claim guard: a start that returns an error or unwinds drops the guard without a commit,
  and the drop rolls every process word back.
\<close>

definition start ::
  "clock \<Rightarrow> start_inputs \<Rightarrow> 'h builder \<Rightarrow> 'h \<Rightarrow> process \<Rightarrow> nat \<Rightarrow> 'h start_result" where
  "start clk si b h p n =
     (case claim_slot p of
        (False, p') \<Rightarrow> StartErr AlreadyRunning p' h
      | (True, p1) \<Rightarrow>
          (case start_claimed clk si b h p1 n of
             StartErr e p2 h' \<Rightarrow> StartErr e (abandon_start p2) h'
           | StartPanic p2 h' \<Rightarrow> StartPanic (abandon_start p2) h'
           | StartAborted p2 h' \<Rightarrow> StartAborted p2 h'
           | StartOk rt wk h' sh \<Rightarrow> StartOk rt wk h' sh))"

section \<open>Coverage\<close>

lemma missing_step_member:
  "cs_contains (missing_step outcomes c m) e \<longleftrightarrow> cs_contains m e
     \<or> (e = c \<and> ((\<forall>d \<in> set INVENTORY. det_category d \<noteq> c)
          \<or> (\<exists>d \<in> set INVENTORY. det_category d = c \<and> \<not> detector_supplied_coverage d outcomes)))"
proof (cases "filter (\<lambda>d. det_category d = c) INVENTORY")
  case Nil
  then have "\<forall>d \<in> set INVENTORY. det_category d \<noteq> c" by (simp add: filter_empty_conv)
  with Nil show ?thesis by (auto simp: missing_step_def cs_member)
next
  case (Cons first rest)
  have s: "{d \<in> set INVENTORY. det_category d = c} = set (first # rest)"
    using Cons by (metis set_filter)
  then have "\<not> (\<forall>d \<in> set INVENTORY. det_category d \<noteq> c)" by auto
  moreover have "(\<exists>d \<in> set INVENTORY. det_category d = c \<and> \<not> detector_supplied_coverage d outcomes)
      \<longleftrightarrow> (\<exists>d \<in> set (first # rest). \<not> detector_supplied_coverage d outcomes)"
    using s by blast
  ultimately show ?thesis
    using Cons by (auto simp: missing_step_def cs_member list_ex_iff)
qed

lemma missing_required_member:
  "cs_contains (missing_required_coverage required outcomes) c \<longleftrightarrow>
     cs_contains required c \<and> ((\<forall>d \<in> set INVENTORY. det_category d \<noteq> c)
       \<or> (\<exists>d \<in> set INVENTORY. det_category d = c \<and> \<not> detector_supplied_coverage d outcomes))"
proof -
  have "cs_contains (fold (missing_step outcomes) cs m) c \<longleftrightarrow> cs_contains m c
     \<or> (c \<in> set cs \<and> ((\<forall>d \<in> set INVENTORY. det_category d \<noteq> c)
       \<or> (\<exists>d \<in> set INVENTORY. det_category d = c \<and> \<not> detector_supplied_coverage d outcomes)))" for cs m
    by (induction cs arbitrary: m) (auto simp: missing_step_member)
  then show ?thesis
    by (simp add: missing_required_coverage_def set_cs_list cs_member)
qed

lemma missing_step_wf: "cs_wf m \<Longrightarrow> cs_wf (missing_step outcomes c m)"
  by (simp add: missing_step_def split: list.splits)

lemma missing_required_wf: "cs_wf (missing_required_coverage required outcomes)"
proof -
  have "cs_wf m \<Longrightarrow> cs_wf (fold (missing_step outcomes) cs m)" for cs m
    by (induction cs arbitrary: m) (simp_all add: missing_step_wf)
  then show ?thesis by (simp add: missing_required_coverage_def)
qed

text \<open>Coverage in terms of a scan: each detector appears once, so the search finds its outcome.\<close>

lemma find_by_det:
  assumes "(d, oc) \<in> set outcomes" and "distinct (map (det_id \<circ> fst) outcomes)"
  shows "List.find (\<lambda>(candidate, _). det_eq candidate d) outcomes = Some (d, oc)"
  using assms
proof (induction outcomes)
  case (Cons x outcomes)
  show ?case
  proof (cases "x = (d, oc)")
    case False
    with Cons.prems have m: "(d, oc) \<in> set outcomes" by simp
    then have "det_id d \<in> set (map (det_id \<circ> fst) outcomes)" by force
    moreover have "det_id (fst x) \<notin> set (map (det_id \<circ> fst) outcomes)" using Cons.prems(2) by simp
    ultimately have "det_id (fst x) \<noteq> det_id d" by metis
    with Cons m show ?thesis by (auto simp: det_eq_def split: prod.splits)
  qed simp
qed simp

lemma find_by_det_absent:
  assumes "det_id d \<notin> set (map (det_id \<circ> fst) outcomes)"
  shows "List.find (\<lambda>(candidate, _). det_eq candidate d) outcomes = None"
  using assms by (force simp: find_None_iff det_eq_def)

lemma scan_cheap_ids:
  "map (det_id \<circ> fst) (scan_cheap ds env now) = [1, 2, 3, 4, 9, 12, 5, 6, 10, 7]"
  by (simp add: scan_cheap_def guarded_def detector_ids detector_new_def)

lemma local_agent_uncovered: "\<not> detector_supplied_coverage LOCAL_AGENT (scan_cheap ds env now)"
proof -
  have "det_id LOCAL_AGENT = 11" by (simp add: LOCAL_AGENT_def detector_new_def)
  then have "det_id LOCAL_AGENT \<notin> set (map (det_id \<circ> fst) (scan_cheap ds env now))"
    unfolding scan_cheap_ids by simp
  from find_by_det_absent [OF this] show ?thesis by (simp add: detector_supplied_coverage_def)
qed

lemma host_report_uncovered: "\<not> detector_supplied_coverage HOST_REPORT (scan_cheap ds env now)"
proof -
  have "det_id HOST_REPORT = 8" by (simp add: HOST_REPORT_def detector_new_def)
  then have "det_id HOST_REPORT \<notin> set (map (det_id \<circ> fst) (scan_cheap ds env now))"
    unfolding scan_cheap_ids by simp
  from find_by_det_absent [OF this] show ?thesis by (simp add: detector_supplied_coverage_def)
qed

text \<open>
  C16.  The coverage a start reports missing.  The set holds exactly the required categories that
  have no detector or in which some detector of the inventory did not appear in the scan with a
  clean result or a real finding; so a start succeeds on required coverage only when every
  detector of those categories produced evidence about the host and not about itself.
\<close>

theorem missing_coverage_exact:
  "cs_contains (missing_required_coverage required outcomes) c \<longleftrightarrow>
     cs_contains required c
     \<and> ((\<forall>d \<in> set INVENTORY. det_category d \<noteq> c)
       \<or> (\<exists>d \<in> set INVENTORY. det_category d = c
            \<and> \<not> (\<exists>e oc. List.find (\<lambda>(k, _). det_eq k d) outcomes = Some (e, oc)
                 \<and> outcome_ran oc
                 \<and> (\<forall>f. oc = Finding f \<longrightarrow> \<not> is_detector_health (f_evidence f)))))"
proof -
  have "detector_supplied_coverage d outcomes \<longleftrightarrow>
      (\<exists>e oc. List.find (\<lambda>(k, _). det_eq k d) outcomes = Some (e, oc) \<and> outcome_ran oc
         \<and> (\<forall>f. oc = Finding f \<longrightarrow> \<not> is_detector_health (f_evidence f)))" for d
    by (auto simp: detector_supplied_coverage_def supplies_coverage_def
        split: option.splits outcome.splits)
  then show ?thesis by (simp add: missing_required_member)
qed

theorem missing_coverage_exact_witness:
  "cs_contains (missing_required_coverage (fst (cs_insert Debugging cs_new)) []) Debugging
   \<and> cs_contains (fst (cs_insert Debugging cs_new)) Debugging"
proof -
  have "TRACER_PRESENT \<in> set INVENTORY \<and> det_category TRACER_PRESENT = Debugging"
    by (simp add: INVENTORY_def TRACER_PRESENT_def detector_new_def)
  then have "\<exists>d \<in> set INVENTORY. det_category d = Debugging \<and> True" by blast
  then show ?thesis
    using missing_coverage_exact [of "fst (cs_insert Debugging cs_new)" "[]" Debugging]
    by (simp add: cs_member)
qed

text \<open>
  Two categories can never be required.  The initial scan leaves out the loopback probe,
  which belongs to the instrumentation category, and no scan drives the host report; so whatever
  the environment answers, a start that requires complete coverage of either category is never
  successful, and one that reaches the coverage check reports the category as missing.
\<close>

lemma instrumentation_coverage_unreachable:
  assumes "cs_contains (bd_required_coverage b) Instrumentation \<or> cs_contains (bd_required_coverage b) UiAbuse"
  shows "start clk si b h p n \<noteq> StartOk rt wk h' sh
    \<and> (cs_contains (bd_required_coverage b) Instrumentation \<longrightarrow>
        cs_contains (missing_required_coverage (bd_required_coverage b) (scan_cheap ds env now)) Instrumentation)"
proof -
  have inv: "LOCAL_AGENT \<in> set INVENTORY" "det_category LOCAL_AGENT = Instrumentation"
      "HOST_REPORT \<in> set INVENTORY" "det_category HOST_REPORT = UiAbuse"
    by (simp_all add: INVENTORY_def LOCAL_AGENT_def HOST_REPORT_def detector_new_def)
  have li: "cs_contains (missing_required_coverage (bd_required_coverage b) (scan_cheap ds env now)) Instrumentation"
    if "cs_contains (bd_required_coverage b) Instrumentation" for ds env now
    using that inv local_agent_uncovered [of ds env now] unfolding missing_required_member by blast
  have hu: "cs_contains (missing_required_coverage (bd_required_coverage b) (scan_cheap ds env now)) UiAbuse"
    if "cs_contains (bd_required_coverage b) UiAbuse" for ds env now
    using that inv host_report_uncovered [of ds env now] unfolding missing_required_member by blast
  have ne: "\<not> cs_is_empty (missing_required_coverage (bd_required_coverage b) (scan_cheap ds env now))"
    for ds env now
    using assms li hu cs_is_empty_iff [OF missing_required_wf] by blast
  have "start_scan si b platform t \<noteq> Returns (Inr r)" for platform t r
    using ne by (auto simp: start_scan_def Let_def split: sum.splits)
  then have "start_claimed clk si b h p1 n \<noteq> StartOk rt wk h' sh" for p1
    by (auto simp: start_claimed_def Let_def split: sum.splits exec.splits)
  then have "start clk si b h p n \<noteq> StartOk rt wk h' sh"
    by (auto simp: start_def split: prod.splits bool.splits start_result.splits)
  with li show ?thesis by blast
qed

lemma instrumentation_coverage_unreachable_example:
  "\<not> (\<exists>clk si p n rt wk h' sh.
      start clk si (require_complete_coverage Instrumentation builder_new) () p n = StartOk rt wk h' sh)"
proof -
  have "cs_contains (bd_required_coverage (require_complete_coverage Instrumentation builder_new)) Instrumentation"
    by (simp add: require_complete_coverage_def builder_new_def cs_member)
  then have "start clk si (require_complete_coverage Instrumentation builder_new) () p n \<noteq> StartOk rt wk h' sh"
    for clk si p n rt wk h' sh
    using instrumentation_coverage_unreachable
      [of "require_complete_coverage Instrumentation builder_new" clk si "()" p n rt wk h' sh] by blast
  then show ?thesis by blast
qed

text \<open>Why the running image gives no material, in the words of the start error; nothing when it gives some.\<close>

definition material_gap :: "code_identity observation \<Rightarrow> string option" where
  "material_gap ob = (case ob of
       Fact identity \<Rightarrow>
         (if \<exists>s. ci_signer identity = Some s \<and> sg_material s \<noteq> [] then None
          else Some ''The running image carries no signer, so it is unsigned or signed ad hoc.'')
     | ObsUnsupported _ \<Rightarrow> Some ''The probe reports no code identity on this platform.''
     | ObsFailed _ \<Rightarrow> Some ''The code identity read failed.'')"

lemma start_scan_material:
  "start_scan si b platform now = Returns (Inr (identity, ds, outcomes)) \<Longrightarrow>
     \<exists>m. signer_material (si_reads si) = Returns m \<and> resolve_material (si_binds si) m platform = Inr identity"
  by (auto simp: start_scan_def backend_build_def Let_def exec_bind_case simp del: exec_bind_Returns
      split: sum.splits if_splits exec.splits)

lemma start_ok_material:
  assumes "start clk si b h p n = StartOk rt wk h' sh"
  shows "\<exists>m platform. signer_material (si_reads si) = Returns m \<and> resolve_material (si_binds si) m platform = Inr (rt_identity rt)"
proof -
  from assms obtain p1 where "start_claimed clk si b h p1 n = StartOk rt wk h' sh"
    by (auto simp: start_def split: prod.splits bool.splits start_result.splits)
  then obtain platform identity ds outcomes p2
    where scan: "start_scan si b platform (now_unix_ms (clk n)) = Returns (Inr (identity, ds, outcomes))"
      and launch: "start_launch clk si b identity ds outcomes h p2 (n + 1) = StartOk rt wk h' sh"
    by (auto simp: start_claimed_def Let_def split: sum.splits exec.splits)
  from launch have "rt_identity rt = identity"
    by (auto simp: start_launch_def Let_def split: prod.splits option.splits flow.splits if_splits)
  with start_scan_material [OF scan] show ?thesis by blast
qed

text \<open>The only place of a start that gives the identity error is the resolution of the material.\<close>

lemma start_scan_identity_error:
  "start_scan si b platform now = Returns (Inl (IdentityBindingUnavailable pf reason)) \<longleftrightarrow>
     si_target_os si \<in> {''macos'', ''ios'', ''linux'', ''android'', ''windows''}
     \<and> pf = platform \<and> si_binds si \<and> signer_material (si_reads si) = Returns (Inl reason)"
  by (auto simp: start_scan_def backend_build_def resolve_material_def Let_def exec_bind_case simp del: exec_bind_Returns
      split: sum.splits if_splits exec.splits)

lemma start_identity_error:
  "(\<exists>p'. start clk si b h p n = StartErr (IdentityBindingUnavailable pf reason) p' h') \<longleftrightarrow>
     \<not> pw_running p \<and> h' = h \<and> start_validate si b = Inr pf
     \<and> si_target_os si \<in> {''macos'', ''ios'', ''linux'', ''android'', ''windows''}
     \<and> si_binds si \<and> signer_material (si_reads si) = Returns (Inl reason)"
proof (cases "pw_running p")
  case True
  then show ?thesis by (simp add: start_def claim_slot_def)
next
  case False
  let ?p1 = "p\<lparr>pw_running := True\<rparr>"
  have launch: "start_launch clk si b identity ds outcomes h q m \<noteq> StartErr (IdentityBindingUnavailable pf reason) p' h'"
    for identity ds outcomes q m p'
    by (auto simp: start_launch_def Let_def split: prod.splits option.splits flow.splits if_splits)
  have "start_validate si b \<noteq> Inl (IdentityBindingUnavailable pf reason)"
    by (auto simp: start_validate_def split: option.splits if_splits)
  then have "(\<exists>p'. start_claimed clk si b h ?p1 n = StartErr (IdentityBindingUnavailable pf reason) p' h') \<longleftrightarrow>
      h' = h \<and> (\<exists>platform. start_validate si b = Inr platform
        \<and> start_scan si b platform (now_unix_ms (clk n)) = Returns (Inl (IdentityBindingUnavailable pf reason)))"
    using launch by (auto simp: start_claimed_def Let_def split: sum.splits exec.splits)
  moreover have "(\<exists>p'. start clk si b h p n = StartErr (IdentityBindingUnavailable pf reason) p' h') \<longleftrightarrow>
      (\<exists>p'. start_claimed clk si b h ?p1 n = StartErr (IdentityBindingUnavailable pf reason) p' h')"
    using False by (auto simp: start_def claim_slot_def split: start_result.splits)
  ultimately show ?thesis using False unfolding start_scan_identity_error by auto
qed

lemma signer_material_gap:
  "signer_material env = Returns (Inl reason) \<longleftrightarrow> (\<exists>ob. en_code_identity env = Returns ob \<and> material_gap ob = Some reason)"
  "signer_material env = Returns (Inr m) \<longleftrightarrow>
     (\<exists>identity s. en_code_identity env = Returns (Fact identity) \<and> ci_signer identity = Some s
        \<and> sg_material s = m \<and> m \<noteq> [])"
  by (auto simp: signer_material_def material_gap_def no_signer_def no_platform_identity_def identity_unreadable_def
      exec_bind_case simp del: exec_bind_Returns split: exec.splits observation.splits option.splits if_splits)

lemma platform_target_supported:
  "platform_target os = Some pf \<Longrightarrow> os \<in> {''macos'', ''ios'', ''linux'', ''android'', ''windows''}"
  by (auto simp: platform_target_def split: if_splits)

text \<open>
  A configuration that is valid for a target: a callback when the policy asks for one, a supported
  target, and a choice for it when the host stated an identity.
\<close>

definition valid_for :: "start_inputs \<Rightarrow> 'h builder \<Rightarrow> platform \<Rightarrow> bool" where
  "valid_for si b platform \<longleftrightarrow> (needs_callback (bd_policy b) \<longrightarrow> bd_callback b \<noteq> None)
     \<and> platform_target (si_target_os si) = Some platform
     \<and> (\<forall>i. bd_identity b = Some i \<longrightarrow> states_choice_for i platform)"

lemma start_validate_Inr: "start_validate si b = Inr platform \<longleftrightarrow> valid_for si b platform"
  by (auto simp: start_validate_def valid_for_def split: option.splits if_splits)

text \<open>
  C17.  The key material of a start.  A start of a build that binds an identity ends in the typed
  identity error exactly when no runtime holds the slot, the configuration is valid for the target,
  and the running image gives no material: it is unsigned or its material is empty, the platform has
  no such reading, or the reading failed; the error names the platform and which of the three it was.
  A start that succeeds has read the identity without a panic.  When that gave material, the runtime
  keeps exactly it, whether the build binds or not; that an unbound build keeps it too is not what the
  comment of \<open>resolve_material\<close> says, and its guarded reads do not use it.  When it gave none, the
  build binds nothing and the material is empty.
\<close>

theorem start_material_exact:
  "((\<exists>p'. start clk si b h p n = StartErr (IdentityBindingUnavailable platform reason) p' h') \<longleftrightarrow>
      \<not> pw_running p \<and> h' = h \<and> valid_for si b platform \<and> si_binds si
      \<and> (\<exists>ob. en_code_identity (si_reads si) = Returns ob \<and> material_gap ob = Some reason))
   \<and> (start clk si b h p n = StartOk rt wk h' sh \<longrightarrow>
      (\<exists>identity s. en_code_identity (si_reads si) = Returns (Fact identity) \<and> ci_signer identity = Some s
          \<and> sg_material s \<noteq> [] \<and> rt_identity rt = sg_material s)
      \<or> (\<exists>ob why. en_code_identity (si_reads si) = Returns ob \<and> material_gap ob = Some why
          \<and> \<not> si_binds si \<and> rt_identity rt = []))"
proof (intro conjI impI)
  have "si_target_os si \<in> {''macos'', ''ios'', ''linux'', ''android'', ''windows''}" if "valid_for si b platform"
    using that platform_target_supported
    by (auto simp: valid_for_def)
  then show "(\<exists>p'. start clk si b h p n = StartErr (IdentityBindingUnavailable platform reason) p' h') \<longleftrightarrow>
      \<not> pw_running p \<and> h' = h \<and> valid_for si b platform \<and> si_binds si
      \<and> (\<exists>ob. en_code_identity (si_reads si) = Returns ob \<and> material_gap ob = Some reason)"
    unfolding start_identity_error signer_material_gap start_validate_Inr by blast
next
  assume "start clk si b h p n = StartOk rt wk h' sh"
  from start_ok_material [OF this] obtain m pf
    where m: "signer_material (si_reads si) = Returns m" "resolve_material (si_binds si) m pf = Inr (rt_identity rt)" by blast
  show "(\<exists>identity s. en_code_identity (si_reads si) = Returns (Fact identity) \<and> ci_signer identity = Some s
          \<and> sg_material s \<noteq> [] \<and> rt_identity rt = sg_material s)
      \<or> (\<exists>ob why. en_code_identity (si_reads si) = Returns ob \<and> material_gap ob = Some why
          \<and> \<not> si_binds si \<and> rt_identity rt = [])"
  proof (cases m)
    case (Inl why)
    with m show ?thesis by (auto simp: signer_material_gap resolve_material_def split: if_splits)
  next
    case (Inr found)
    with m show ?thesis by (auto simp: signer_material_gap resolve_material_def)
  qed
qed

text \<open>A start on a platform that answers nothing: it succeeds and reports only gaps.\<close>

definition sample_inputs :: start_inputs where
  "sample_inputs = \<lparr>si_target_os = ''linux'', si_binds = False,
     si_reads = default_environment Linux (Returns (Fact AgentAbsent)),
     si_scan = default_environment Linux (Returns (Fact AgentAbsent)),
     si_spawn_error = None, si_worker_lost = False\<rparr>"

lemma qualified_of_no_findings:
  "list_all (\<lambda>(d, oc). outcome_finding oc = None) outcomes \<Longrightarrow> qualified_of pol known outcomes = []"
  by (induction outcomes) (auto simp: qualified_of_def List.map_filter_simps)

lemma default_scan_no_findings:
  "list_all (\<lambda>(d, oc). outcome_finding oc = None)
     (scan_cheap (detectors_new None CapturedUnsupported CapturedUnsupported)
        (default_environment Linux agent) now)"
  by (simp add: scan_cheap_def guarded_def detectors_new_def default_environment_def detector_defs)

text \<open>The configuration of a host that chose a policy and nothing else.\<close>

definition sample_builder :: "policy \<Rightarrow> unit builder" where
  "sample_builder pol = builder_new\<lparr>bd_policy := pol\<rparr>"

lemma sample_start_with:
  assumes "\<not> needs_callback pol"
    and reads: "signer_material reads = Returns m" "resolve_material binds m Linux = Inr identity"
      "en_code_regions reads = Returns (ObsUnsupported r1)" "en_dispatch_targets reads = Returns (ObsUnsupported r2)"
  shows "\<exists>rt wk sh. start (\<lambda>_. None) (sample_inputs\<lparr>si_binds := binds, si_reads := reads\<rparr>) (sample_builder pol) () process_init 0
      = StartOk rt wk () sh
    \<and> rt_policy rt = pol \<and> wk_policy wk = pol \<and> wk_callback wk = None \<and> sh_pending sh = reports_new"
proof -
  let ?b = "sample_builder pol" and ?si = "sample_inputs\<lparr>si_binds := binds, si_reads := reads\<rparr>"
  let ?ds = "detectors_new None CapturedUnsupported CapturedUnsupported"
  let ?ocs = "scan_cheap ?ds (si_scan ?si) (now_unix_ms None)"
  have v: "start_validate ?si ?b = Inr Linux"
    using assms by (simp add: start_validate_def sample_builder_def builder_new_def sample_inputs_def platform_target_def)
  have "missing_required_coverage cs_new ocs = cs_new" for ocs
    by (simp add: missing_required_coverage_def cs_list_def cs_iter_def cs_drain_filter cs_member)
  then have sc: "start_scan ?si ?b Linux (now_unix_ms None) = Returns (Inr (identity, ?ds, ?ocs))"
    by (simp add: start_scan_def backend_build_def reads capture_def
        sample_inputs_def sample_builder_def builder_new_def default_environment_def Let_def cs_is_empty_def cs_new_def)
  have er: "\<exists>sh1. engine_record pol HOOKS ?ocs
      \<lparr>sh_state = state_new INVENTORY, sh_process = p, sh_pending = reports_new, sh_reads = n\<rparr> = ([], sh1)
      \<and> sh_pending sh1 = reports_new" for p n
  proof -
    let ?sh = "\<lparr>sh_state = state_new INVENTORY, sh_process = p, sh_pending = reports_new, sh_reads = n\<rparr>"
    obtain q st' pr' where r: "record_loop pol HOOKS ?ocs (sh_state ?sh) (sh_process ?sh) = (q, st', pr')"
      by (metis prod_cases3)
    from record_loop_exact [OF r] r qualified_of_no_findings [OF default_scan_no_findings] show ?thesis
      by (simp add: engine_record_def sample_inputs_def)
  qed
  have "\<exists>rt wk sh. start_launch (\<lambda>_. None) ?si ?b identity ?ds ?ocs () p n = StartOk rt wk () sh
      \<and> rt_policy rt = pol \<and> wk_policy wk = pol \<and> wk_callback wk = None \<and> sh_pending sh = reports_new" for p n
  proof -
    from er obtain sh1 where "engine_record pol HOOKS ?ocs
      \<lparr>sh_state = state_new INVENTORY, sh_process = p, sh_pending = reports_new, sh_reads = n\<rparr> = ([], sh1)"
      "sh_pending sh1 = reports_new" by blast
    moreover have "bd_policy ?b = pol" "bd_callback ?b = None" by (simp_all add: sample_builder_def builder_new_def)
    moreover have "si_spawn_error ?si = None" "\<not> si_worker_lost ?si"
      by (simp_all add: sample_inputs_def)
    ultimately show ?thesis by (simp add: start_launch_def Let_def worker_new_def bind_callback_def)
  qed
  then obtain rt wk sh where l: "start_launch (\<lambda>_. None) ?si ?b identity ?ds ?ocs ()
      (set_deny_until_full_scan (bd_deny_until_full_scan ?b) (process_init\<lparr>pw_running := True\<rparr>)) (0 + 1)
        = StartOk rt wk () sh" and p: "rt_policy rt = pol" "wk_policy wk = pol" "wk_callback wk = None"
          "sh_pending sh = reports_new" by blast
  then have "start_claimed (\<lambda>_. None) ?si ?b () (process_init\<lparr>pw_running := True\<rparr>) 0 = StartOk rt wk () sh"
    using v sc by (simp add: start_claimed_def Let_def)
  then have "start (\<lambda>_. None) ?si ?b () process_init 0 = StartOk rt wk () sh"
    by (simp add: start_def claim_slot_def process_init_def)
  with p show ?thesis by blast
qed

lemma sample_start_policy:
  assumes "\<not> needs_callback pol"
  shows "\<exists>rt wk sh. start (\<lambda>_. None) sample_inputs (sample_builder pol) () process_init 0 = StartOk rt wk () sh
    \<and> rt_policy rt = pol \<and> wk_policy wk = pol \<and> wk_callback wk = None \<and> sh_pending sh = reports_new"
proof -
  have "sample_inputs\<lparr>si_binds := False, si_reads := si_reads sample_inputs\<rparr> = sample_inputs"
    by (simp add: sample_inputs_def)
  with sample_start_with [OF assms, of "si_reads sample_inputs" "Inl no_platform_identity" False "[]" no_probe no_probe]
  show ?thesis
    by (simp add: sample_inputs_def default_environment_def signer_material_def resolve_material_def)
qed

lemma sample_start_ok:
  "\<exists>rt wk sh. start (\<lambda>_. None) sample_inputs builder_new () process_init 0 = StartOk rt wk () sh"
proof -
  have "\<not> needs_callback policy_new"
    by (simp add: needs_callback_iff policy_action_entry pol.look_start entry_default_def)
  moreover have "sample_builder policy_new = builder_new" by (simp add: sample_builder_def builder_new_def)
  ultimately show ?thesis using sample_start_policy [of policy_new] by auto
qed

text \<open>A bound build on a signed image, and the same build on an image that carries no signer.\<close>

definition image_signed_by :: "signer option \<Rightarrow> environment" where
  "image_signed_by sg = (default_environment Linux (Returns (Fact AgentAbsent)))
     \<lparr>en_code_identity := Returns (Fact \<lparr>ci_trust = Accepted, ci_signer = sg\<rparr>)\<rparr>"

definition bound_inputs :: "signer option \<Rightarrow> start_inputs" where
  "bound_inputs sg = sample_inputs\<lparr>si_binds := True, si_reads := image_signed_by sg\<rparr>"

theorem start_material_exact_witness:
  "(\<exists>rt wk sh. start (\<lambda>_. None) (bound_inputs (Some (signer_new [7] ''team''))) builder_new () process_init 0 = StartOk rt wk () sh
      \<and> rt_identity rt = [7])
   \<and> (\<exists>p'. start (\<lambda>_. None) (bound_inputs None) builder_new () process_init 0
        = StartErr (IdentityBindingUnavailable Linux ''The running image carries no signer, so it is unsigned or signed ad hoc.'') p' ())"
proof
  have no: "\<not> needs_callback policy_new"
    by (simp add: needs_callback_iff policy_action_entry pol.look_start entry_default_def)
  have b: "sample_builder policy_new = builder_new" by (simp add: sample_builder_def builder_new_def)
  let ?s = "Some (signer_new [7] ''team'')"
  have "signer_material (image_signed_by ?s) = Returns (Inr [7])"
    by (simp add: signer_material_def image_signed_by_def signer_new_def)
  then obtain rt wk sh where ok: "start (\<lambda>_. None) (bound_inputs ?s) builder_new () process_init 0 = StartOk rt wk () sh"
    using sample_start_with [OF no, of "image_signed_by ?s" "Inr [7]" True "[7]" no_probe no_probe]
    by (auto simp: b bound_inputs_def resolve_material_def image_signed_by_def default_environment_def)
  have "rt_identity rt = [7]"
    using start_material_exact [THEN conjunct2, THEN mp, OF ok]
    by (auto simp: bound_inputs_def image_signed_by_def signer_new_def)
  with ok show "\<exists>rt wk sh. start (\<lambda>_. None) (bound_inputs ?s) builder_new () process_init 0 = StartOk rt wk () sh
      \<and> rt_identity rt = [7]" by blast
  have "valid_for (bound_inputs None) builder_new Linux" "si_binds (bound_inputs None)"
    using no by (simp_all add: valid_for_def bound_inputs_def sample_inputs_def builder_new_def platform_target_def)
  moreover have "en_code_identity (si_reads (bound_inputs None)) = Returns (Fact \<lparr>ci_trust = Accepted, ci_signer = None\<rparr>)"
    by (simp add: bound_inputs_def image_signed_by_def)
  moreover have "\<not> pw_running process_init" by (simp add: process_init_def)
  ultimately show "\<exists>p'. start (\<lambda>_. None) (bound_inputs None) builder_new () process_init 0
      = StartErr (IdentityBindingUnavailable Linux ''The running image carries no signer, so it is unsigned or signed ad hoc.'') p' ()"
    by (subst start_material_exact [THEN conjunct1]) (simp add: material_gap_def)
qed

end
