(* ===== verification/Fid_System.thy ===== *)
theory Fid_System
  imports Fid_Builder
begin

text \<open>
  The life of a process that uses the facade: starts, host calls on any thread, and worker cycles,
  as a step relation.  One start, one host call and one whole worker cycle is one transition; the
  code takes the state lock several times in a cycle, so host calls can come between those sections.
  That order is covered by \<open>locked_section\<close>: a cycle and a host call are each a sequence of
  sections, and any sequence of sections keeps the invariant and undoes no protection.  The
  reachable states keep \<open>sys_inv\<close>, which ties the process words to the engine state; the worker's part of that comes
  from the locale \<open>worker_invariant\<close>, interpreted here on the facade's hooks and a callback that
  acts through its handle.
\<close>

section \<open>Invariant of a live runtime\<close>

definition sys_inv :: "sys \<Rightarrow> bool" where
  "sys_inv sh \<longleftrightarrow>
     pw_running (sh_process sh)
   \<and> pw_latched (sh_process sh) = st_latched (sh_state sh)
   \<and> pw_full_scan_wait (sh_process sh) = pw_full_scan_done (sh_process sh)
   \<and> cs_wf (st_latched (sh_state sh))
   \<and> (\<forall>c. cs_contains (st_host_latched (sh_state sh)) c \<longrightarrow> cs_contains (st_latched (sh_state sh)) c)
   \<and> known_detectors (sh_state sh) = INVENTORY
   \<and> reports_inv (sh_pending sh)"

lemma sys_inv_reads [simp]: "sys_inv (sh\<lparr>sh_reads := n\<rparr>) = sys_inv sh"
  by (simp add: sys_inv_def)

lemma cs_wf_fold: "cs_wf s \<Longrightarrow> cs_wf (fold (\<lambda>c s. fst (cs_insert c s)) cs s)"
  by (induction cs arbitrary: s) simp_all

lemma engine_record_parts:
  assumes "engine_record pol hooks outcomes sh = (q, sh')"
  shows "q = qualified_of pol (known_detectors (sh_state sh)) outcomes"
    and "sh_process sh' = fold (hk_latch hooks) (denied q) (sh_process sh)"
    and "st_latched (sh_state sh') = fold (\<lambda>c s. fst (cs_insert c s)) (denied q) (st_latched (sh_state sh))"
    and "st_host_latched (sh_state sh') = st_host_latched (sh_state sh)"
    and "known_detectors (sh_state sh') = known_detectors (sh_state sh)"
    and "st_slots (sh_state sh') = record_slots outcomes (st_slots (sh_state sh))"
    and "sh_pending sh' = sh_pending sh" and "sh_reads sh' = sh_reads sh"
proof -
  obtain q2 st pr where r: "record_loop pol hooks outcomes (sh_state sh) (sh_process sh) = (q2, st, pr)"
    by (metis prod_cases3)
  with assms have "q = q2" "sh' = sh\<lparr>sh_state := st, sh_process := pr\<rparr>"
    by (simp_all add: engine_record_def)
  with record_loop_exact [OF r]
  show "q = qualified_of pol (known_detectors (sh_state sh)) outcomes"
    and "sh_process sh' = fold (hk_latch hooks) (denied q) (sh_process sh)"
    and "st_latched (sh_state sh') = fold (\<lambda>c s. fst (cs_insert c s)) (denied q) (st_latched (sh_state sh))"
    and "st_host_latched (sh_state sh') = st_host_latched (sh_state sh)"
    and "known_detectors (sh_state sh') = known_detectors (sh_state sh)"
    and "st_slots (sh_state sh') = record_slots outcomes (st_slots (sh_state sh))"
    and "sh_pending sh' = sh_pending sh" and "sh_reads sh' = sh_reads sh"
    by simp_all
qed

lemma hk_latch_HOOKS [simp]: "hk_latch HOOKS = latch"
  by (simp add: HOOKS_def)

lemma hk_full_scan_HOOKS [simp]: "hk_full_scan_complete HOOKS = mark_full_scan_complete"
  by (simp add: HOOKS_def)

lemma engine_record_inv:
  assumes "sys_inv sh"
  shows "sys_inv (snd (engine_record pol HOOKS outcomes sh))"
proof -
  obtain q sh' where r: "engine_record pol HOOKS outcomes sh = (q, sh')" by fastforce
  note parts = engine_record_parts [OF r]
  have "pw_latched (sh_process sh') = st_latched (sh_state sh')"
    using facade.engine_record_agree [of sh pol outcomes] assms r
    by (simp add: facade.agree_def sys_inv_def)
  with assms show ?thesis
    by (simp add: r sys_inv_def parts cs_wf_fold cs.member_fold)
qed

lemma deny_inv: "sys_inv sh \<Longrightarrow> sys_inv (deny c sh)"
  by (auto simp: sys_inv_def deny_def latch_by_host_def latch_word cs_member known_detectors_def)

lemma report_inv: "sys_inv sh \<Longrightarrow> sys_inv (report_ui_abuse clk rt ob sh)"
proof -
  assume i: "sys_inv sh"
  obtain q sh2 where r: "engine_record (rt_policy rt) HOOKS
      [(HOST_REPORT, host_report ob (now_unix_ms (clk (sh_reads sh))))] (sh\<lparr>sh_reads := sh_reads sh + 1\<rparr>) = (q, sh2)"
    by fastforce
  from engine_record_inv [of "sh\<lparr>sh_reads := sh_reads sh + 1\<rparr>" "rt_policy rt"
      "[(HOST_REPORT, host_report ob (now_unix_ms (clk (sh_reads sh))))]"] i r
  have "sys_inv sh2" by simp
  then show ?thesis using r pend.inv_add by (simp add: report_ui_abuse_def read_clock_def sys_inv_def)
qed

lemma host_call_inv: "sys_inv sh \<Longrightarrow> sys_inv (host_call_step clk rt call sh)"
  by (cases call) (simp_all add: deny_inv report_inv)

lemma host_calls_inv: "sys_inv sh \<Longrightarrow> sys_inv (fold (host_call_step clk rt) calls sh)"
  by (induction calls arbitrary: sh) (simp_all add: host_call_inv)

lemma bind_callback_inv:
  "bind_callback clk rt cb = Some f \<Longrightarrow> sys_inv (snd x) \<Longrightarrow> sys_inv (snd (snd (f fd x)))"
  by (auto simp: bind_callback_def host_calls_inv split: prod.splits)

lemma slot_inv:
  "sys_inv sh \<Longrightarrow> sys_inv (sh\<lparr>sh_state := snd (state_record (sh_state sh) d oc)\<rparr>)"
  by (simp add: sys_inv_def)

interpretation facade_worker:
  worker_invariant pol HOOKS "bind_callback clk rt cb" "\<lambda>x. sys_inv (snd x)" for pol clk rt cb
proof
  show "sys_inv (snd (h, sh\<lparr>sh_process := hk_full_scan_complete HOOKS (sh_process sh)\<rparr>))"
    if "sys_inv (snd (h, sh))" for h :: 'a and sh
    using that by (simp add: sys_inv_def mark_full_scan_complete_def)
  show "sys_inv (snd (h, sh\<lparr>sh_pending := snd (pending_take (sh_pending sh))\<rparr>))"
    if "sys_inv (snd (h, sh))" for h :: 'a and sh
    using that by (simp add: sys_inv_def reports_inv_take)
qed (auto simp: engine_record_inv slot_inv dest: bind_callback_inv)

section \<open>Steps\<close>

datatype 'h system =
  Idle process nat 'h
| Live runtime "('h, process) worker" 'h sys
| Gone

inductive sys_step :: "clock \<Rightarrow> 'h system \<Rightarrow> 'h system \<Rightarrow> bool" for clk where
  start_ok: "start clk si b h p n = StartOk rt wk h' sh \<Longrightarrow> sys_step clk (Idle p n h) (Live rt wk h' sh)"
| start_err: "start clk si b h p n = StartErr e p' h' \<Longrightarrow> sys_step clk (Idle p n h) (Idle p' n' h')"
| start_panic: "start clk si b h p n = StartPanic p' h' \<Longrightarrow> sys_step clk (Idle p n h) (Idle p' n' h')"
| start_abort: "start clk si b h p n = StartAborted p' h' \<Longrightarrow> sys_step clk (Idle p n h) Gone"
| start_again: "start clk si b h (sh_process sh) (sh_reads sh) = StartErr e p' h' \<Longrightarrow>
    sys_step clk (Live rt wk h sh) (Live rt wk h' (sh\<lparr>sh_process := p'\<rparr>))"
| host: "sys_step clk (Live rt wk h sh) (Live rt wk h (host_call_step clk rt call sh))"
| cycle: "run_once clk wk env (h, sh) = Continues (h', sh') \<Longrightarrow>
    sys_step clk (Live rt wk h sh) (Live rt (snd (next_wait wk)) h' sh')"
| crash: "run_once clk wk env (h, sh) = Aborted (h', sh') \<Longrightarrow> sys_step clk (Live rt wk h sh) Gone"

inductive_cases sys_step_GoneE: "sys_step clk Gone s"

inductive reachable :: "clock \<Rightarrow> 'h system \<Rightarrow> bool" for clk where
  init: "reachable clk (Idle process_init 0 h)"
| step: "reachable clk s \<Longrightarrow> sys_step clk s s' \<Longrightarrow> reachable clk s'"

definition our_worker :: "clock \<Rightarrow> runtime \<Rightarrow> ('h, process) worker \<Rightarrow> bool" where
  "our_worker clk rt wk \<longleftrightarrow> wk_policy wk = rt_policy rt \<and> wk_hooks wk = HOOKS
     \<and> (\<exists>cb. wk_callback wk = bind_callback clk rt cb)"

fun system_inv :: "clock \<Rightarrow> 'h system \<Rightarrow> bool" where
  "system_inv clk (Idle p n h) \<longleftrightarrow> p = process_init"
| "system_inv clk (Live rt wk h sh) \<longleftrightarrow> sys_inv sh \<and> our_worker clk rt wk"
| "system_inv clk Gone \<longleftrightarrow> True"

section \<open>Starts\<close>

lemma start_when_running:
  "pw_running p \<Longrightarrow> start clk si b h p n = StartErr AlreadyRunning p h"
  by (simp add: start_def claim_slot_def)

lemma start_fails_clean:
  assumes "\<not> pw_running p"
  shows "start clk si b h p n = StartErr e p' h' \<Longrightarrow> p' = process_init \<and> e \<noteq> AlreadyRunning"
    and "start clk si b h p n = StartPanic p' h' \<Longrightarrow> p' = process_init"
proof -
  have na: "start_scan si b platform now \<noteq> Returns (Inl AlreadyRunning)" for platform now
    by (auto simp: start_scan_def backend_build_def resolve_material_def Let_def exec_bind_case
        simp del: exec_bind_Returns split: sum.splits if_splits exec.splits)
  have "start_claimed clk si b h q n \<noteq> StartErr AlreadyRunning q' h''" for q q' h''
    using na by (auto simp: start_claimed_def start_validate_def start_launch_def Let_def
        split: sum.splits exec.splits if_splits option.splits prod.splits flow.splits)
  then show "start clk si b h p n = StartErr e p' h' \<Longrightarrow> p' = process_init \<and> e \<noteq> AlreadyRunning"
    using assms by (auto simp: start_def claim_slot_def abandon_start_init split: start_result.splits)
  show "start clk si b h p n = StartPanic p' h' \<Longrightarrow> p' = process_init"
    using assms by (auto simp: start_def claim_slot_def abandon_start_init split: start_result.splits)
qed

lemma start_ok_inv:
  assumes "start clk si b h process_init n = StartOk rt wk h' sh"
  shows "sys_inv sh \<and> our_worker clk rt wk"
proof -
  let ?p = "process_init\<lparr>pw_running := True\<rparr>"
  from assms have "start_claimed clk si b h ?p n = StartOk rt wk h' sh"
    by (auto simp: start_def claim_slot_def process_init_def split: start_result.splits)
  then obtain identity ds outcomes
    where l: "start_launch clk si b identity ds outcomes h
        (set_deny_until_full_scan (bd_deny_until_full_scan b) ?p) (n + 1) = StartOk rt wk h' sh"
    by (auto simp: start_claimed_def Let_def split: sum.splits exec.splits)
  let ?sh0 = "\<lparr>sh_state = state_new INVENTORY,
    sh_process = set_deny_until_full_scan (bd_deny_until_full_scan b) ?p,
    sh_pending = reports_new, sh_reads = n + 1\<rparr>"
  obtain q sh1 where r: "engine_record (bd_policy b) HOOKS outcomes ?sh0 = (q, sh1)" by fastforce
  have "sys_inv ?sh0"
    by (simp add: sys_inv_def process_init_def set_deny_until_full_scan_def state_new_def
        known_detectors_def slot_new_def comp_def cs_new_def cs_wf_def pend.inv_empty cs_contains_bit)
  with engine_record_inv [of ?sh0 "bd_policy b" outcomes] r have i: "sys_inv (sh1\<lparr>sh_reads := n + 1 + 1\<rparr>)" by simp
  let ?rt = "\<lparr>rt_identity = identity, rt_policy = bd_policy b\<rparr>"
  let ?wk = "worker_new (bd_policy b) ds (bind_callback clk ?rt (bd_callback b)) HOOKS (clk (n + 1))"
  from l r have e: "rt = ?rt" "wk = ?wk" "dispatch clk ?wk q (h, sh1\<lparr>sh_reads := n + 1 + 1\<rparr>) = Continues (h', sh)"
    by (auto simp: start_launch_def Let_def split: option.splits flow.splits prod.splits if_splits)
  have "facade_worker.ours (bd_policy b) clk ?rt (bd_callback b) ?wk"
    by (simp add: facade_worker.ours_def worker_new_def)
  from facade_worker.dispatch_inv [OF this, of "(h, sh1\<lparr>sh_reads := n + 1 + 1\<rparr>)" clk q] i e(3)
  have "sys_inv sh" by (simp add: facade_worker.flow_inv_def)
  moreover have "our_worker clk rt wk"
    unfolding e(1,2) our_worker_def by (auto simp: worker_new_def)
  ultimately show ?thesis by simp
qed

section \<open>Reachable states\<close>

lemma run_once_sys_inv:
  assumes "our_worker clk rt wk" and "sys_inv sh" and "run_once clk wk env (h, sh) = Continues (h', sh')"
  shows "sys_inv sh'"
proof -
  from assms(1) obtain cb where "facade_worker.ours (rt_policy rt) clk rt cb wk"
    by (auto simp: our_worker_def facade_worker.ours_def)
  from facade_worker.run_once_inv [OF this, of "(h, sh)" clk env] assms(2,3) show ?thesis
    by (simp add: facade_worker.flow_inv_def)
qed

lemma next_wait_our_worker: "our_worker clk rt wk \<Longrightarrow> our_worker clk rt (snd (next_wait wk))"
  by (simp add: our_worker_def next_wait_def Let_def)

lemma start_again_same:
  "sys_inv sh \<Longrightarrow> start clk si b h (sh_process sh) n = StartErr e p' h' \<Longrightarrow> p' = sh_process sh"
  using start_when_running [of "sh_process sh" clk si b h n] by (simp add: sys_inv_def)

lemma sys_step_inv: "sys_step clk s s' \<Longrightarrow> system_inv clk s \<Longrightarrow> system_inv clk s'"
proof (induction rule: sys_step.induct)
  case (start_again si b h sh e p' h' rt wk)
  then have "p' = sh_process sh" using start_again_same by auto
  with start_again show ?case by simp
qed (auto simp: start_ok_inv host_call_inv next_wait_our_worker run_once_sys_inv
     dest: start_fails_clean(1) [rotated] start_fails_clean(2) [rotated] simp: process_init_def)

lemma reachable_inv: "reachable clk s \<Longrightarrow> system_inv clk s"
  by (induction rule: reachable.induct) (auto dest: sys_step_inv)

lemma reachable_Live: "reachable clk (Live rt wk h sh) \<Longrightarrow> sys_inv sh \<and> our_worker clk rt wk"
  using reachable_inv by fastforce

text \<open>What no later step undoes.\<close>

definition grows :: "sys \<Rightarrow> sys \<Rightarrow> bool" where
  "grows a b \<longleftrightarrow>
     (\<forall>c. cs_contains (pw_latched (sh_process a)) c \<longrightarrow> cs_contains (pw_latched (sh_process b)) c)
   \<and> (\<forall>c. cs_contains (st_host_latched (sh_state a)) c \<longrightarrow> cs_contains (st_host_latched (sh_state b)) c)
   \<and> (pw_full_scan_done (sh_process a) \<longrightarrow> pw_full_scan_done (sh_process b))
   \<and> pw_deny_until_full_scan (sh_process b) = pw_deny_until_full_scan (sh_process a)
   \<and> pw_running (sh_process b) = pw_running (sh_process a)"

lemma grows_refl [simp]: "grows a a"
  by (simp add: grows_def)

lemma grows_trans: "grows a b \<Longrightarrow> grows b c \<Longrightarrow> grows a c"
  by (simp add: grows_def)

lemma member_fold_latch:
  "cs_contains (pw_latched (fold latch cs p)) c \<longleftrightarrow> c \<in> set cs \<or> cs_contains (pw_latched p) c"
  using facade.word_fold [of cs p] by (simp add: cs.member_fold)

lemma grows_record: "grows sh (snd (engine_record pol HOOKS outcomes sh))"
proof -
  obtain q sh' where r: "engine_record pol HOOKS outcomes sh = (q, sh')" by fastforce
  show ?thesis
    using engine_record_parts [OF r] by (simp add: r grows_def member_fold_latch)
qed

lemma grows_deny: "grows sh (deny c sh)"
  by (simp add: grows_def deny_def latch_word latch_by_host_def cs_member)

lemma grows_report: "grows sh (report_ui_abuse clk rt ob sh)"
proof -
  obtain q sh2 where r: "engine_record (rt_policy rt) HOOKS
      [(HOST_REPORT, host_report ob (now_unix_ms (clk (sh_reads sh))))] (sh\<lparr>sh_reads := sh_reads sh + 1\<rparr>) = (q, sh2)"
    by fastforce
  with grows_record [of "sh\<lparr>sh_reads := sh_reads sh + 1\<rparr>" "rt_policy rt"
      "[(HOST_REPORT, host_report ob (now_unix_ms (clk (sh_reads sh))))]"]
  have "grows sh sh2" by (simp add: grows_def)
  then show ?thesis using r by (simp add: report_ui_abuse_def read_clock_def grows_def)
qed

lemma grows_host_call: "grows sh (host_call_step clk rt call sh)"
  by (cases call) (simp_all add: grows_deny grows_report)

lemma grows_host_calls: "grows sh (fold (host_call_step clk rt) calls sh)"
  by (induction calls arbitrary: sh) (auto intro: grows_trans grows_host_call)

interpretation facade_growth:
  worker_invariant pol HOOKS "bind_callback clk rt cb" "\<lambda>x. grows sh0 (snd x)" for pol clk rt cb sh0
proof
  show "grows sh0 (snd (snd (f fd x)))" if "bind_callback clk rt cb = Some f" "grows sh0 (snd x)"
    for f fd and x :: "'a \<times> sys"
    using that grows_trans [OF _ grows_host_calls]
    by (auto simp: bind_callback_def split: prod.splits)
  show "grows sh0 (snd (h, snd (engine_record pol HOOKS outcomes sh)))" if "grows sh0 (snd (h, sh))"
    for h :: 'a and sh outcomes
    using that grows_record grows_trans by auto
qed (auto simp: grows_def mark_full_scan_complete_def)

lemma run_once_grows:
  assumes "our_worker clk rt wk" and "run_once clk wk env (h, sh) = Continues (h', sh')"
  shows "grows sh sh'"
proof -
  from assms(1) obtain cb where "facade_growth.ours (rt_policy rt) clk rt cb wk"
    by (auto simp: our_worker_def facade_growth.ours_def)
  from facade_growth.run_once_inv [OF this, of sh "(h, sh)" clk env] assms(2) show ?thesis
    by (simp add: facade_growth.flow_inv_def)
qed

section \<open>The sections of a cycle\<close>

text \<open>
  What the worker, a callback or a host thread does in one go: record outcomes under the state lock,
  overwrite one slot under it, read the clock, add to or empty the queue under its lock, latch a denial
  of the host under the state lock, and set the word of the completed scan.  The sections of several
  threads come in any order.
\<close>

inductive locked_section :: "policy \<Rightarrow> sys \<Rightarrow> sys \<Rightarrow> bool" for pol where
  recorded: "locked_section pol sh (snd (engine_record pol HOOKS outcomes sh))"
| overwritten: "locked_section pol sh (sh\<lparr>sh_state := snd (state_record (sh_state sh) d oc)\<rparr>)"
| clock_read: "locked_section pol sh (sh\<lparr>sh_reads := n\<rparr>)"
| queued: "locked_section pol sh (sh\<lparr>sh_pending := pending_add q (sh_pending sh)\<rparr>)"
| taken: "locked_section pol sh (sh\<lparr>sh_pending := snd (pending_take (sh_pending sh))\<rparr>)"
| host_denied: "locked_section pol sh (deny c sh)"
| completed: "locked_section pol sh (sh\<lparr>sh_process := mark_full_scan_complete (sh_process sh)\<rparr>)"

lemma locked_section_keeps: "locked_section pol sh sh' \<Longrightarrow> sys_inv sh \<Longrightarrow> sys_inv sh' \<and> grows sh sh'"
proof (induction rule: locked_section.induct)
  case (completed sh)
  then show ?case by (simp add: sys_inv_def grows_def mark_full_scan_complete_def)
next
  case (queued sh q)
  then show ?case using pend.inv_add by (simp add: sys_inv_def grows_def)
next
  case (taken sh)
  then show ?case by (simp add: sys_inv_def grows_def reports_inv_take)
next
  case (overwritten sh d oc)
  then show ?case using slot_inv by (simp add: grows_def)
qed (simp_all add: engine_record_inv deny_inv grows_record grows_deny, simp add: grows_def)

text \<open>Whatever the order of the sections of all threads, the invariant holds and no protection is undone.\<close>

lemma sections_keep: "rtranclp (locked_section pol) sh sh' \<Longrightarrow> sys_inv sh \<Longrightarrow> sys_inv sh' \<and> grows sh sh'"
  by (induction rule: rtranclp_induct) (auto dest: locked_section_keeps intro: grows_trans)

lemma host_call_sections: "rtranclp (locked_section (rt_policy rt)) sh (host_call_step clk rt call sh)"
proof (cases call)
  case (CallReport ob)
  let ?sh = "sh\<lparr>sh_reads := sh_reads sh + 1\<rparr>"
  obtain q sh2 where r: "engine_record (rt_policy rt) HOOKS
      [(HOST_REPORT, host_report ob (now_unix_ms (clk (sh_reads sh))))] ?sh = (q, sh2)"
    by fastforce
  have "locked_section (rt_policy rt) ?sh sh2" using recorded [of "rt_policy rt" ?sh] r by (metis snd_conv)
  with queued [of "rt_policy rt" sh2 q] clock_read [of "rt_policy rt" sh "sh_reads sh + 1"] r CallReport
  show ?thesis
    by (auto simp: report_ui_abuse_def read_clock_def intro: rtranclp.rtrancl_into_rtrancl)
qed (auto intro: host_denied)

lemma host_calls_sections:
  "rtranclp (locked_section (rt_policy rt)) sh (fold (host_call_step clk rt) calls sh)"
proof (induction calls arbitrary: sh)
  case (Cons call calls)
  show ?case using rtranclp_trans [OF host_call_sections Cons.IH] by simp
qed simp

interpretation facade_sections:
  worker_invariant "rt_policy rt" HOOKS "bind_callback clk rt cb"
    "\<lambda>x. rtranclp (locked_section (rt_policy rt)) sh0 (snd x)" for clk rt cb sh0
proof
  show "rtranclp (locked_section (rt_policy rt)) sh0 (snd (snd (f fd x)))"
    if "bind_callback clk rt cb = Some f" "rtranclp (locked_section (rt_policy rt)) sh0 (snd x)"
    for f fd and x :: "'a \<times> sys"
    using that rtranclp_trans [OF _ host_calls_sections]
    by (auto simp: bind_callback_def split: prod.splits)
qed (auto intro: rtranclp.rtrancl_into_rtrancl locked_section.intros)

lemma cycle_sections:
  assumes "our_worker clk rt wk" and "run_once clk wk env (h, sh) = Continues (h', sh')"
  shows "rtranclp (locked_section (rt_policy rt)) sh sh'"
proof -
  from assms(1) obtain cb where "facade_sections.ours rt clk cb wk"
    by (auto simp: our_worker_def facade_sections.ours_def)
  from facade_sections.run_once_inv [OF this, of sh "(h, sh)" clk env] assms(2) show ?thesis
    by (simp add: facade_sections.flow_inv_def)
qed

lemma run_once_marks:
  assumes "wk_hooks wk = HOOKS" and "run_once clk wk env x = Continues (h', sh')"
  shows "pw_full_scan_done (sh_process sh')"
  using assms by (auto simp: run_once_def mark_full_scan_complete_def split: prod.splits flow.splits)

inductive live_steps :: "clock \<Rightarrow> 'h system \<Rightarrow> 'h system \<Rightarrow> bool" for clk where
  none: "live_steps clk s s"
| more: "live_steps clk s s' \<Longrightarrow> sys_step clk s' s'' \<Longrightarrow> live_steps clk s s''"

lemma sys_step_grows:
  "sys_step clk s s' \<Longrightarrow> s = Live rt wk h sh \<Longrightarrow> system_inv clk s \<Longrightarrow>
     s' = Gone \<or> (\<exists>wk' h' sh'. s' = Live rt wk' h' sh' \<and> grows sh sh')"
proof (induction rule: sys_step.induct)
  case (start_again si b h2 sh2 e p' h' rt2 wk2)
  then have "p' = sh_process sh2" using start_again_same by auto
  with start_again show ?case by simp
qed (auto simp: grows_host_call intro: run_once_grows)

lemma live_steps_grow:
  "live_steps clk s s' \<Longrightarrow> s = Live rt wk h sh \<Longrightarrow> system_inv clk s \<Longrightarrow>
     system_inv clk s' \<and> (s' = Gone \<or> (\<exists>wk' h' sh'. s' = Live rt wk' h' sh' \<and> grows sh sh'))"
proof (induction rule: live_steps.induct)
  case (none s)
  then show ?case by simp
next
  case (more s s' s'')
  then have inv: "system_inv clk s''" using sys_step_inv by blast
  from more consider "s' = Gone" | wk' h' sh' where "s' = Live rt wk' h' sh'" "grows sh sh'" by blast
  then show ?case
  proof cases
    case 1
    with more.hyps(2) show ?thesis by (auto elim: sys_step_GoneE)
  next
    case 2
    with more have "system_inv clk (Live rt wk' h' sh')" by blast
    from sys_step_grows [OF more.hyps(2) [unfolded 2(1)] refl this] 2(2) inv show ?thesis
      using grows_trans by blast
  qed
qed

text \<open>
  The words after a successful start: the initial actions cannot complete a scan, because
  nothing but the worker's cycle marks one.
\<close>

definition scan_words :: "bool \<Rightarrow> sys \<Rightarrow> bool" where
  "scan_words b sh \<longleftrightarrow> pw_deny_until_full_scan (sh_process sh) = b \<and> \<not> pw_full_scan_done (sh_process sh)"

lemma scan_words_record: "scan_words b sh \<Longrightarrow> scan_words b (snd (engine_record pol HOOKS outcomes sh))"
proof -
  obtain q sh' where r: "engine_record pol HOOKS outcomes sh = (q, sh')" by fastforce
  show "scan_words b sh \<Longrightarrow> scan_words b (snd (engine_record pol HOOKS outcomes sh))"
    using engine_record_parts(2) [OF r] by (simp add: r scan_words_def)
qed

lemma scan_words_host_call: "scan_words b sh \<Longrightarrow> scan_words b (host_call_step clk rt call sh)"
proof (cases call)
  case (CallReport ob)
  assume w: "scan_words b sh"
  obtain q sh2 where r: "engine_record (rt_policy rt) HOOKS
      [(HOST_REPORT, host_report ob (now_unix_ms (clk (sh_reads sh))))] (sh\<lparr>sh_reads := sh_reads sh + 1\<rparr>) = (q, sh2)"
    by fastforce
  have "scan_words b (sh\<lparr>sh_reads := sh_reads sh + 1\<rparr>)" using w by (simp add: scan_words_def)
  from scan_words_record [OF this] r have "scan_words b sh2" by (metis snd_conv)
  with r CallReport show ?thesis
    by (simp add: report_ui_abuse_def read_clock_def scan_words_def)
qed (simp add: scan_words_def deny_def)

lemma scan_words_host_calls: "scan_words b sh \<Longrightarrow> scan_words b (fold (host_call_step clk rt) calls sh)"
  by (induction calls arbitrary: sh) (simp_all add: scan_words_host_call)

lemma scan_words_invoke:
  assumes "scan_words b (snd x)" and "wk_callback wk = bind_callback clk rt cb"
  shows "scan_words b (snd (invoke clk wk f x))"
proof (cases cb)
  case None
  with assms show ?thesis by (simp add: invoke_def bind_callback_def)
next
  case (Some g)
  obtain u h calls where g: "g f x = (u, h, calls)" by (metis prod_cases3)
  have "scan_words b (fold (host_call_step clk rt) calls (snd x))"
    by (rule scan_words_host_calls [OF assms(1)])
  with assms(2) Some g show ?thesis
    by (simp add: invoke_def bind_callback_def read_clock_def scan_words_def Let_def)
qed

lemma scan_words_dispatch:
  "scan_words b (snd x) \<Longrightarrow> wk_callback wk = bind_callback clk rt cb \<Longrightarrow>
     dispatch clk wk q x = Continues y \<Longrightarrow> scan_words b (snd y)"
proof (induction q arbitrary: x)
  case (Cons r q)
  obtain f a where r: "r = (f, a)" by fastforce
  show ?case
    using Cons.prems Cons.IH [of x] Cons.IH [of "invoke clk wk f x"] scan_words_invoke [of b x wk clk rt cb f]
    by (cases a) (simp_all add: r)
qed simp

lemma start_ok_words:
  assumes "start clk si b h process_init n = StartOk rt wk h' sh"
  shows "pw_deny_until_full_scan (sh_process sh) = bd_deny_until_full_scan b
    \<and> \<not> pw_full_scan_done (sh_process sh)"
proof -
  let ?p = "process_init\<lparr>pw_running := True\<rparr>"
  from assms have "start_claimed clk si b h ?p n = StartOk rt wk h' sh"
    by (auto simp: start_def claim_slot_def process_init_def split: start_result.splits)
  then obtain identity ds outcomes
    where l: "start_launch clk si b identity ds outcomes h
        (set_deny_until_full_scan (bd_deny_until_full_scan b) ?p) (n + 1) = StartOk rt wk h' sh"
    by (auto simp: start_claimed_def Let_def split: sum.splits exec.splits)
  let ?sh0 = "\<lparr>sh_state = state_new INVENTORY,
    sh_process = set_deny_until_full_scan (bd_deny_until_full_scan b) ?p,
    sh_pending = reports_new, sh_reads = n + 1\<rparr>"
  obtain q sh1 where r: "engine_record (bd_policy b) HOOKS outcomes ?sh0 = (q, sh1)" by fastforce
  have "scan_words (bd_deny_until_full_scan b) ?sh0"
    by (simp add: scan_words_def process_init_def set_deny_until_full_scan_def)
  from scan_words_record [OF this, of "bd_policy b" outcomes] r
  have w: "scan_words (bd_deny_until_full_scan b) (sh1\<lparr>sh_reads := n + 1 + 1\<rparr>)"
    by (simp add: scan_words_def)
  let ?rt = "\<lparr>rt_identity = identity, rt_policy = bd_policy b\<rparr>"
  let ?wk = "worker_new (bd_policy b) ds (bind_callback clk ?rt (bd_callback b)) HOOKS (clk (n + 1))"
  from l r have "dispatch clk ?wk q (h, sh1\<lparr>sh_reads := n + 1 + 1\<rparr>) = Continues (h', sh)"
    by (auto simp: start_launch_def Let_def split: option.splits flow.splits prod.splits if_splits)
  from scan_words_dispatch [OF _ _ this, of "bd_deny_until_full_scan b" ?rt "bd_callback b"] w
  show ?thesis by (simp add: scan_words_def worker_new_def)
qed

text \<open>
  A full cycle turns a qualifying finding of the scan into a latch of its category, which the
  callbacks of the cycle cannot undo.
\<close>

lemma cycle_latches:
  assumes w: "our_worker clk rt wk" and i: "sys_inv sh" and r: "run_once clk wk env (h, sh) = Continues (h', sh')"
    and d: "d \<in> set INVENTORY"
    and found: "\<And>now. \<exists>f. (d, Finding f) \<in> set (scan_all (wk_detectors wk) env now)
      \<and> f_category f = c \<and> qualifying_action (wk_policy wk) f = Some Deny"
  shows "cs_contains (pw_latched (sh_process sh')) c"
proof -
  from w obtain cb where ours: "facade_worker.ours (rt_policy rt) clk rt cb wk" "facade_growth.ours (rt_policy rt) clk rt cb wk"
    and hooks: "wk_hooks wk = HOOKS"
    by (auto simp: our_worker_def facade_worker.ours_def facade_growth.ours_def)
  obtain waiting rest where t: "pending_take (sh_pending sh) = (waiting, rest)" by fastforce
  have "sys_inv (sh\<lparr>sh_pending := rest\<rparr>)"
    using facade_worker.inv_take [of h sh] i t by simp
  from facade_worker.dispatch_inv [OF ours(1), of "(h, sh\<lparr>sh_pending := rest\<rparr>)" clk waiting] this r t
  obtain h1 sh1 where one: "dispatch clk wk waiting (h, sh\<lparr>sh_pending := rest\<rparr>) = Continues (h1, sh1)" "sys_inv sh1"
    by (auto simp: run_once_def facade_worker.flow_inv_def split: flow.splits prod.splits)
  define now where "now = now_unix_ms (clk (sh_reads sh1))"
  obtain q sh2 where rec: "engine_record (wk_policy wk) HOOKS (scan_all (wk_detectors wk) env now)
      (sh1\<lparr>sh_reads := sh_reads sh1 + 1\<rparr>) = (q, sh2)" by fastforce
  note parts = engine_record_parts [OF rec]
  obtain f where f: "(d, Finding f) \<in> set (scan_all (wk_detectors wk) env now)" "f_category f = c"
    "qualifying_action (wk_policy wk) f = Some Deny" using found by blast
  have "known_detectors (sh_state sh1) = INVENTORY" using one(2) by (simp add: sys_inv_def)
  moreover have "\<exists>k \<in> set INVENTORY. det_eq k d" using d det_eq_refl by blast
  ultimately have "(f, Deny) \<in> set q"
    using f unfolding parts(1) qualified_of_def List.map_filter_def
    by (auto intro!: image_eqI [of _ _ "(d, Finding f)"])
  then have "c \<in> set (denied q)" using f(2) by (force simp: denied_def)
  then have latched: "cs_contains (pw_latched (sh_process sh2)) c"
    using parts(2) by (simp add: member_fold_latch)
  obtain h2 sh3 where two: "dispatch clk wk q (h1, sh2) = Continues (h2, sh3)"
      "sh' = sh3\<lparr>sh_process := mark_full_scan_complete (sh_process sh3)\<rparr>"
    using r t one(1) rec hooks
    by (auto simp: run_once_def read_clock_def apply_outcomes_def now_def split: flow.splits prod.splits)
  have "grows sh2 sh3"
    using facade_growth.dispatch_inv [OF ours(2), of sh2 "(h1, sh2)" clk q] two(1)
    by (simp add: facade_growth.flow_inv_def grows_refl)
  with latched two(2) show ?thesis by (simp add: grows_def mark_full_scan_complete_def)
qed

section \<open>Properties\<close>

text \<open>
  C1.  A denial is always explained.  In every reachable state of a live runtime, whatever starts,
  host calls, callbacks and worker cycles led there, \<open>ensure_allowed\<close> denies with exactly the
  categories that the snapshot shows as latched, the snapshot shows none when it does not deny
  for a latch, the host's own latches are among them, and the snapshot holds exactly one entry
  for each detector of the inventory.
\<close>

theorem denial_explained:
  assumes "reachable clk (Live rt wk h sh)"
  shows "(case ensure_allowed (sh_process sh) of
       Inr u \<Rightarrow> (\<forall>c. \<not> cs_contains (sn_latched (handle_snapshot sh)) c)
     | Inl d \<Rightarrow>
         if dn_reason d = Latched
         then dn_categories d = sn_latched (handle_snapshot sh) \<and> (\<exists>c. cs_contains (dn_categories d) c)
         else (\<forall>c. \<not> cs_contains (sn_latched (handle_snapshot sh)) c)
           \<and> pw_deny_until_full_scan (sh_process sh) \<and> \<not> first_full_scan_complete sh)
   \<and> (\<forall>c. cs_contains (sn_host_latched (handle_snapshot sh)) c \<longrightarrow>
        cs_contains (sn_latched (handle_snapshot sh)) c)
   \<and> map ds_detector (sn_detectors (handle_snapshot sh)) = INVENTORY"
proof -
  have i: "sys_inv sh" using reachable_Live [OF assms] by simp
  have e: "cs_is_empty (st_latched (sh_state sh)) \<longleftrightarrow> (\<forall>c. \<not> cs_contains (st_latched (sh_state sh)) c)"
    using i cs_is_empty_iff by (simp add: sys_inv_def)
  have d: "map ds_detector (sn_detectors (handle_snapshot sh)) = INVENTORY"
    using i by (simp add: handle_snapshot_def state_snapshot_def slot_to_public_def comp_def
        sys_inv_def known_detectors_def)
  show ?thesis
    using i e d by (auto simp: ensure_allowed_def Let_def handle_snapshot_def state_snapshot_def
        latched_categories_def sys_inv_def denied_latched_def denied_incomplete_coverage_def
        denies_until_full_scan_def full_scan_complete_def first_full_scan_complete_def)
qed

lemma sample_reachable:
  "\<exists>rt wk sh. reachable (\<lambda>_. None) (Live rt wk () sh)"
proof -
  obtain rt wk sh where s: "start (\<lambda>_. None) sample_inputs builder_new () process_init 0 = StartOk rt wk () sh"
    using sample_start_ok by blast
  show ?thesis using reachable.step [OF reachable.init sys_step.start_ok [OF s]] by blast
qed

theorem denial_explained_witness:
  "\<exists>rt wk sh. reachable (\<lambda>_. None) (Live rt wk () sh)
     \<and> map ds_detector (sn_detectors (handle_snapshot sh)) = INVENTORY"
proof -
  obtain rt wk sh where r: "reachable (\<lambda>_. None) (Live rt wk () sh)" using sample_reachable by blast
  with denial_explained [OF r] show ?thesis by blast
qed

text \<open>
  C2.  Protection is never taken back.  From any reachable live state, no sequence of further
  starts, host calls, callbacks and worker cycles clears a latch, forgets that the host set it,
  reopens the window before the first full scan, changes the host's choice about that window, or
  ends the runtime other than by stopping the process; in particular a denial for a latch is
  permanent.
\<close>

theorem protection_is_permanent:
  assumes "reachable clk (Live rt wk h sh)" and "live_steps clk (Live rt wk h sh) s"
  shows "s = Gone \<or> (\<exists>wk' h' sh'. s = Live rt wk' h' sh'
    \<and> (\<forall>c. cs_contains (sn_latched (handle_snapshot sh)) c \<longrightarrow>
           (\<exists>d. ensure_allowed (sh_process sh') = Inl d \<and> cs_contains (dn_categories d) c))
    \<and> (\<forall>c. cs_contains (sn_host_latched (handle_snapshot sh)) c \<longrightarrow>
           cs_contains (sn_host_latched (handle_snapshot sh')) c)
    \<and> (first_full_scan_complete sh \<longrightarrow> first_full_scan_complete sh')
    \<and> pw_deny_until_full_scan (sh_process sh') = pw_deny_until_full_scan (sh_process sh))"
proof -
  have i: "sys_inv sh" using reachable_Live [OF assms(1)] by simp
  from live_steps_grow [OF assms(2) HOL.refl] reachable_inv [OF assms(1)]
  consider "s = Gone"
    | wk' h' sh' where "s = Live rt wk' h' sh'" "grows sh sh'" "system_inv clk s" by blast
  then show ?thesis
  proof cases
    case 2
    have "\<exists>d. ensure_allowed (sh_process sh') = Inl d \<and> cs_contains (dn_categories d) c"
      if "cs_contains (sn_latched (handle_snapshot sh)) c" for c
    proof -
      have c: "cs_contains (pw_latched (sh_process sh')) c"
        using that i 2(2) by (simp add: grows_def sys_inv_def handle_snapshot_def state_snapshot_def)
      then have "pw_latched (sh_process sh') \<noteq> 0" by (auto simp: cs_contains_bit)
      with c show ?thesis
        by (simp add: ensure_allowed_def Let_def cs_is_empty_def latched_categories_def denied_latched_def)
    qed
    with 2 show ?thesis
      by (auto simp: grows_def handle_snapshot_def state_snapshot_def first_full_scan_complete_def
          full_scan_complete_def)
  qed simp
qed

theorem protection_is_permanent_witness:
  "\<exists>rt wk sh. reachable (\<lambda>_. None) (Live rt wk () sh)
     \<and> live_steps (\<lambda>_. None) (Live rt wk () sh) (Live rt wk () (deny Debugging sh))
     \<and> pw_deny_until_full_scan (sh_process (deny Debugging sh)) = pw_deny_until_full_scan (sh_process sh)"
proof -
  obtain rt wk sh where r: "reachable (\<lambda>_. None) (Live rt wk () sh)" using sample_reachable by blast
  have "sys_step (\<lambda>_. None) (Live rt wk () sh) (Live rt wk () (deny Debugging sh))"
    using sys_step.host [of "\<lambda>_. None" rt wk "()" sh "CallDeny Debugging"] by simp
  then have l: "live_steps (\<lambda>_. None) (Live rt wk () sh) (Live rt wk () (deny Debugging sh))"
    using live_steps.none live_steps.more by blast
  from protection_is_permanent [OF r l] r l show ?thesis by auto
qed

text \<open>
  C3.  A start is all or nothing.  A start in a process that already runs a runtime changes no
  process word and reports that it runs; a start that fails for any other reason, or unwinds at
  any point, even after it latched categories and ran callbacks, leaves every process word as a
  fresh process has it, so that a corrected retry starts clean; and a successful start claims the
  slot and leaves the runtime in a state that satisfies the invariant.
\<close>

theorem start_all_or_nothing:
  "(pw_running p \<longrightarrow> start clk si b h p n = StartErr AlreadyRunning p h)
   \<and> (\<not> pw_running p \<longrightarrow>
       (case start clk si b h p n of
          StartErr e p' h' \<Rightarrow> e \<noteq> AlreadyRunning \<and> p' = process_init
        | StartPanic p' h' \<Rightarrow> p' = process_init
        | StartAborted p' h' \<Rightarrow> True
        | StartOk rt wk h' sh \<Rightarrow> p = process_init \<longrightarrow> sys_inv sh \<and> pw_running (sh_process sh)))"
  using start_when_running [of p clk si b h n] start_fails_clean [of p clk si b h n]
    start_ok_inv [of clk si b h n]
  by (auto simp: sys_inv_def split: start_result.splits)

theorem start_all_or_nothing_witness:
  "start (\<lambda>_. None) sample_inputs builder_new () (process_init\<lparr>pw_running := True\<rparr>) 0
     = StartErr AlreadyRunning (process_init\<lparr>pw_running := True\<rparr>) ()
   \<and> pw_running (process_init\<lparr>pw_running := True\<rparr>)"
  using start_all_or_nothing [of "process_init\<lparr>pw_running := True\<rparr>"] by simp

text \<open>The finding that a host report makes.\<close>

definition ui_finding :: "ui_observation \<Rightarrow> u64 \<Rightarrow> finding" where
  "ui_finding ob now = finding_new HOST_REPORT (case ob of Overlay \<Rightarrow> Medium | ScreenCapture \<Rightarrow> Low)
     (InterfaceObserved (bounded_text_new (ui_detail ob))) now"

lemma host_report_finding: "host_report ob now = Finding (ui_finding ob now)"
  by (cases ob) (simp_all add: host_report_def ui_finding_def)

lemma ui_finding_category: "f_category (ui_finding ob now) = UiAbuse"
  by (simp add: ui_finding_def HOST_REPORT_def detector_new_def)

lemma qualified_host_report:
  "qualified_of pol INVENTORY [(HOST_REPORT, host_report ob now)] =
     (case qualifying_action pol (ui_finding ob now) of
        None \<Rightarrow> [] | Some a \<Rightarrow> [(ui_finding ob now, a)])"
proof -
  have "\<exists>k \<in> set INVENTORY. det_eq k HOST_REPORT" by (simp add: INVENTORY_def)
  then show ?thesis
    by (simp add: qualified_of_def host_report_finding List.map_filter_def split: option.splits)
qed

lemma ensure_allowed_latched:
  "cs_contains (pw_latched p) c \<Longrightarrow>
     \<exists>d. ensure_allowed p = Inl d \<and> dn_reason d = Latched \<and> cs_contains (dn_categories d) c"
proof -
  assume c: "cs_contains (pw_latched p) c"
  then have "pw_latched p \<noteq> 0" by (auto simp: cs_contains_bit)
  with c show ?thesis
    by (simp add: ensure_allowed_def Let_def cs_is_empty_def latched_categories_def denied_latched_def)
qed

text \<open>
  C8.  A host call takes effect before it returns.  After \<open>deny\<close> every protected operation is
  denied for that category and the snapshot marks the latch as the host's.  After a
  user-interface report whose finding qualifies for a denial every protected operation is denied
  for that category; the report waits for the worker, behind at most fifteen others, exactly when
  its finding reaches the threshold; and a report that qualifies for no denial latches nothing.
\<close>

theorem host_calls_take_effect:
  fixes ob :: ui_observation and c :: category
  assumes "reachable clk (Live rt wk h sh)"
  defines "f \<equiv> ui_finding ob (now_unix_ms (clk (sh_reads sh)))"
    and "sh' \<equiv> report_ui_abuse clk rt ob sh"
  shows "(\<exists>d. ensure_allowed (sh_process (deny c sh)) = Inl d \<and> dn_reason d = Latched
        \<and> cs_contains (dn_categories d) c)
    \<and> cs_contains (sn_host_latched (handle_snapshot (deny c sh))) c
    \<and> (qualifying_action (rt_policy rt) f = Some Deny \<longrightarrow>
        (\<exists>d. ensure_allowed (sh_process sh') = Inl d \<and> cs_contains (dn_categories d) UiAbuse))
    \<and> (qualifying_action (rt_policy rt) f \<noteq> Some Deny \<longrightarrow>
        pw_latched (sh_process sh') = pw_latched (sh_process sh))
    \<and> reports_abs (sh_pending sh') = take 16 (reports_abs (sh_pending sh)
        @ (case qualifying_action (rt_policy rt) f of None \<Rightarrow> [] | Some a \<Rightarrow> [(f, a)]))"
proof -
  have i: "sys_inv sh" using reachable_Live [OF assms(1)] by simp
  let ?sh1 = "sh\<lparr>sh_reads := sh_reads sh + 1\<rparr>"
  let ?ocs = "[(HOST_REPORT, host_report ob (now_unix_ms (clk (sh_reads sh))))]"
  obtain q sh2 where r: "engine_record (rt_policy rt) HOOKS ?ocs ?sh1 = (q, sh2)" by fastforce
  note parts = engine_record_parts [OF r]
  have q: "q = (case qualifying_action (rt_policy rt) f of None \<Rightarrow> [] | Some a \<Rightarrow> [(f, a)])"
    using parts(1) i unfolding f_def by (simp add: sys_inv_def qualified_host_report)
  have sh': "sh' = sh2\<lparr>sh_pending := pending_add q (sh_pending sh2)\<rparr>"
    using r by (simp add: sh'_def report_ui_abuse_def read_clock_def)
  have lat: "pw_latched (sh_process sh') = pw_latched (fold latch (denied q) (sh_process sh))"
    using parts(2) by (simp add: sh')
  have "\<exists>d. ensure_allowed (sh_process (deny c sh)) = Inl d \<and> dn_reason d = Latched
        \<and> cs_contains (dn_categories d) c"
    by (rule ensure_allowed_latched) (simp add: deny_def latch_word cs_member)
  moreover have "cs_contains (sn_host_latched (handle_snapshot (deny c sh))) c"
    by (simp add: handle_snapshot_def state_snapshot_def deny_def latch_by_host_def cs_member)
  moreover have "\<exists>d. ensure_allowed (sh_process sh') = Inl d \<and> cs_contains (dn_categories d) UiAbuse"
    if "qualifying_action (rt_policy rt) f = Some Deny"
  proof -
    from that q have "cs_contains (pw_latched (sh_process sh')) UiAbuse"
      by (simp add: lat denied_def latch_word cs_member f_def ui_finding_category)
    from ensure_allowed_latched [OF this] show ?thesis by blast
  qed
  moreover have "pw_latched (sh_process sh') = pw_latched (sh_process sh)"
    if "qualifying_action (rt_policy rt) f \<noteq> Some Deny"
    using that q by (auto simp: lat denied_def split: option.splits)
  moreover have "reports_abs (sh_pending sh') = take 16 (reports_abs (sh_pending sh) @ q)"
    using i parts(7) pend.contents_add [of "sh_pending sh" q]
    by (simp add: sh' sys_inv_def most_reports_def)
  ultimately show ?thesis using q by blast
qed

theorem host_calls_take_effect_witness:
  "\<exists>rt wk sh. reachable (\<lambda>_. None) (Live rt wk () sh)
     \<and> (\<exists>d. ensure_allowed (sh_process (deny Virtualization sh)) = Inl d \<and> dn_reason d = Latched
          \<and> cs_contains (dn_categories d) Virtualization)"
proof -
  obtain rt wk sh where r: "reachable (\<lambda>_. None) (Live rt wk () sh)" using sample_reachable by blast
  with host_calls_take_effect [OF r, of Virtualization] show ?thesis by blast
qed

text \<open>
  C9.  The window before the first full scan.  A runtime whose host asked for it denies every
  protected operation after its start until the worker completes a cycle, whatever else happens;
  a completed cycle closes the window, and from then on only a latch denies.
\<close>

theorem deny_until_first_full_scan_window:
  assumes "reachable clk (Live rt wk h sh)"
  shows "(pw_deny_until_full_scan (sh_process sh) \<and> \<not> first_full_scan_complete sh \<longrightarrow>
        ensure_allowed (sh_process sh) \<noteq> Inr ())
    \<and> (run_once clk wk env (h, sh) = Continues (h', sh') \<longrightarrow>
        first_full_scan_complete sh'
        \<and> (ensure_allowed (sh_process sh') = Inr () \<longleftrightarrow>
             (\<forall>c. \<not> cs_contains (sn_latched (handle_snapshot sh')) c)))
    \<and> (start clk si b h0 process_init n = StartOk rt2 wk2 h2 sh2 \<longrightarrow>
        pw_deny_until_full_scan (sh_process sh2) = bd_deny_until_full_scan b
        \<and> \<not> first_full_scan_complete sh2)"
proof (intro conjI impI)
  show "ensure_allowed (sh_process sh) \<noteq> Inr ()"
    if "pw_deny_until_full_scan (sh_process sh) \<and> \<not> first_full_scan_complete sh"
    using that by (auto simp: ensure_allowed_Ok first_full_scan_complete_def full_scan_complete_def)
next
  assume r: "run_once clk wk env (h, sh) = Continues (h', sh')"
  have i: "sys_inv sh" "our_worker clk rt wk" using reachable_Live [OF assms] by simp_all
  have i': "sys_inv sh'" by (rule run_once_sys_inv [OF i(2,1) r])
  have d: "pw_full_scan_done (sh_process sh')"
    using run_once_marks [OF _ r] i(2) by (simp add: our_worker_def)
  then show "first_full_scan_complete sh'"
    by (simp add: first_full_scan_complete_def full_scan_complete_def)
  have "st_latched (sh_state sh') = 0 \<longleftrightarrow> (\<forall>c. \<not> cs_contains (st_latched (sh_state sh')) c)"
    using i' cs_is_empty_iff by (simp add: sys_inv_def cs_is_empty_def)
  with d i' show "ensure_allowed (sh_process sh') = Inr () \<longleftrightarrow>
      (\<forall>c. \<not> cs_contains (sn_latched (handle_snapshot sh')) c)"
    by (simp add: ensure_allowed_Ok handle_snapshot_def state_snapshot_def sys_inv_def)
next
  assume s: "start clk si b h0 process_init n = StartOk rt2 wk2 h2 sh2"
  from start_ok_words [OF s] show "pw_deny_until_full_scan (sh_process sh2) = bd_deny_until_full_scan b"
    and "\<not> first_full_scan_complete sh2"
    by (simp_all add: first_full_scan_complete_def full_scan_complete_def)
qed

theorem deny_until_first_full_scan_window_witness:
  "\<exists>rt wk sh. reachable (\<lambda>_. None) (Live rt wk () sh) \<and> \<not> first_full_scan_complete sh"
proof -
  obtain rt wk sh where s: "start (\<lambda>_. None) sample_inputs builder_new () process_init 0 = StartOk rt wk () sh"
    using sample_start_ok by blast
  have r: "reachable (\<lambda>_. None) (Live rt wk () sh)"
    by (rule reachable.step [OF reachable.init sys_step.start_ok [OF s]])
  from deny_until_first_full_scan_window [OF r, of "default_environment Linux Panic" "()" sh
      sample_inputs builder_new "()" 0 rt wk "()" sh] s r
  show ?thesis by blast
qed

end
