(* ===== verification/Fid_Tauri.thy ===== *)
theory Fid_Tauri
  imports Fid_System
begin

text \<open>
  The Tauri binding (\<open>bindings/tauri-plugin-fidelity/src/lib.rs\<close>): the setup hook that starts the
  runtime and stores its handle, and the access functions over the stored handle.  Tauri is code that
  the binding only calls, so its two operations are arguments: \<open>manage\<close>, which stores a value or
  refuses it, and \<open>try_state\<close>, which reads it back.
\<close>

section \<open>The plugin\<close>

datatype setup_error = StartFailed start_error | AlreadyManaged

type_synonym 'a manage = "runtime \<Rightarrow> 'a \<Rightarrow> bool \<times> 'a"
type_synonym 'a try_state = "'a \<Rightarrow> runtime option"

text \<open>The error of the setup phase, the application and the system after the hook of \<open>init\<close>.\<close>

definition plugin_setup ::
  "'a manage \<Rightarrow> clock \<Rightarrow> start_inputs \<Rightarrow> 'h builder \<Rightarrow> 'a \<Rightarrow> 'h \<Rightarrow> process \<Rightarrow> nat
     \<Rightarrow> (setup_error option \<times> 'a \<times> 'h system) exec" where
  "plugin_setup manage clk si b app h p n = (case start clk si b h p n of
       StartErr e p' h' \<Rightarrow> Returns (Some (StartFailed e), app, Idle p' n h')
     | StartPanic p' h' \<Rightarrow> Panic
     | StartAborted p' h' \<Rightarrow> Returns (None, app, Gone)
     | StartOk rt wk h' sh \<Rightarrow> (case manage rt app of
           (True, app') \<Rightarrow> Returns (None, app', Live rt wk h' sh)
         | (False, app') \<Rightarrow> Returns (Some AlreadyManaged, app', Live rt wk h' sh)))"

section \<open>Access\<close>

datatype check_error = StateAbsent | CheckDenied denied

definition try_fidelity_handle :: "'a try_state \<Rightarrow> 'a \<Rightarrow> unit + runtime" where
  "try_fidelity_handle try_state app = (case try_state app of Some rt \<Rightarrow> Inr rt | None \<Rightarrow> Inl ())"

definition fidelity_handle :: "'a try_state \<Rightarrow> 'a \<Rightarrow> runtime exec" where
  "fidelity_handle try_state app = (case try_fidelity_handle try_state app of Inr rt \<Rightarrow> Returns rt | Inl _ \<Rightarrow> Panic)"

definition ensure_fidelity_allowed :: "'a try_state \<Rightarrow> 'a \<Rightarrow> sys \<Rightarrow> (denied + unit) exec" where
  "ensure_fidelity_allowed try_state app sh = exec_bind (fidelity_handle try_state app) (\<lambda>_. Returns (ensure_allowed (sh_process sh)))"

definition try_ensure_fidelity_allowed :: "'a try_state \<Rightarrow> 'a \<Rightarrow> sys \<Rightarrow> check_error + unit" where
  "try_ensure_fidelity_allowed try_state app sh = (case try_fidelity_handle try_state app of
       Inl _ \<Rightarrow> Inl StateAbsent
     | Inr _ \<Rightarrow> map_sum CheckDenied id (ensure_allowed (sh_process sh)))"

definition report_fidelity_ui_abuse :: "'a try_state \<Rightarrow> clock \<Rightarrow> 'a \<Rightarrow> ui_observation \<Rightarrow> sys \<Rightarrow> (unit + unit) \<times> sys" where
  "report_fidelity_ui_abuse try_state clk app observation sh = (case try_fidelity_handle try_state app of
       Inl _ \<Rightarrow> (Inl (), sh)
     | Inr rt \<Rightarrow> (Inr (), report_ui_abuse clk rt observation sh))"

section \<open>Lemmas\<close>

text \<open>
  A setup that Tauri accepts is a start of the runtime: what it leaves is reachable from where it
  began, the application holds the handle, and from then on a check through the application is the
  check of the runtime.
\<close>

lemma plugin_setup_reachable:
  assumes "reachable clk (Idle p n h)" and "plugin_setup manage clk si b app h p n = Returns (r, app', s)"
  shows "reachable clk s"
proof (cases "start clk si b h p n")
  case (StartOk rt wk h' sh)
  then have "s = Live rt wk h' sh"
    using assms(2) by (auto simp: plugin_setup_def split: prod.splits bool.splits)
  then show ?thesis using reachable.step [OF assms(1) sys_step.start_ok [OF StartOk]] by simp
next
  case (StartErr e p' h')
  then show ?thesis
    using assms reachable.step [OF assms(1) sys_step.start_err [OF StartErr]] by (auto simp: plugin_setup_def)
next
  case (StartAborted p' h')
  then show ?thesis
    using assms reachable.step [OF assms(1) sys_step.start_abort [OF StartAborted]] by (auto simp: plugin_setup_def)
qed (use assms in \<open>simp add: plugin_setup_def\<close>)

lemma plugin_check_exact:
  assumes "\<And>rt app app'. manage rt app = (True, app') \<Longrightarrow> try_state app' = Some rt"
    and "plugin_setup manage clk si b app h p n = Returns (None, app', Live rt wk h' sh)"
  shows "try_state app' = Some rt"
    and "try_ensure_fidelity_allowed try_state app' sh' = Inr () \<longleftrightarrow> ensure_allowed (sh_process sh') = Inr ()"
    and "ensure_fidelity_allowed try_state app' sh' = Returns (ensure_allowed (sh_process sh'))"
proof -
  show "try_state app' = Some rt"
    using assms by (auto simp: plugin_setup_def split: start_result.splits prod.splits bool.splits)
  then show "try_ensure_fidelity_allowed try_state app' sh' = Inr () \<longleftrightarrow> ensure_allowed (sh_process sh') = Inr ()"
    and "ensure_fidelity_allowed try_state app' sh' = Returns (ensure_allowed (sh_process sh'))"
    by (auto simp: try_ensure_fidelity_allowed_def ensure_fidelity_allowed_def fidelity_handle_def
        try_fidelity_handle_def map_sum_def split: sum.splits)
qed

text \<open>A report through an application without the plugin changes nothing and says so.\<close>

lemma plugin_absent:
  "try_state app = None \<Longrightarrow>
     try_ensure_fidelity_allowed try_state app sh = Inl StateAbsent \<and> ensure_fidelity_allowed try_state app sh = Panic
     \<and> report_fidelity_ui_abuse try_state clk app observation sh = (Inl (), sh)"
  by (simp add: try_ensure_fidelity_allowed_def ensure_fidelity_allowed_def fidelity_handle_def
      try_fidelity_handle_def report_fidelity_ui_abuse_def)

end
