(* ===== verification/Fid_Local_Agent.thy ===== *)
theory Fid_Local_Agent
  imports Fid_Facts
begin

text \<open>
  The default local-agent probe (\<open>capability/local_agent.rs\<close>): the loopback exchange with its
  read loop, and the recogniser of a WebSocket upgrade answer.  The socket is not part of the
  repository, so what it answers is the argument \<open>net\<close>; the sequence of read results is a
  list, and a list that ends while the loop still waits is the value \<open>None\<close>.
\<close>

section \<open>What the socket answers\<close>

record io_error =
  io_kind :: error_kind
  io_text :: string

datatype read_result = ReadOk string | ReadErr io_error

record net =
  net_is_loopback :: bool
  net_connect :: "io_error option"
  net_set_read_timeout :: "io_error option"
  net_set_write_timeout :: "io_error option"
  net_write_all :: "string \<Rightarrow> io_error option"
  net_reads :: "read_result list"

section \<open>Text operations\<close>

definition crlf :: string where
  "crlf = [CHR 0x0D, CHR 0x0A]"

definition to_ascii_lowercase :: "char \<Rightarrow> char" where
  "to_ascii_lowercase c = (if 0x41 \<le> code c \<and> code c \<le> 0x5A then char_of (code c + 0x20) else c)"

definition eq_ignore_ascii_case :: "string \<Rightarrow> string \<Rightarrow> bool" where
  "eq_ignore_ascii_case a b \<longleftrightarrow> map to_ascii_lowercase a = map to_ascii_lowercase b"

text \<open>\<open>str::split\<close> with a non-empty pattern.\<close>

function split_str :: "string \<Rightarrow> string \<Rightarrow> string list" where
  "split_str pat s =
     (case split_once s pat of
        None \<Rightarrow> [s]
      | Some (a, b) \<Rightarrow> if pat = [] then [s] else a # split_str pat b)"
  by pat_completeness auto
termination
  by (relation "measure (\<lambda>(pat, s). length s)") (auto dest!: split_once_Some)

declare split_str.simps [simp del]

lemma split_str_not_Nil [simp]: "split_str pat s \<noteq> []"
  by (subst split_str.simps) (auto split: option.splits)

definition any_window :: "nat \<Rightarrow> string \<Rightarrow> string \<Rightarrow> bool" where
  "any_window n pat s = list_ex (\<lambda>i. take n (drop i s) = pat) [0..<length s + 1 - n]"

section \<open>The recogniser\<close>

definition ACCEPT :: string where
  "ACCEPT = ''s3pPLMBiTxaQ9kYGzzhZRbK+xOo=''"

definition REQUEST :: string where
  "REQUEST = ''GET /ws HTTP/1.1'' @ crlf @ ''Host: server'' @ crlf @ ''Upgrade: websocket'' @ crlf
     @ ''Connection: Upgrade'' @ crlf @ ''Sec-WebSocket-Key: dGhlIHNhbXBsZSBub25jZQ=='' @ crlf
     @ ''Sec-WebSocket-Version: 13'' @ crlf @ crlf"

definition max_response_bytes :: nat where
  "max_response_bytes = 1024"

text \<open>One header line updates the flags \<open>(upgrade, connection, accept)\<close>.\<close>

definition header_line :: "string \<Rightarrow> bool \<times> bool \<times> bool \<Rightarrow> bool \<times> bool \<times> bool" where
  "header_line line = (\<lambda>(upgrade, connection, accept).
     case split_once line '':'' of
       None \<Rightarrow> (upgrade, connection, accept)
     | Some (name, raw) \<Rightarrow>
         (let value = trim raw in
          if eq_ignore_ascii_case name ''upgrade'' \<and> eq_ignore_ascii_case value ''websocket''
          then (True, connection, accept)
          else if eq_ignore_ascii_case name ''connection''
            \<and> list_ex (\<lambda>token. eq_ignore_ascii_case (trim token) ''upgrade'') (split_char CHR '','' value)
          then (upgrade, True, accept)
          else if eq_ignore_ascii_case name ''sec-websocket-accept'' \<and> value = ACCEPT
          then (upgrade, connection, True)
          else (upgrade, connection, accept)))"

definition is_frida_websocket_response :: "string \<Rightarrow> bool" where
  "is_frida_websocket_response response =
     (if \<not> utf8_valid response then False
      else case find_str response (crlf @ crlf) of
        None \<Rightarrow> False
      | Some header_end \<Rightarrow>
          (case split_str crlf (take header_end response) of
             [] \<Rightarrow> False
           | status # headers \<Rightarrow>
               if \<not> starts_with status ''HTTP/1.1 101 '' then False
               else case fold header_line headers (False, False, False) of
                 (upgrade, connection, accept) \<Rightarrow> upgrade \<and> connection \<and> accept))"

section \<open>The exchange\<close>

definition connection_failure :: "io_error \<Rightarrow> local_agent_state observation" where
  "connection_failure e =
     (case io_kind e of
        ConnectionRefused \<Rightarrow> Fact AgentAbsent
      | TimedOut \<Rightarrow> obs_failed ''the loopback connection reached its deadline''
      | _ \<Rightarrow> obs_failed (''the loopback connection failed: '' @ io_text e))"

text \<open>A read fills at most the rest of the buffer.\<close>

fun read_loop :: "read_result list \<Rightarrow> string \<Rightarrow> (local_agent_state observation + string) option" where
  "read_loop reads response =
     (if length response < max_response_bytes then
        (case reads of
           [] \<Rightarrow> None
         | ReadOk got # rest \<Rightarrow>
             (let chunk = take (max_response_bytes - length response) got in
              if chunk = [] then Some (Inr response)
              else if any_window 4 (crlf @ crlf) (response @ chunk) then Some (Inr (response @ chunk))
              else read_loop rest (response @ chunk))
         | ReadErr e # rest \<Rightarrow>
             (case io_kind e of
                Interrupted \<Rightarrow> read_loop rest response
              | TimedOut \<Rightarrow> Some (Inl (obs_failed ''the loopback protocol read reached its deadline''))
              | WouldBlock \<Rightarrow> Some (Inl (obs_failed ''the loopback protocol read reached its deadline''))
              | _ \<Rightarrow> Some (Inl (obs_failed (''the loopback protocol read failed: '' @ io_text e)))))
      else Some (Inr response))"

declare read_loop.simps [simp del]

lemmas read_loop_steps = read_loop.simps [of "[]"] read_loop.simps [of "ReadOk got # rest" for got rest]
  read_loop.simps [of "ReadErr e # rest" for e rest]

definition agent_present_detail :: string where
  "agent_present_detail = ''a Frida-compatible WebSocket endpoint answered on loopback''"

definition probe_address :: "net \<Rightarrow> local_agent_state observation option" where
  "probe_address n =
     (if \<not> net_is_loopback n
      then Some (obs_failed ''the local-agent probe refused a non-loopback address'')
      else case net_connect n of Some e \<Rightarrow> Some (connection_failure e)
      | None \<Rightarrow>
        (case net_set_read_timeout n of
           Some e \<Rightarrow> Some (obs_failed (''the loopback read deadline failed: '' @ io_text e))
         | None \<Rightarrow>
        (case net_set_write_timeout n of
           Some e \<Rightarrow> Some (obs_failed (''the loopback write deadline failed: '' @ io_text e))
         | None \<Rightarrow>
        (case net_write_all n REQUEST of
           Some e \<Rightarrow> Some (obs_failed (''the loopback protocol write failed: '' @ io_text e))
         | None \<Rightarrow>
             map_option (\<lambda>r. case r of
                 Inl failure \<Rightarrow> failure
               | Inr response \<Rightarrow>
                   if is_frida_websocket_response response
                   then Fact (AgentPresent (bounded_text_new agent_present_detail))
                   else Fact AgentAbsent)
               (read_loop (net_reads n) [])))))"

section \<open>Lemmas\<close>

text \<open>The three header questions, each of one line alone.\<close>

definition upgrade_line :: "string \<Rightarrow> bool" where
  "upgrade_line line = (case split_once line '':'' of None \<Rightarrow> False
     | Some (name, raw) \<Rightarrow> eq_ignore_ascii_case name ''upgrade'' \<and> eq_ignore_ascii_case (trim raw) ''websocket'')"

definition connection_line :: "string \<Rightarrow> bool" where
  "connection_line line = (case split_once line '':'' of None \<Rightarrow> False
     | Some (name, raw) \<Rightarrow> eq_ignore_ascii_case name ''connection''
         \<and> (\<exists>token \<in> set (split_char CHR '','' (trim raw)). eq_ignore_ascii_case (trim token) ''upgrade''))"

definition accept_line :: "string \<Rightarrow> bool" where
  "accept_line line = (case split_once line '':'' of None \<Rightarrow> False
     | Some (name, raw) \<Rightarrow> eq_ignore_ascii_case name ''sec-websocket-accept'' \<and> trim raw = ACCEPT)"

lemma eq_ignore_case_length: "eq_ignore_ascii_case a b \<Longrightarrow> length a = length b"
  unfolding eq_ignore_ascii_case_def by (metis length_map)

lemma header_line_flags:
  "header_line line (u, c, a) = (u \<or> upgrade_line line, c \<or> connection_line line, a \<or> accept_line line)"
proof (cases "split_once line '':''")
  case None
  then show ?thesis
    by (simp add: header_line_def upgrade_line_def connection_line_def accept_line_def)
next
  case (Some nv)
  obtain name raw where nv: "nv = (name, raw)" by fastforce
  have "\<not> (eq_ignore_ascii_case name ''upgrade'' \<and> eq_ignore_ascii_case name ''connection'')"
    "\<not> (eq_ignore_ascii_case name ''upgrade'' \<and> eq_ignore_ascii_case name ''sec-websocket-accept'')"
    "\<not> (eq_ignore_ascii_case name ''connection'' \<and> eq_ignore_ascii_case name ''sec-websocket-accept'')"
    using eq_ignore_case_length [of name "''upgrade''"] eq_ignore_case_length [of name "''connection''"]
      eq_ignore_case_length [of name "''sec-websocket-accept''"] by auto
  then show ?thesis
    using Some nv
    by (auto simp: header_line_def upgrade_line_def connection_line_def accept_line_def Let_def list_ex_iff)
qed

lemma fold_header_line:
  "fold header_line ls (u, c, a) =
     (u \<or> list_ex upgrade_line ls, c \<or> list_ex connection_line ls, a \<or> list_ex accept_line ls)"
  by (induction ls arbitrary: u c a) (auto simp: header_line_flags)

text \<open>One read that returned data: the buffer as it is, the last chunk, or another turn.\<close>

lemma read_loop_ok_cases:
  assumes "read_loop (ReadOk got # reads) response = Some out"
    and "chunk = take (max_response_bytes - length response) got"
  shows "out = Inr response \<or> out = Inr (response @ chunk)
    \<or> (chunk \<noteq> [] \<and> read_loop reads (response @ chunk) = Some out)"
  using assms(1) unfolding read_loop_steps Let_def assms(2) [symmetric] list.case read_result.case
  by (simp split: if_splits del: take_eq_Nil)

lemma read_loop_err_cases:
  assumes "read_loop (ReadErr e # reads) response = Some out"
  shows "out = Inr response \<or> (\<exists>d. out = Inl (ObsFailed d)) \<or> read_loop reads response = Some out"
  using assms by (cases "io_kind e") (auto simp: read_loop_steps obs_failed_def split: if_splits)

lemma read_loop_failure:
  "read_loop reads response = Some (Inl f) \<Longrightarrow> \<exists>d. f = ObsFailed d"
proof (induction reads arbitrary: response)
  case Nil
  then show ?case by (simp add: read_loop_steps split: if_splits)
next
  case (Cons x reads)
  then show ?case
    using read_loop_ok_cases [of _ reads response "Inl f", OF _ refl]
      read_loop_err_cases [of _ reads response "Inl f"]
    by (cases x) blast+
qed

text \<open>Every read that is not an interruption ends the loop or adds a byte.\<close>

definition uninterrupted :: "read_result \<Rightarrow> bool" where
  "uninterrupted r = (case r of ReadOk _ \<Rightarrow> True | ReadErr e \<Rightarrow> io_kind e \<noteq> Interrupted)"

lemma read_loop_returns:
  "max_response_bytes - length response \<le> length (filter uninterrupted reads) \<Longrightarrow>
     \<exists>r. read_loop reads response = Some r"
proof (induction reads arbitrary: response)
  case Nil
  then show ?case by (auto simp: read_loop_steps)
next
  case (Cons x reads)
  show ?case
  proof (cases x)
    case (ReadOk got)
    let ?chunk = "take (max_response_bytes - length response) got"
    have "\<exists>r. read_loop reads (response @ ?chunk) = Some r" if "?chunk \<noteq> []"
    proof (rule Cons.IH)
      from that have "0 < length ?chunk" by blast
      moreover have "uninterrupted x" using ReadOk by (simp add: uninterrupted_def)
      then have "max_response_bytes - length response \<le> Suc (length (filter uninterrupted reads))"
        using Cons.prems by simp
      ultimately show "max_response_bytes - length (response @ ?chunk) \<le> length (filter uninterrupted reads)"
        unfolding length_append by linarith
    qed
    with ReadOk show ?thesis
      by (auto simp: read_loop_steps Let_def)
  next
    case (ReadErr e)
    with Cons show ?thesis
      by (cases "io_kind e") (auto simp: read_loop_steps uninterrupted_def)
  qed
qed

section \<open>The exchange without the loop\<close>

text \<open>
  The reads that went by, the bytes that they gave, and when the exchange is over: the peer closed,
  the buffer holds a blank line, or it is full.
\<close>

definition usable_read :: "read_result \<Rightarrow> bool" where
  "usable_read x = (case x of ReadOk _ \<Rightarrow> True | ReadErr e \<Rightarrow> io_kind e = Interrupted)"

definition received :: "read_result list \<Rightarrow> string" where
  "received xs = take 1024 (concat (map (\<lambda>x. case x of ReadOk got \<Rightarrow> got | ReadErr _ \<Rightarrow> []) xs))"

definition over :: "read_result list \<Rightarrow> bool" where
  "over xs \<longleftrightarrow> (xs \<noteq> [] \<and> last xs = ReadOk []) \<or> (\<exists>u v. received xs = u @ crlf @ crlf @ v) \<or> length (received xs) = 1024"

text \<open>
  After \<open>xs\<close>: the response is what the shortest run of usable reads gave after which the exchange is
  over; it is open while every read is usable and none ended it.
\<close>

definition completed_after :: "read_result list \<Rightarrow> read_result list \<Rightarrow> string \<Rightarrow> bool" where
  "completed_after xs reads response \<longleftrightarrow> (\<exists>k \<le> length reads. list_all usable_read (take k reads)
     \<and> over (xs @ take k reads) \<and> (\<forall>j < k. \<not> over (xs @ take j reads)) \<and> response = received (xs @ take k reads))"

definition open_after :: "read_result list \<Rightarrow> read_result list \<Rightarrow> bool" where
  "open_after xs reads \<longleftrightarrow> list_all usable_read reads \<and> (\<forall>k \<le> length reads. \<not> over (xs @ take k reads))"

abbreviation completed :: "read_result list \<Rightarrow> string \<Rightarrow> bool" where
  "completed \<equiv> completed_after []"

lemma any_window_blank: "any_window 4 (crlf @ crlf) s \<longleftrightarrow> (\<exists>u v. s = u @ crlf @ crlf @ v)"
proof
  assume "any_window 4 (crlf @ crlf) s"
  then obtain i where "take 4 (drop i s) = crlf @ crlf" by (auto simp: any_window_def list_ex_iff)
  then have "s = take i s @ crlf @ crlf @ drop 4 (drop i s)" by (metis append_assoc append_take_drop_id)
  then show "\<exists>u v. s = u @ crlf @ crlf @ v" by blast
next
  assume "\<exists>u v. s = u @ crlf @ crlf @ v"
  then obtain u v where s: "s = u @ crlf @ crlf @ v" by blast
  have "take 4 (drop (length u) s) = crlf @ crlf" "length u \<in> set [0..<length s + 1 - 4]"
    by (simp_all add: s crlf_def)
  then show "any_window 4 (crlf @ crlf) s" unfolding any_window_def list_ex_iff by blast
qed

lemma received_snoc:
  "received (xs @ [ReadOk got]) = received xs @ take (1024 - length (received xs)) got"
  "received (xs @ [ReadErr e]) = received xs"
  by (simp_all add: received_def min_def)

lemma over_Nil [simp]: "\<not> over []"
  by (simp add: over_def received_def crlf_def)

lemma over_room: "\<not> over xs \<Longrightarrow> length (received xs) < 1024"
  by (auto simp: over_def received_def)

lemma over_snoc_err: "\<not> over xs \<Longrightarrow> \<not> over (xs @ [ReadErr e])"
  by (simp add: over_def received_snoc)

lemma split_first: "(\<exists>k \<le> Suc n. P k) \<longleftrightarrow> P 0 \<or> (\<exists>k \<le> n. P (Suc k))"
  using le_Suc_ex by (metis Suc_le_mono not0_implies_Suc zero_le)

lemma completed_after_Cons:
  assumes "\<not> over xs"
  shows "completed_after xs (x # reads) r \<longleftrightarrow>
    usable_read x \<and> (if over (xs @ [x]) then r = received (xs @ [x]) else completed_after (xs @ [x]) reads r)"
proof -
  have first: "(\<forall>j < Suc k. \<not> over (xs @ take j (x # reads))) \<longleftrightarrow> (\<forall>j < k. \<not> over (xs @ x # take j reads))" for k
    using assms by (simp add: All_less_Suc2)
  show ?thesis
  proof (cases "over (xs @ [x])")
    case True
    then have "(\<forall>j < k. \<not> over (xs @ x # take j reads)) \<longleftrightarrow> k = 0" for k by (metis gr0I take0 less_nat_zero_code)
    with True assms show ?thesis
      unfolding completed_after_def length_Cons split_first first by auto
  next
    case False
    with assms show ?thesis
      unfolding completed_after_def length_Cons split_first first by auto
  qed
qed

lemma open_after_Cons:
  assumes "\<not> over xs"
  shows "open_after xs (x # reads) \<longleftrightarrow> usable_read x \<and> open_after (xs @ [x]) reads"
proof -
  have "(\<forall>k \<le> Suc n. P k) \<longleftrightarrow> P 0 \<and> (\<forall>k \<le> n. P (Suc k))" for n and P :: "nat \<Rightarrow> bool"
    using split_first [of n "\<lambda>k. \<not> P k"] by blast
  with assms show ?thesis by (auto simp: open_after_def)
qed

text \<open>One turn of the loop, after reads that did not end it.\<close>

lemma read_loop_turn:
  assumes "\<not> over xs" and "usable_read x"
  shows "read_loop (x # reads) (received xs) =
    (if over (xs @ [x]) then Some (Inr (received (xs @ [x]))) else read_loop reads (received (xs @ [x])))"
proof (cases x)
  case (ReadErr e)
  with assms over_snoc_err [of xs e] over_room [OF assms(1)] show ?thesis
    by (simp add: read_loop_steps usable_read_def received_snoc max_response_bytes_def)
next
  case (ReadOk got)
  let ?chunk = "take (1024 - length (received xs)) got"
  note room = over_room [OF assms(1)]
  then have "?chunk = [] \<longleftrightarrow> got = []" by simp
  moreover have "read_loop reads full = Some (Inr full)" if "length full = 1024" for full
    using that by (subst read_loop.simps) (simp add: max_response_bytes_def)
  ultimately show ?thesis
    using room assms(1) ReadOk unfolding over_def
    by (auto simp: read_loop_steps received_snoc max_response_bytes_def any_window_blank Let_def simp del: take_eq_Nil)
qed

lemma read_loop_unusable:
  assumes "\<not> over xs" and "\<not> usable_read x"
  shows "\<exists>d. read_loop (x # reads) (received xs) = Some (Inl (ObsFailed d))"
proof (cases x)
  case (ReadErr e)
  with assms(2) over_room [OF assms(1)] show ?thesis
    by (cases "io_kind e") (auto simp: read_loop_steps usable_read_def obs_failed_def max_response_bytes_def)
qed (use assms(2) in \<open>simp add: usable_read_def\<close>)

lemma read_loop_exact:
  "\<not> over xs \<Longrightarrow>
     (read_loop reads (received xs) = Some (Inr r) \<longleftrightarrow> completed_after xs reads r)
   \<and> (read_loop reads (received xs) = None \<longleftrightarrow> open_after xs reads)"
proof (induction reads arbitrary: xs)
  case Nil
  with over_room [OF Nil] show ?case
    by (simp add: read_loop_steps completed_after_def open_after_def max_response_bytes_def)
next
  case (Cons x reads)
  show ?case
  proof (cases "usable_read x")
    case True
    show ?thesis
    proof (cases "over (xs @ [x])")
      case over: True
      then have "\<not> open_after (xs @ [x]) reads" by (auto simp: open_after_def intro!: exI [of _ 0])
      with over True Cons.prems show ?thesis
        by (auto simp: read_loop_turn completed_after_Cons open_after_Cons)
    next
      case False
      with Cons.IH [OF False] True Cons.prems show ?thesis
        by (simp add: read_loop_turn completed_after_Cons open_after_Cons)
    qed
  next
    case False
    with read_loop_unusable [OF Cons.prems False, of reads] Cons.prems show ?thesis
      by (auto simp: completed_after_Cons open_after_Cons)
  qed
qed

lemmas exchange_exact = read_loop_exact [of "[]", simplified received_def, simplified]

text \<open>
  The recogniser answers yes exactly for a well-formed text whose head, before the first
  blank line, starts with status 101 and holds an upgrade line, a connection line and the one
  acceptance value, in any order and in any letter case of the names.
\<close>

lemma is_frida_response_iff:
  "is_frida_websocket_response response \<longleftrightarrow>
     utf8_valid response \<and>
     (\<exists>header_end status headers.
        find_str response (crlf @ crlf) = Some header_end
      \<and> split_str crlf (take header_end response) = status # headers
      \<and> starts_with status ''HTTP/1.1 101 ''
      \<and> (\<exists>l \<in> set headers. upgrade_line l) \<and> (\<exists>l \<in> set headers. connection_line l)
      \<and> (\<exists>l \<in> set headers. accept_line l))"
  by (auto simp: is_frida_websocket_response_def fold_header_line list_ex_iff
      split: option.splits list.splits)

text \<open>A connection on which every preparation succeeded.\<close>

definition connected :: "net \<Rightarrow> bool" where
  "connected n \<longleftrightarrow> net_is_loopback n \<and> net_connect n = None \<and> net_set_read_timeout n = None
     \<and> net_set_write_timeout n = None \<and> net_write_all n REQUEST = None"

lemma probe_connected:
  "connected n \<Longrightarrow> probe_address n = map_option (\<lambda>r. case r of
       Inl failure \<Rightarrow> failure
     | Inr response \<Rightarrow> if is_frida_websocket_response response
         then Fact (AgentPresent (bounded_text_new agent_present_detail)) else Fact AgentAbsent) (read_loop (net_reads n) [])"
  by (simp add: probe_address_def connected_def)

text \<open>
  C19.  What the loopback probe states.  It states that no agent answers exactly when the address is a
  loopback one and either the connection was refused, or every deadline was set, the request was
  written and the exchange was completed with a response that is not the Frida upgrade; and it states
  an agent exactly when that response is the upgrade.  An exchange is completed by the peer that
  closes, by a blank line or by a full buffer of 1024 bytes, after reads that gave data or were
  interrupted; a read that times out or fails in another way never counts as one.  Every other answer
  is a failure.  The probe is still without an answer exactly when it is connected and every read so
  far was usable and did not end the exchange; 1024 reads that are no interruption end it.
\<close>

theorem probe_address_sound:
  "(probe_address n = Some (Fact AgentAbsent) \<longleftrightarrow>
      net_is_loopback n \<and> (\<exists>e. net_connect n = Some e \<and> io_kind e = ConnectionRefused)
      \<or> connected n \<and> (\<exists>r. completed (net_reads n) r \<and> \<not> is_frida_websocket_response r))
   \<and> ((\<exists>d. probe_address n = Some (Fact (AgentPresent d))) \<longleftrightarrow>
      connected n \<and> (\<exists>r. completed (net_reads n) r \<and> is_frida_websocket_response r))
   \<and> (probe_address n = None \<longleftrightarrow> connected n \<and> open_after [] (net_reads n))
   \<and> (\<forall>reason. probe_address n \<noteq> Some (ObsUnsupported reason))
   \<and> (1024 \<le> length (filter uninterrupted (net_reads n)) \<longrightarrow> probe_address n \<noteq> None)"
proof (cases "connected n")
  case True
  have refused: "\<nexists>e. net_connect n = Some e" using True by (simp add: connected_def)
  have returns: "1024 \<le> length (filter uninterrupted (net_reads n)) \<Longrightarrow> read_loop (net_reads n) [] \<noteq> None"
    using read_loop_returns [of "[]" "net_reads n"] by (auto simp: max_response_bytes_def)
  show ?thesis
  proof (cases "read_loop (net_reads n) []")
    case None
    with exchange_exact [of "net_reads n"] True refused returns show ?thesis by (auto simp: probe_connected)
  next
    case (Some out)
    show ?thesis
    proof (cases out)
      case (Inl f)
      with Some read_loop_failure obtain d where "f = ObsFailed d" by blast
      with Some Inl exchange_exact [of "net_reads n"] True refused show ?thesis by (simp add: probe_connected)
    next
      case (Inr r)
      with Some have l: "read_loop (net_reads n) [] = Some (Inr r)" by simp
      have "completed (net_reads n) r' \<longleftrightarrow> r' = r" "\<not> open_after [] (net_reads n)" for r'
        using exchange_exact [of "net_reads n" r'] unfolding l by auto
      with l True refused show ?thesis by (simp add: probe_connected)
    qed
  qed
next
  case False
  then show ?thesis
    by (auto simp: probe_address_def connected_def connection_failure_def obs_failed_def split: option.splits error_kind.splits if_splits)
qed

text \<open>A peer that answers in two reads around an interruption and then closes, and one that times out.\<close>

definition sample_net :: "read_result list \<Rightarrow> net" where
  "sample_net reads = \<lparr>net_is_loopback = True, net_connect = None,
     net_set_read_timeout = None, net_set_write_timeout = None,
     net_write_all = (\<lambda>_. None), net_reads = reads\<rparr>"

theorem probe_address_sound_witness:
  "probe_address (sample_net [ReadOk ''HTTP'', ReadErr \<lparr>io_kind = Interrupted, io_text = []\<rparr>, ReadOk ''/1.0'', ReadOk []])
     = Some (Fact AgentAbsent)
   \<and> completed [ReadOk ''HTTP'', ReadErr \<lparr>io_kind = Interrupted, io_text = []\<rparr>, ReadOk ''/1.0'', ReadOk []] ''HTTP/1.0''
   \<and> probe_address (sample_net [ReadOk ''HTTP'', ReadErr \<lparr>io_kind = TimedOut, io_text = []\<rparr>, ReadOk []])
     \<noteq> Some (Fact AgentAbsent)"
proof -
  let ?i = "\<lparr>io_kind = Interrupted, io_text = []\<rparr>" and ?t = "\<lparr>io_kind = TimedOut, io_text = []\<rparr>"
  let ?ok = "[ReadOk ''HTTP'', ReadErr ?i, ReadOk ''/1.0'', ReadOk []]"
    and ?late = "[ReadOk ''HTTP'', ReadErr ?t, ReadOk []]"
  have "connected (sample_net reads)" "net_reads (sample_net reads) = reads" for reads
    by (simp_all add: sample_net_def connected_def)
  moreover have c: "completed ?ok ''HTTP/1.0''"
    by (simp add: completed_after_Cons over_def received_def crlf_def usable_read_def Cons_eq_append_conv)
  moreover have "\<not> is_frida_websocket_response ''HTTP/1.0''" by code_simp
  moreover have "\<not> completed ?late r" for r
    by (simp add: completed_after_Cons over_def received_def crlf_def usable_read_def Cons_eq_append_conv)
  ultimately show ?thesis
    using probe_address_sound [of "sample_net ?ok"] probe_address_sound [of "sample_net ?late"]
    by (auto simp: sample_net_def)
qed

end
