(* ===== verification/Fid_Sha256.thy ===== *)
theory Fid_Sha256
  imports Fid_Text
begin

text \<open>
  SHA-256 as \<open>fidelity-cipher/src/sha256.rs\<close> computes it: whole blocks of the message first,
  then one or two blocks assembled from the tail.  The refinement theorem relates it to the
  padded-message formulation of the standard.
\<close>

section \<open>Constants\<close>

text \<open>The source writes each constant as two groups of four digits.\<close>

definition grouped :: "u32 \<times> u32 \<Rightarrow> u32" where
  "grouped = (\<lambda>(high, low). push_bit 16 high OR low)"

definition K :: "u32 list" where
  "K = map grouped
    [(0x428a, 0x2f98), (0x7137, 0x4491), (0xb5c0, 0xfbcf), (0xe9b5, 0xdba5),
     (0x3956, 0xc25b), (0x59f1, 0x11f1), (0x923f, 0x82a4), (0xab1c, 0x5ed5),
     (0xd807, 0xaa98), (0x1283, 0x5b01), (0x2431, 0x85be), (0x550c, 0x7dc3),
     (0x72be, 0x5d74), (0x80de, 0xb1fe), (0x9bdc, 0x06a7), (0xc19b, 0xf174),
     (0xe49b, 0x69c1), (0xefbe, 0x4786), (0x0fc1, 0x9dc6), (0x240c, 0xa1cc),
     (0x2de9, 0x2c6f), (0x4a74, 0x84aa), (0x5cb0, 0xa9dc), (0x76f9, 0x88da),
     (0x983e, 0x5152), (0xa831, 0xc66d), (0xb003, 0x27c8), (0xbf59, 0x7fc7),
     (0xc6e0, 0x0bf3), (0xd5a7, 0x9147), (0x06ca, 0x6351), (0x1429, 0x2967),
     (0x27b7, 0x0a85), (0x2e1b, 0x2138), (0x4d2c, 0x6dfc), (0x5338, 0x0d13),
     (0x650a, 0x7354), (0x766a, 0x0abb), (0x81c2, 0xc92e), (0x9272, 0x2c85),
     (0xa2bf, 0xe8a1), (0xa81a, 0x664b), (0xc24b, 0x8b70), (0xc76c, 0x51a3),
     (0xd192, 0xe819), (0xd699, 0x0624), (0xf40e, 0x3585), (0x106a, 0xa070),
     (0x19a4, 0xc116), (0x1e37, 0x6c08), (0x2748, 0x774c), (0x34b0, 0xbcb5),
     (0x391c, 0x0cb3), (0x4ed8, 0xaa4a), (0x5b9c, 0xca4f), (0x682e, 0x6ff3),
     (0x748f, 0x82ee), (0x78a5, 0x636f), (0x84c8, 0x7814), (0x8cc7, 0x0208),
     (0x90be, 0xfffa), (0xa450, 0x6ceb), (0xbef9, 0xa3f7), (0xc671, 0x78f2)]"

type_synonym sha_state = "u32 \<times> u32 \<times> u32 \<times> u32 \<times> u32 \<times> u32 \<times> u32 \<times> u32"

definition INITIAL :: sha_state where
  "INITIAL =
    (grouped (0x6a09, 0xe667), grouped (0xbb67, 0xae85),
     grouped (0x3c6e, 0xf372), grouped (0xa54f, 0xf53a),
     grouped (0x510e, 0x527f), grouped (0x9b05, 0x688c),
     grouped (0x1f83, 0xd9ab), grouped (0x5be0, 0xcd19))"

section \<open>Compression\<close>

text \<open>\<open>chunks_exact\<close>: the full chunks and the remainder.\<close>

function chunks_exact :: "nat \<Rightarrow> 'a list \<Rightarrow> 'a list list" where
  "chunks_exact n xs = (if n = 0 \<or> length xs < n then [] else take n xs # chunks_exact n (drop n xs))"
  by pat_completeness auto
termination
  by (relation "measure (\<lambda>(n, xs). length xs)") auto

declare chunks_exact.simps [simp del]

definition chunks_remainder :: "nat \<Rightarrow> 'a list \<Rightarrow> 'a list" where
  "chunks_remainder n xs = drop (length xs - length xs mod n) xs"

definition be_word :: "bytes \<Rightarrow> u32" where
  "be_word bs = of_nat (be_nat bs)"

definition extend_schedule :: "u32 list \<Rightarrow> nat \<Rightarrow> u32 list" where
  "extend_schedule w index =
     (let a = w ! (index - 15);
          b = w ! (index - 2);
          s0 = word_rotr 7 a XOR word_rotr 18 a XOR drop_bit 3 a;
          s1 = word_rotr 17 b XOR word_rotr 19 b XOR drop_bit 10 b
      in w @ [w ! (index - 16) + s0 + w ! (index - 7) + s1])"

definition schedule :: "bytes \<Rightarrow> u32 list" where
  "schedule block = foldl extend_schedule (map be_word (chunks_exact 4 block)) [16..<64]"

definition sha_round :: "sha_state \<Rightarrow> u32 \<times> u32 \<Rightarrow> sha_state" where
  "sha_round = (\<lambda>(a, b, c, d, e, f, g, h) (k, w).
     let s1 = word_rotr 6 e XOR word_rotr 11 e XOR word_rotr 25 e;
         ch = (e AND f) XOR (NOT e AND g);
         first = h + s1 + ch + k + w;
         s0 = word_rotr 2 a XOR word_rotr 13 a XOR word_rotr 22 a;
         majority = (a AND b) XOR (a AND c) XOR (b AND c);
         second = s0 + majority
     in (first + second, a, b, c, d + first, e, f, g))"

definition add_state :: "sha_state \<Rightarrow> sha_state \<Rightarrow> sha_state" where
  "add_state = (\<lambda>(a, b, c, d, e, f, g, h) (a', b', c', d', e', f', g', h').
     (a + a', b + b', c + c', d + d', e + e', f + f', g + g', h + h'))"

definition compress :: "sha_state \<Rightarrow> bytes \<Rightarrow> sha_state" where
  "compress state block = add_state state (foldl sha_round state (zip K (schedule block)))"

definition be_bytes32 :: "u32 \<Rightarrow> bytes" where
  "be_bytes32 w = to_be 4 (unat w)"

definition state_bytes :: "sha_state \<Rightarrow> bytes" where
  "state_bytes = (\<lambda>(a, b, c, d, e, f, g, h). concat (map be_bytes32 [a, b, c, d, e, f, g, h]))"

section \<open>The digest\<close>

definition bit_length :: "bytes \<Rightarrow> u64" where
  "bit_length message = of_nat (length message) * 8"

definition sha256 :: "bytes \<Rightarrow> bytes" where
  "sha256 message =
     (let state = foldl compress INITIAL (chunks_exact 64 message);
          tail = chunks_remainder 64 message;
          block = tail @ [0x80] @ replicate (63 - length tail) 0;
          (state, block) = (if 64 < length tail + 1 + 8
             then (compress state block, replicate 64 0) else (state, block));
          block = take 56 block @ to_be 8 (unat (bit_length message))
      in state_bytes (compress state block))"

text \<open>The standard's formulation: pad the message, then fold the blocks.\<close>

definition pad :: "bytes \<Rightarrow> bytes" where
  "pad message =
     message @ [0x80] @ replicate ((119 - length message mod 64) mod 64) 0
       @ to_be 8 (unat (bit_length message))"

definition sha256_spec :: "bytes \<Rightarrow> bytes" where
  "sha256_spec message = state_bytes (foldl compress INITIAL (chunks_exact 64 (pad message)))"

text \<open>\<open>hex\<close>: two lowercase digits per byte, the high nibble first.\<close>

definition hex_nibble :: "u8 \<Rightarrow> char" where
  "hex_nibble nibble = (if unat nibble < 16 then digit_char (unat nibble) else CHR ''0'')"

definition hex :: "bytes \<Rightarrow> string" where
  "hex digest = concat (map (\<lambda>b. [hex_nibble (drop_bit 4 b), hex_nibble (b AND 0x0F)]) digest)"

section \<open>Lemmas\<close>

lemma chunks_exact_append:
  assumes "0 < n" and "n dvd length xs"
  shows "chunks_exact n (xs @ ys) = chunks_exact n xs @ chunks_exact n ys"
  using assms
proof (induction n xs rule: chunks_exact.induct)
  case (1 n xs)
  show ?case
  proof (cases "xs = []")
    case True
    with "1.prems" show ?thesis by (simp add: chunks_exact.simps [of n "[]"])
  next
    case False
    with 1 have le: "n \<le> length xs" by (simp add: dvd_imp_le)
    then have "n dvd length (drop n xs)" using "1.prems" by (simp add: dvd_minus_self)
    with 1 le show ?thesis
      by (simp add: chunks_exact.simps [of n "xs @ ys"] chunks_exact.simps [of n xs])
  qed
qed

lemma chunks_exact_one: "length xs = n \<Longrightarrow> 0 < n \<Longrightarrow> chunks_exact n xs = [xs]"
  by (subst chunks_exact.simps) (simp add: chunks_exact.simps [of n "[]"])

lemma chunks_exact_short: "length xs < n \<Longrightarrow> chunks_exact n xs = []"
  by (subst chunks_exact.simps) simp

lemma chunks_split:
  fixes xs :: "'a list"
  assumes "0 < n"
  defines "whole \<equiv> take (length xs - length xs mod n) xs"
  shows "xs = whole @ chunks_remainder n xs" and "n dvd length whole"
    and "length (chunks_remainder n xs) = length xs mod n"
    and "chunks_exact n xs = chunks_exact n whole"
proof -
  show e: "xs = whole @ chunks_remainder n xs" by (simp add: whole_def chunks_remainder_def)
  have "length xs mod n \<le> length xs" by simp
  then show d: "n dvd length whole" by (simp add: whole_def dvd_minus_mod)
  show l: "length (chunks_remainder n xs) = length xs mod n" by (simp add: chunks_remainder_def)
  have "chunks_exact n (whole @ chunks_remainder n xs) = chunks_exact n whole @ []"
    using chunks_exact_append [OF assms(1) d] chunks_exact_short [of "chunks_remainder n xs" n] l assms(1) by simp
  with e show "chunks_exact n xs = chunks_exact n whole" by simp
qed

text \<open>The last blocks that the code assembles are the padded tail.\<close>

definition last_blocks :: "bytes \<Rightarrow> u64 \<Rightarrow> bytes list" where
  "last_blocks tail bits =
     (if 64 < length tail + 9
      then [tail @ [0x80] @ replicate (63 - length tail) 0, replicate 56 0 @ to_be 8 (unat bits)]
      else [tail @ [0x80] @ replicate (55 - length tail) 0 @ to_be 8 (unat bits)])"

lemma sha256_blocks:
  "sha256 message = state_bytes (foldl compress INITIAL
     (chunks_exact 64 message @ last_blocks (chunks_remainder 64 message) (bit_length message)))"
proof -
  let ?t = "chunks_remainder 64 message"
  have l: "length ?t < 64" using chunks_split(3) [of 64 message] by simp
  show ?thesis
  proof (cases "64 < length ?t + 9")
    case True
    then show ?thesis by (simp add: sha256_def last_blocks_def Let_def)
  next
    case False
    then have "take 56 (?t @ [0x80] @ replicate (63 - length ?t) 0) = ?t @ [0x80] @ replicate (55 - length ?t) 0"
      by (simp add: take_Cons')
    with False show ?thesis by (simp add: sha256_def last_blocks_def Let_def)
  qed
qed

lemma pad_blocks:
  "chunks_exact 64 (pad message) =
     chunks_exact 64 message @ last_blocks (chunks_remainder 64 message) (bit_length message)"
proof -
  let ?t = "chunks_remainder 64 message" and ?n = "length message mod 64"
  let ?w = "take (length message - ?n) message"
  note split = chunks_split [of 64 message, simplified]
  have t: "length ?t = ?n" and n: "?n < 64" using split by simp_all
  let ?z = "replicate ((119 - ?n) mod 64) (0 :: u8)"
  let ?b = "to_be 8 (unat (bit_length message))"
  have "pad message = ?w @ (?t @ [0x80] @ ?z @ ?b)"
    unfolding pad_def using split(1) by (metis append.assoc)
  then have p: "chunks_exact 64 (pad message) = chunks_exact 64 message @ chunks_exact 64 (?t @ [0x80] @ ?z @ ?b)"
    using chunks_exact_append [of 64 ?w] split by simp
  have "chunks_exact 64 (?t @ [0x80] @ ?z @ ?b) = last_blocks ?t (bit_length message)"
  proof (cases "64 < ?n + 9")
    case True
    with n have z: "(119 - ?n) mod 64 = (63 - ?n) + 56"
      by (simp add: mod_less)
    let ?x = "?t @ [0x80] @ replicate (63 - ?n) (0 :: u8)" and ?y = "replicate 56 (0 :: u8) @ ?b"
    have e: "?t @ [0x80] @ ?z @ ?b = ?x @ ?y"
      unfolding z replicate_add by simp
    have lx: "length ?x = 64" and ly: "length ?y = 64" using t n by simp_all
    have "chunks_exact 64 (?x @ ?y) = [?x] @ [?y]"
      using chunks_exact_append [of 64 ?x ?y] chunks_exact_one [OF lx] chunks_exact_one [OF ly] lx
      by (metis dvd_refl zero_less_numeral)
    with True t show ?thesis unfolding e last_blocks_def by simp
  next
    case False
    with n have "(119 - ?n) mod 64 = 55 - ?n" by (simp add: le_mod_geq)
    with False t show ?thesis by (simp add: chunks_exact_one last_blocks_def)
  qed
  with p show ?thesis by simp
qed

lemma length_state_bytes [simp]: "length (state_bytes s) = 32"
  by (simp add: state_bytes_def be_bytes32_def split: prod.splits)

lemma length_sha256 [simp]: "length (sha256 message) = 32"
  by (simp add: sha256_def Let_def split: prod.splits)

text \<open>
  C25.  The digest of the code is the digest of the standard.  Assembling one or two final blocks
  from the tail gives, for every message, the same result as padding the whole message to a
  multiple of the block size and folding the compression function over its blocks; and the digest
  always has 32 bytes.
\<close>

theorem sha256_refines_padding:
  "sha256 message = sha256_spec message \<and> length (sha256 message) = 32 \<and> 64 dvd length (pad message)"
proof -
  have "sha256 message = sha256_spec message"
    by (simp add: sha256_blocks sha256_spec_def pad_blocks)
  moreover have "64 dvd length (pad message)"
  proof -
    define n q where "n = length message mod 64" and "q = length message div 64"
    have l: "length message = 64 * q + n" and n: "n < 64" by (simp_all add: n_def q_def)
    have "length (pad message) = length message + (119 - n) mod 64 + 9"
      by (simp add: pad_def n_def)
    also have "\<dots> = 64 * q + n + (119 - n) mod 64 + 9" by (simp only: l)
    also have "\<dots> = 64 * (q + (if n < 56 then 1 else 2))"
    proof (cases "n < 56")
      case True
      then have "(119 - n) mod 64 = 55 - n" by (simp add: le_mod_geq)
      with True show ?thesis by simp
    next
      case False
      with n have "(119 - n) mod 64 = 119 - n" by simp
      with False n show ?thesis by simp
    qed
    finally show ?thesis by simp
  qed
  ultimately show ?thesis using length_sha256 by blast
qed

end
