(* ===== verification/Fid_Cipher.thy ===== *)
theory Fid_Cipher
  imports Fid_Sha256
begin

text \<open>
  The key derivation and the two streams of \<open>fidelity-cipher/src/lib.rs\<close>.  The loops carry the
  cached keystream block as the code does; the lemmas show that they read a keystream that only
  depends on the key and the position.  A subtraction below zero panics when the profile has
  overflow checks and wraps when it has none, so the loops take that choice as their first
  argument.
\<close>

section \<open>The alphabet\<close>

definition FIRST :: u8 where "FIRST = 0x20"

definition LAST :: u8 where "LAST = 0x7E"

definition ALPHABET :: u16 where "ALPHABET = ucast (LAST - FIRST) + 1"

definition MIN_BYTES :: nat where "MIN_BYTES = 8"

definition BYTES_PER_CHARACTER :: nat where "BYTES_PER_CHARACTER = 2"

definition in_alphabet :: "bytes \<Rightarrow> bool" where
  "in_alphabet value = list_all (\<lambda>b. FIRST \<le> b \<and> b \<le> LAST) value"

section \<open>Keys\<close>

definition part_bytes :: "bytes \<Rightarrow> bytes" where
  "part_bytes part = to_le 8 (length part) @ part"

definition derive_salt :: "bytes \<Rightarrow> bytes \<Rightarrow> bytes" where
  "derive_salt seed literal = take 16 (sha256 (part_bytes seed @ part_bytes literal))"

definition CAP :: nat where "CAP = 64"

definition reduce_part :: "bytes \<Rightarrow> bytes" where
  "reduce_part part = (if CAP < length part then sha256 part else part)"

definition key_input :: "bytes \<Rightarrow> bytes \<Rightarrow> bytes" where
  "key_input salt identity = concat (map (\<lambda>part. part_bytes (reduce_part part)) [salt, identity])"

definition derive_key :: "bytes \<Rightarrow> bytes \<Rightarrow> bytes" where
  "derive_key salt identity = sha256 (key_input salt identity)"

section \<open>The streams\<close>

definition sub_u8 :: "bool \<Rightarrow> u8 \<Rightarrow> u8 \<Rightarrow> u8 exec" where
  "sub_u8 checks a b = (if checks \<and> a < b then Panic else Returns (a - b))"

definition block_counter :: "nat \<Rightarrow> u32" where
  "block_counter n = (if n < 2 ^ 32 then of_nat n else - 1)"

definition keystream_block :: "bytes \<Rightarrow> nat \<Rightarrow> bytes" where
  "keystream_block key n = sha256 (key @ to_le 4 (unat (block_counter n)))"

datatype direction = Forward | Backward

definition stream_amount :: "bytes \<Rightarrow> nat \<Rightarrow> u16" where
  "stream_amount block position = of_nat (le_nat [block ! position, block ! (position + 1)]) mod ALPHABET"

definition move_byte :: "direction \<Rightarrow> u16 \<Rightarrow> u16 \<Rightarrow> u8" where
  "move_byte dir amount current =
     (let moved = (case dir of
                     Forward \<Rightarrow> (current + amount) mod ALPHABET
                   | Backward \<Rightarrow> (current + ALPHABET - amount) mod ALPHABET)
      in FIRST + (if moved \<le> 0xFF then ucast moved else 0))"

fun step_loop :: "bool \<Rightarrow> bytes \<Rightarrow> direction \<Rightarrow> nat \<Rightarrow> bytes \<Rightarrow> bytes \<Rightarrow> bytes exec" where
  "step_loop checks key dir index block [] = Returns []"
| "step_loop checks key dir index block (byte # rest) =
     (let offset = index * BYTES_PER_CHARACTER;
          position = offset mod 32;
          block = (if position = 0 then keystream_block key (offset div 32) else block);
          amount = stream_amount block position
      in exec_bind (sub_u8 checks byte FIRST) (\<lambda>current.
         exec_bind (step_loop checks key dir (index + 1) block rest) (\<lambda>out.
           Returns (move_byte dir amount (ucast current) # out))))"

definition step :: "bool \<Rightarrow> bytes \<Rightarrow> bytes \<Rightarrow> direction \<Rightarrow> bytes exec" where
  "step checks key value dir = step_loop checks key dir 0 (replicate 32 0) value"

definition encrypt :: "bool \<Rightarrow> bytes \<Rightarrow> bytes \<Rightarrow> bytes exec" where
  "encrypt checks key plain =
     (if in_alphabet plain then step checks key plain Forward else Panic)"

definition decrypt :: "bool \<Rightarrow> bytes \<Rightarrow> bytes \<Rightarrow> bytes exec" where
  "decrypt checks key value = step checks key value Backward"

fun byte_stream_loop :: "bytes \<Rightarrow> nat \<Rightarrow> bytes \<Rightarrow> bytes \<Rightarrow> bytes" where
  "byte_stream_loop key index block [] = []"
| "byte_stream_loop key index block (byte # rest) =
     (let position = index mod 32;
          block = (if position = 0 then keystream_block key (index div 32) else block)
      in (byte XOR block ! position) # byte_stream_loop key (index + 1) block rest)"

definition byte_stream :: "bytes \<Rightarrow> bytes \<Rightarrow> bytes" where
  "byte_stream key value = byte_stream_loop key 0 (replicate 32 0) value"

definition encrypt_bytes :: "bytes \<Rightarrow> bytes \<Rightarrow> bytes" where
  "encrypt_bytes key plain = byte_stream key plain"

definition decrypt_bytes :: "bytes \<Rightarrow> bytes \<Rightarrow> bytes" where
  "decrypt_bytes key value = byte_stream key value"

section \<open>The streams read a keystream by position\<close>

definition keystream :: "bytes \<Rightarrow> nat \<Rightarrow> u8" where
  "keystream key i = keystream_block key (i div 32) ! (i mod 32)"

definition char_amount :: "bytes \<Rightarrow> nat \<Rightarrow> nat" where
  "char_amount key i = le_nat [keystream key (2 * i), keystream key (2 * i + 1)] mod 95"

text \<open>The letter of a byte, and the step of the reference: a shift of the letters modulo 95.\<close>

definition letter :: "u8 \<Rightarrow> nat" where
  "letter b = unat (b - 0x20)"

definition shift_letter :: "direction \<Rightarrow> nat \<Rightarrow> nat \<Rightarrow> nat" where
  "shift_letter dir k l = (case dir of Forward \<Rightarrow> (l + k) mod 95 | Backward \<Rightarrow> (l + 95 - k) mod 95)"

definition of_letter :: "nat \<Rightarrow> u8" where
  "of_letter l = of_nat (l + 0x20)"

definition step_spec :: "bytes \<Rightarrow> direction \<Rightarrow> bytes \<Rightarrow> bytes" where
  "step_spec key dir value =
     map (\<lambda>(i, b). of_letter (shift_letter dir (char_amount key i) (letter b))) (enumerate 0 value)"

section \<open>Lemmas on the alphabet\<close>

lemma ALPHABET_95: "ALPHABET = 95"
  by (simp add: ALPHABET_def FIRST_def LAST_def)

lemma in_alphabet_iff: "in_alphabet v \<longleftrightarrow> (\<forall>b \<in> set v. 0x20 \<le> unat b \<and> unat b \<le> 0x7E)"
  by (auto simp: in_alphabet_def list_all_iff FIRST_def LAST_def word_le_nat_alt)

lemma in_alphabet_Cons [simp]:
  "in_alphabet (b # v) \<longleftrightarrow> 0x20 \<le> unat b \<and> unat b \<le> 0x7E \<and> in_alphabet v"
  by (auto simp: in_alphabet_iff)

lemma in_alphabet_Nil [simp]: "in_alphabet []"
  by (simp add: in_alphabet_iff)

lemma shift_letter_less [simp]: "shift_letter dir k l < 95"
  by (cases dir) (simp_all add: shift_letter_def)

lemma shift_letter_le [simp]: "94 \<le> n \<Longrightarrow> shift_letter dir k l \<le> n"
  using shift_letter_less [of dir k l] by linarith

lemma shift_letter_back:
  assumes "k < 95" and "l < 95"
  shows "shift_letter Backward k (shift_letter Forward k l) = l"
    and "shift_letter Forward k (shift_letter Backward k l) = l"
  using assms by (auto simp: shift_letter_def mod_if)

lemma unat_of_letter: "l < 95 \<Longrightarrow> unat (of_letter l) = l + 0x20"
  by (simp add: of_letter_def unat_of_nat del: of_nat_add)

lemma letter_in_range: "0x20 \<le> unat b \<Longrightarrow> letter b = unat b - 0x20"
  by (simp add: letter_def unat_sub word_le_nat_alt)

lemma letter_of_letter [simp]: "l < 95 \<Longrightarrow> letter (of_letter l) = l"
  by (simp add: letter_in_range unat_of_letter)

lemma of_letter_letter: "of_letter (letter b) = b"
  by (simp add: letter_def of_letter_def)

lemma unat_mod_alphabet: "n < 2 ^ 16 \<Longrightarrow> unat ((of_nat n :: u16) mod ALPHABET) = n mod 95"
  by (simp add: ALPHABET_95 unat_mod unat_of_nat)

lemma move_byte_spec:
  assumes "unat amount < 95"
  shows "move_byte dir amount (ucast (c :: u8)) = of_letter (shift_letter dir (unat amount) (unat c))"
proof -
  have c: "unat c < 256" using unsigned_less [of c] by simp
  let ?n = "shift_letter dir (unat amount) (unat c)"
  let ?m = "case dir of Forward \<Rightarrow> (ucast c + amount) mod ALPHABET
                      | Backward \<Rightarrow> (ucast c + ALPHABET - amount) mod ALPHABET"
  have "(ucast c + amount :: u16) = of_nat (unat c + unat amount)" by simp
  moreover have "(ucast c + ALPHABET - amount :: u16) = of_nat (unat c + 95 - unat amount)"
    using assms by (simp add: ALPHABET_95 of_nat_diff)
  ultimately have m: "unat ?m = ?n"
    using c assms unat_mod_alphabet [of "unat c + unat amount"] unat_mod_alphabet [of "unat c + 95 - unat amount"]
    by (cases dir) (simp_all add: shift_letter_def)
  then have "?m \<le> 0xFF"  by (simp add: word_le_nat_alt)
  moreover have "(ucast ?m :: u8) = of_nat ?n" using m by (metis of_nat_unat)
  ultimately show ?thesis
    unfolding move_byte_def Let_def by (simp add: of_letter_def FIRST_def)
qed

lemma stream_amount_spec:
  "unat (stream_amount block position) = le_nat [block ! position, block ! (position + 1)] mod 95"
  using le_nat_bound [of "[block ! position, block ! (position + 1)]"]
  unfolding stream_amount_def by (subst unat_mod_alphabet) simp_all

section \<open>Lemmas on the streams\<close>

lemma keystream_pair:
  fixes i :: nat
  shows "(2 * i + 1) div 32 = 2 * i div 32" and "(2 * i + 1) mod 32 = 2 * i mod 32 + 1"
    and "2 * (i + 1) mod 32 \<noteq> 0 \<Longrightarrow> 2 * (i + 1) div 32 = 2 * i div 32"
proof -
  define q r where "q = i div 16" and "r = i mod 16"
  have i: "i = 16 * q + r" and r: "r < 16" by (simp_all add: q_def r_def)
  have split: "(32 * q + x) div 32 = q" "(32 * q + x) mod 32 = x" if "x < 32" for x :: nat
    using that by simp_all
  have "2 * i = 32 * q + 2 * r" using i by simp
  then have even: "2 * i div 32 = q" "2 * i mod 32 = 2 * r"
    using split [of "2 * r"] r by simp_all
  have "2 * i + 1 = 32 * q + (2 * r + 1)" using i by simp
  then have "(2 * i + 1) div 32 = q" "(2 * i + 1) mod 32 = 2 * r + 1"
    using split [of "2 * r + 1"] r by (simp_all only:)
  with even show "(2 * i + 1) div 32 = 2 * i div 32" and "(2 * i + 1) mod 32 = 2 * i mod 32 + 1"
    by simp_all
  assume a: "2 * (i + 1) mod 32 \<noteq> 0"
  have "2 * (i + 1) = 32 * q + (2 * r + 2)" using i by simp
  moreover from this a r have "2 * r + 2 < 32" by (cases "r = 15") auto
  ultimately have "2 * (i + 1) div 32 = q" using split(1) [of "2 * r + 2"] by (simp only:)
  with even show "2 * (i + 1) div 32 = 2 * i div 32" by simp
qed

lemma char_amount_less [simp]: "char_amount key i < 95"
  by (simp add: char_amount_def)

lemma step_loop_spec:
  assumes "index * 2 mod 32 \<noteq> 0 \<Longrightarrow> block = keystream_block key (index * 2 div 32)"
    and "checks \<Longrightarrow> in_alphabet value"
  shows "step_loop checks key dir index block value =
    Returns (map (\<lambda>(i, b). of_letter (shift_letter dir (char_amount key i) (letter b))) (enumerate index value))"
  using assms
proof (induction "value" arbitrary: index block)
  case (Cons byte rest)
  let ?block = "keystream_block key (2 * index div 32)"
  have block: "(if index * 2 mod 32 = 0 then keystream_block key (index * 2 div 32) else block) = ?block"
    using Cons.prems(1) by (simp add: mult.commute)
  have "unat (stream_amount ?block (2 * index mod 32)) = char_amount key index"
    unfolding stream_amount_spec char_amount_def keystream_def keystream_pair(1,2) by simp
  then have move: "move_byte dir (stream_amount ?block (2 * index mod 32)) (ucast (byte - 0x20)) =
      of_letter (shift_letter dir (char_amount key index) (letter byte))"
    by (subst move_byte_spec) (simp_all add: letter_def)
  have "step_loop checks key dir (index + 1) ?block rest =
    Returns (map (\<lambda>(i, b). of_letter (shift_letter dir (char_amount key i) (letter b))) (enumerate (index + 1) rest))"
    using Cons.prems(2) keystream_pair(3) [of index]
    by (intro Cons.IH) (simp_all add: mult.commute)
  moreover have "sub_u8 checks byte FIRST = Returns (byte - 0x20)"
    using Cons.prems(2) by (auto simp: sub_u8_def FIRST_def word_less_nat_alt)
  ultimately show ?case
    using move block by (simp add: Let_def BYTES_PER_CHARACTER_def mult.commute)
qed simp

lemma step_eq_spec:
  "(checks \<Longrightarrow> in_alphabet value) \<Longrightarrow> step checks key value dir = Returns (step_spec key dir value)"
  unfolding step_def step_spec_def by (rule step_loop_spec) simp_all

lemma length_step_spec [simp]: "length (step_spec key dir value) = length value"
  by (simp add: step_spec_def)

lemma nth_step_spec:
  "i < length value \<Longrightarrow>
   step_spec key dir value ! i = of_letter (shift_letter dir (char_amount key i) (letter (value ! i)))"
  by (simp add: step_spec_def nth_enumerate_eq)

lemma step_spec_in_alphabet [simp]: "in_alphabet (step_spec key dir value)"
proof -
  have "0x20 \<le> unat (of_letter (shift_letter dir k l)) \<and> unat (of_letter (shift_letter dir k l)) \<le> 0x7E" for k l
    by (simp add: unat_of_letter)
  then show ?thesis by (auto simp: in_alphabet_iff step_spec_def)
qed

lemma letter_less: "in_alphabet v \<Longrightarrow> i < length v \<Longrightarrow> letter (v ! i) < 95"
  by (fastforce simp: in_alphabet_iff letter_in_range dest: nth_mem)

lemma step_spec_back:
  assumes "in_alphabet v"
  shows "step_spec key Backward (step_spec key Forward v) = v"
    and "step_spec key Forward (step_spec key Backward v) = v"
  using letter_less [OF assms]
  by (auto intro!: nth_equalityI simp: nth_step_spec shift_letter_back of_letter_letter)

lemma byte_stream_loop_spec:
  assumes "index mod 32 \<noteq> 0 \<Longrightarrow> block = keystream_block key (index div 32)"
  shows "byte_stream_loop key index block value =
    map (\<lambda>(i, b). b XOR keystream key i) (enumerate index value)"
  using assms
proof (induction "value" arbitrary: index block)
  case (Cons byte rest)
  have "Suc index mod 32 \<noteq> 0 \<Longrightarrow> Suc index div 32 = index div 32" by (simp add: div_Suc)
  with Cons show ?case by (auto simp: Let_def keystream_def)
qed simp

lemma byte_stream_spec:
  "byte_stream key value = map (\<lambda>(i, b). b XOR keystream key i) (enumerate 0 value)"
  unfolding byte_stream_def by (rule byte_stream_loop_spec) simp

lemma byte_stream_involution: "byte_stream key (byte_stream key value) = value"
  by (auto intro!: nth_equalityI simp: byte_stream_spec nth_enumerate_eq xor.assoc)

lemma length_byte_stream [simp]: "length (byte_stream key value) = length value"
  by (simp add: byte_stream_spec)

text \<open>Every key gives a bijection on the printable texts of one length.\<close>

lemma step_spec_bij:
  "bij_betw (step_spec key dir) {v. in_alphabet v \<and> length v = n} {v. in_alphabet v \<and> length v = n}"
  by (rule bij_betw_byWitness [where f' = "step_spec key (case dir of Forward \<Rightarrow> Backward | Backward \<Rightarrow> Forward)"])
     (cases dir; auto simp: step_spec_back)+

section \<open>Lemmas on the key derivation\<close>

lemma part_bytes_inj:
  assumes "part_bytes p @ xs = part_bytes q @ ys" and "length p < 2 ^ 64" and "length q < 2 ^ 64"
  shows "p = q \<and> xs = ys"
proof -
  from assms(1) have e: "to_le 8 (length p) = to_le 8 (length q)" and r: "p @ xs = q @ ys"
    by (auto simp: part_bytes_def append_eq_append_conv)
  from e have "length p mod 2 ^ 64 = length q mod 2 ^ 64"
    using le_nat_to_le [of 8 "length p"] le_nat_to_le [of 8 "length q"] by simp
  with assms(2,3) have "length p = length q" by simp
  with r show ?thesis by simp
qed

lemma length_reduce_part: "length (reduce_part part) \<le> CAP"
  by (simp add: reduce_part_def CAP_def)

lemma reduce_part_idem: "reduce_part (reduce_part part) = reduce_part part"
  using length_reduce_part [of part] by (simp add: reduce_part_def)

lemma key_input_inj:
  assumes "key_input salt identity = key_input salt' identity'"
  shows "reduce_part salt = reduce_part salt' \<and> reduce_part identity = reduce_part identity'"
proof -
  have l: "length (reduce_part p) < 2 ^ 64" for p
    using length_reduce_part [of p] by (simp add: CAP_def)
  from assms have "part_bytes (reduce_part salt) @ part_bytes (reduce_part identity) @ [] =
      part_bytes (reduce_part salt') @ part_bytes (reduce_part identity') @ []"
    by (simp add: key_input_def)
  then show ?thesis using part_bytes_inj [OF _ l l] by blast
qed

section \<open>Properties\<close>

text \<open>
  The stream preserves the alphabet and inverts.  For every key and every printable literal,
  encryption returns a value (the assertion holds and no subtraction underflows, with or without
  overflow checks), the value is printable and as long as the literal, and decryption under the
  same key returns the literal.
\<close>

lemma cipher_roundtrip:
  assumes "in_alphabet plain"
  shows "\<exists>v. encrypt checks key plain = Returns v \<and> in_alphabet v \<and> length v = length plain
    \<and> decrypt checks key v = Returns plain"
  using assms by (simp add: encrypt_def decrypt_def step_eq_spec step_spec_back)

text \<open>
  C22.  No key gives an error.  Decrypting a printable value under any key at all returns a
  printable value of the same length, and every key acts as a bijection on the printable values of
  one length, so that every printable text of that length is the reading of the value under some
  permutation and the shape of a reading says nothing about the key.  A build without overflow checks stays
  printable even on bytes outside the alphabet.
\<close>

theorem decrypt_total_in_alphabet:
  assumes "\<not> checks \<or> in_alphabet v"
  shows "(\<exists>p. decrypt checks key v = Returns p \<and> in_alphabet p \<and> length p = length v)
    \<and> bij_betw (\<lambda>w. case decrypt checks key w of Returns p \<Rightarrow> p | Panic \<Rightarrow> [])
        {w. in_alphabet w \<and> length w = n} {w. in_alphabet w \<and> length w = n}"
proof -
  have "bij_betw (\<lambda>w. case decrypt checks key w of Returns p \<Rightarrow> p | Panic \<Rightarrow> [])
        {w. in_alphabet w \<and> length w = n} {w. in_alphabet w \<and> length w = n} \<longleftrightarrow>
      bij_betw (step_spec key Backward) {w. in_alphabet w \<and> length w = n} {w. in_alphabet w \<and> length w = n}"
    by (rule bij_betw_cong) (simp add: decrypt_def step_eq_spec)
  moreover have "decrypt checks key v = Returns (step_spec key Backward v)"
    unfolding decrypt_def using assms by (intro step_eq_spec) auto
  ultimately show ?thesis using step_spec_bij by simp
qed

theorem decrypt_total_in_alphabet_witness:
  "\<exists>p. decrypt True [] [0x41, 0x42] = Returns p \<and> in_alphabet p \<and> length p = length [0x41, 0x42 :: u8]"
  by (rule decrypt_total_in_alphabet [THEN conjunct1]) simp

text \<open>
  C23.  The stream is a shift by the keystream.  The loop keeps one block and recomputes it every
  sixteen characters, and both directions still move the character at position \<open>i\<close> by the amount
  that two bytes of \<open>sha256 (key || counter)\<close> at offset \<open>2 * i\<close> state, modulo the 95 characters of
  the alphabet: forward by addition, backward by subtraction, with no wrap-around of the 16-bit or
  8-bit arithmetic.
\<close>

theorem stream_shifts_by_keystream:
  assumes "in_alphabet v" and "i < length v"
  shows "\<exists>e d. step checks key v Forward = Returns e \<and> step checks key v Backward = Returns d
    \<and> unat (e ! i) = 0x20 + (unat (v ! i) - 0x20 + char_amount key i) mod 95
    \<and> unat (d ! i) = 0x20 + (unat (v ! i) - 0x20 + 95 - char_amount key i) mod 95"
proof -
  have "0x20 \<le> unat (v ! i)" using assms by (simp add: in_alphabet_iff)
  then have "unat (step_spec key Forward v ! i) = 0x20 + (unat (v ! i) - 0x20 + char_amount key i) mod 95"
    and "unat (step_spec key Backward v ! i) = 0x20 + (unat (v ! i) - 0x20 + 95 - char_amount key i) mod 95"
    using assms(2) by (simp_all add: nth_step_spec unat_of_letter shift_letter_def letter_in_range)
  then show ?thesis using assms(1) by (simp add: step_eq_spec)
qed

theorem stream_shifts_by_keystream_witness:
  "\<exists>e d. step True [] [0x20, 0x7E] Forward = Returns e \<and> step True [] [0x20, 0x7E] Backward = Returns d
    \<and> unat (e ! 1) = 0x20 + (unat ([0x20, 0x7E :: u8] ! 1) - 0x20 + char_amount [] 1) mod 95
    \<and> unat (d ! 1) = 0x20 + (unat ([0x20, 0x7E :: u8] ! 1) - 0x20 + 95 - char_amount [] 1) mod 95"
  by (rule stream_shifts_by_keystream) simp_all

text \<open>
  The byte stream.  It is the exclusive or with a keystream that depends on the key and the
  position alone, although the loop keeps one block and recomputes it every 32 bytes; so the two
  directions are inverse on arbitrary bytes.
\<close>

lemma byte_stream_exact:
  "decrypt_bytes key (encrypt_bytes key plain) = plain \<and> length (encrypt_bytes key plain) = length plain
   \<and> (\<forall>i < length plain. encrypt_bytes key plain ! i = plain ! i XOR sha256 (key @ to_le 4 (unat (block_counter (i div 32)))) ! (i mod 32))"
  by (simp add: encrypt_bytes_def decrypt_bytes_def byte_stream_involution)
     (simp add: byte_stream_spec nth_enumerate_eq keystream_def keystream_block_def)

text \<open>
  What the key derivation tells apart.  Two pairs of salt and identity give the same hash
  input exactly when their reduced parts agree: no split of the bytes is ambiguous.  A part within
  the cap is its own reduction, so for a 16-byte salt and identities of at most 64 bytes the hash
  input determines both.  A longer identity is not told apart from its own digest: the two derive
  the same key.
\<close>

lemma derive_key_separates:
  "(key_input salt identity = key_input salt' identity' \<longleftrightarrow>
      reduce_part salt = reduce_part salt' \<and> reduce_part identity = reduce_part identity')
   \<and> (length salt \<le> 64 \<and> length salt' \<le> 64 \<and> length identity \<le> 64 \<and> length identity' \<le> 64 \<longrightarrow>
      key_input salt identity = key_input salt' identity' \<longrightarrow> salt = salt' \<and> identity = identity')
   \<and> (64 < length long \<longrightarrow> derive_key salt long = derive_key salt (sha256 long) \<and> long \<noteq> sha256 long)"
proof -
  have "reduce_part p = p" if "length p \<le> 64" for p using that by (simp add: reduce_part_def CAP_def)
  moreover have "reduce_part long = sha256 long" if "64 < length long" using that by (simp add: reduce_part_def CAP_def)
  moreover have "reduce_part (sha256 long) = sha256 long" by (simp add: reduce_part_def CAP_def)
  moreover have "long \<noteq> sha256 long" if "64 < length long"
  proof
    assume "long = sha256 long"
    then have "length long = 32" by (metis length_sha256)
    with that show False by simp
  qed
  ultimately show ?thesis
    using key_input_inj [of salt identity salt' identity']
    by (auto simp: derive_key_def key_input_def)
qed

lemma derive_key_separates_example:
  "derive_key (replicate 16 7) (replicate 65 1) = derive_key (replicate 16 7) (sha256 (replicate 65 1))
   \<and> key_input (replicate 16 7) [1, 2] \<noteq> key_input (replicate 16 7) [1, 3]"
  using derive_key_separates [of "replicate 16 7" "[1, 2]" "replicate 16 7" "[1, 3]" "replicate 65 1"] by auto

end
