(* ===== verification/Fid_Guarded.thy ===== *)
theory Fid_Guarded
  imports Fid_Cipher Fid_Process
begin

text \<open>
  Guarded constants, from the build to the read.  The binding of a build
  (\<open>fidelity-cipher/src/binding.rs\<close>) and the build script that checks it (\<open>fidelity/build.rs\<close>), the
  literal reader and the expansion of the macros (\<open>fidelity-macros\<close>), and the read of the
  runtime (\<open>fidelity/src/secret.rs\<close>).  A compile error is the left value of a sum and carries the
  message of the code; a panic of the build script or of the cipher is \<open>Panic\<close>.
\<close>

section \<open>Binding\<close>

abbreviation dq :: string where
  "dq \<equiv> [CHR 0x22]"

definition NO_IDENTITY :: string where
  "NO_IDENTITY = ''none''"

datatype material = AppleTeam | WindowsCertificate | AndroidCertificate

definition EVERY :: "material list" where
  "EVERY = [AppleTeam, WindowsCertificate, AndroidCertificate]"

fun material_name :: "material \<Rightarrow> string" where
  "material_name AppleTeam = ''apple''"
| "material_name WindowsCertificate = ''windows''"
| "material_name AndroidCertificate = ''android''"

definition of_target :: "string \<Rightarrow> material option" where
  "of_target target_os =
     (if target_os = ''macos'' \<or> target_os = ''ios'' then Some AppleTeam
      else if target_os = ''windows'' then Some WindowsCertificate
      else if target_os = ''android'' then Some AndroidCertificate
      else None)"

text \<open>\<open>char::is_control\<close>, on the encoded character.\<close>

definition is_control :: "string \<Rightarrow> bool" where
  "is_control c \<longleftrightarrow> (case map code c of
       [a] \<Rightarrow> a < 0x20 \<or> a = 0x7F
     | [a, b] \<Rightarrow> a = 0xC2 \<and> 0x80 \<le> b \<and> b \<le> 0x9F
     | _ \<Rightarrow> False)"

definition is_lower_hexdigit :: "char \<Rightarrow> bool" where
  "is_lower_hexdigit c \<longleftrightarrow> (0x30 \<le> code c \<and> code c \<le> 0x39) \<or> (0x61 \<le> code c \<and> code c \<le> 0x66)"

definition refuses :: "material \<Rightarrow> string \<Rightarrow> string option" where
  "refuses m v = (case m of
       AppleTeam \<Rightarrow>
         if list_ex (\<lambda>c. is_whitespace c \<or> is_control c) (chars v)
         then Some ''an Apple team identifier holds no space'' else None
     | _ \<Rightarrow>
         if length v = 64 \<and> list_all (\<lambda>c. case c of [d] \<Rightarrow> is_lower_hexdigit d | _ \<Rightarrow> False) (chars v) then None
         else Some (''a signing certificate digest is 64 lowercase hexadecimal digits, and this one has ''
                    @ dec (length v) @ ''. Use the SHA-256 digest, with no separator''))"

datatype binding = Absent | Present material string

definition unnamed :: "string \<Rightarrow> string" where
  "unnamed stated =
     (if stated = [] then ''the identity value is empty, and silence states nothing''
      else ''the identity value names no material kind'')"

fun join_with :: "string \<Rightarrow> string list \<Rightarrow> string" where
  "join_with sep [] = []"
| "join_with sep [s] = s"
| "join_with sep (s # t # r) = s @ sep @ join_with sep (t # r)"

definition accepted :: string where
  "accepted = ''Write '' @ join_with '' or '' (map (\<lambda>k. dq @ material_name k @ '':<value>'' @ dq) EVERY)
     @ '', or '' @ dq @ NO_IDENTITY @ dq @ '' to state that this build binds to no identity''"

definition parse_binding :: "string \<Rightarrow> string + binding" where
  "parse_binding stated =
     (if stated = NO_IDENTITY then Inr Absent
      else case split_once stated '':'' of
        None \<Rightarrow> Inl (unnamed stated @ ''. '' @ accepted)
      | Some (name, v) \<Rightarrow>
          (case find (\<lambda>k. material_name k = name) EVERY of
             None \<Rightarrow> Inl (''the identity value names the kind '' @ dq @ name @ dq
                          @ '', which no platform reports. '' @ accepted)
           | Some m \<Rightarrow>
               if v = [] then Inl (''the identity value names the kind '' @ dq @ name @ dq
                                   @ '' and no material after it'')
               else (case refuses m v of
                       Some reason \<Rightarrow> Inl (''the identity value is not usable: '' @ reason)
                     | None \<Rightarrow> Inr (Present m v))))"

definition check_target :: "material \<Rightarrow> string \<Rightarrow> string + unit" where
  "check_target m target_os = (case of_target target_os of
       Some reported \<Rightarrow>
         if reported = m then Inr ()
         else Inl (''the build names '' @ material_name m @ '' material, and the target '' @ dq @ target_os @ dq
           @ '' reports '' @ material_name reported
           @ '' material. The key derivation would take material that the running image never reports, ''
           @ ''and every guarded constant would decrypt to a wrong value with no error'')
     | None \<Rightarrow> Inl (''the build names '' @ material_name m @ '' material, and the target '' @ dq @ target_os @ dq
           @ '' reports no code identity at all. Set the identity value to '' @ dq @ NO_IDENTITY @ dq
           @ '' for this target''))"

text \<open>\<open>binds_identity\<close> of the build script.\<close>

definition binds_identity :: "string \<Rightarrow> string \<Rightarrow> bool exec" where
  "binds_identity stated target_os =
     (if stated = [] then Returns False
      else case parse_binding stated of
        Inr Absent \<Rightarrow> Returns False
      | Inr (Present m v) \<Rightarrow> (case check_target m target_os of Inl _ \<Rightarrow> Panic | Inr _ \<Rightarrow> Returns True)
      | Inl _ \<Rightarrow> Panic)"

section \<open>Literals\<close>

abbreviation backslash :: string where
  "backslash \<equiv> [CHR 0x5C]"

definition repeat_hash :: "nat \<Rightarrow> string" where
  "repeat_hash n = replicate n (CHR ''#'')"

definition raw_body_after :: "string \<Rightarrow> string \<Rightarrow> string option" where
  "raw_body_after prefix token =
     Option.bind (strip_prefix token prefix) (\<lambda>rest.
       let hashes = length rest - length (dropWhile (\<lambda>c. c = CHR ''#'') rest) in
       Option.bind (strip_prefix rest (repeat_hash hashes)) (\<lambda>opened.
       Option.bind (strip_prefix opened dq) (\<lambda>body.
         strip_suffix body (dq @ repeat_hash hashes))))"

definition raw_body :: "string \<Rightarrow> string option" where
  "raw_body = raw_body_after ''r''"

definition raw_byte_body :: "string \<Rightarrow> string option" where
  "raw_byte_body = raw_body_after ''br''"

text \<open>
  The escape loop of both readers: the escapes of one character, the message of any other, and
  whether a character outside ASCII may stand for itself.
\<close>

definition next_or :: "string list \<Rightarrow> string" where
  "next_or cs = (case cs of [] \<Rightarrow> ''_'' | c # _ \<Rightarrow> c)"

fun push_bytes :: "bytes \<Rightarrow> string + bytes \<Rightarrow> string + bytes" where
  "push_bytes bs (Inl e) = Inl e"
| "push_bytes bs (Inr r) = Inr (bs @ r)"

definition hex_escape :: "string \<Rightarrow> string \<Rightarrow> string + u8" where
  "hex_escape high low = (case from_str_radix 8 16 (high @ low) of
       Some v \<Rightarrow> Inr (of_nat v)
     | None \<Rightarrow> Inl (''the escape '' @ backslash @ ''x'' @ high @ low @ '' is not a byte''))"

function unescape :: "string list \<Rightarrow> string + bytes" where
  "unescape [] = Inr []"
| "unescape (c # cs) =
     (if c \<noteq> backslash then push_bytes (as_bytes c) (unescape cs)
      else case cs of
        [] \<Rightarrow> Inl ''the literal ends inside an escape''
      | e # rest \<Rightarrow>
          if e = backslash then push_bytes [0x5C] (unescape rest)
          else if e = dq then push_bytes [0x22] (unescape rest)
          else if e = [CHR 0x27] then push_bytes [0x27] (unescape rest)
          else if e = ''x'' then
            (case hex_escape (next_or rest) (next_or (drop 1 rest)) of
               Inl m \<Rightarrow> Inl m
             | Inr v \<Rightarrow> push_bytes [v] (unescape (drop 2 rest)))
          else Inl (''a guarded literal cannot carry the escape '' @ backslash @ e
                    @ '', because it leaves printable ASCII''))"
  by pat_completeness auto
termination
  by (relation "measure length") auto

definition parse_literal :: "string \<Rightarrow> string + bytes" where
  "parse_literal token = (case raw_body token of
       Some body \<Rightarrow> Inr (as_bytes body)
     | None \<Rightarrow>
         (case Option.bind (strip_prefix token dq) (\<lambda>rest. strip_suffix rest dq) of
            None \<Rightarrow> Inl (''guarded!() takes a string literal, and it received '' @ token)
          | Some body \<Rightarrow> unescape (chars body)))"

definition ascii_only :: string where
  "ascii_only = ''a byte-string literal holds ASCII or byte escapes''"

function unescape_bytes :: "string list \<Rightarrow> string + bytes" where
  "unescape_bytes [] = Inr []"
| "unescape_bytes (c # cs) =
     (if c \<noteq> backslash then
        (if \<not> list_all is_ascii c then Inl ascii_only else push_bytes (as_bytes c) (unescape_bytes cs))
      else case cs of
        [] \<Rightarrow> Inl ''the byte-string literal ends inside an escape''
      | e # rest \<Rightarrow>
          if e = backslash then push_bytes [0x5C] (unescape_bytes rest)
          else if e = dq then push_bytes [0x22] (unescape_bytes rest)
          else if e = ''n'' then push_bytes [0x0A] (unescape_bytes rest)
          else if e = ''r'' then push_bytes [0x0D] (unescape_bytes rest)
          else if e = ''t'' then push_bytes [0x09] (unescape_bytes rest)
          else if e = ''0'' then push_bytes [0] (unescape_bytes rest)
          else if e = ''x'' then
            (case hex_escape (next_or rest) (next_or (drop 1 rest)) of
               Inl m \<Rightarrow> Inl m
             | Inr v \<Rightarrow> push_bytes [v] (unescape_bytes (drop 2 rest)))
          else Inl (''the byte-string escape '' @ backslash @ e @ '' is invalid''))"
  by pat_completeness auto
termination
  by (relation "measure length") auto

definition parse_bytes :: "string \<Rightarrow> string + bytes" where
  "parse_bytes token = (case raw_byte_body token of
       Some body \<Rightarrow> if list_all is_ascii body then Inr (as_bytes body) else Inl ascii_only
     | None \<Rightarrow>
         (case Option.bind (strip_prefix token (''b'' @ dq)) (\<lambda>rest. strip_suffix rest dq) of
            None \<Rightarrow> Inl (''guarded_bytes!() takes a byte-string literal, and it received '' @ token)
          | Some body \<Rightarrow> unescape_bytes (chars body)))"

section \<open>Expansion\<close>

datatype literal_kind = TextLiteral | BytesLiteral

text \<open>A token tree, as far as the macro tells the trees apart; a literal carries its source text.\<close>

datatype token_tree = Punct char | Literal string | OtherTree string

fun split_loop :: "token_tree list \<Rightarrow> bool \<Rightarrow> token_tree list \<Rightarrow> token_tree list
    \<Rightarrow> bool \<times> token_tree list \<times> token_tree list" where
  "split_loop [] seen handle tail = (seen, handle, tail)"
| "split_loop (t # ts) seen handle tail =
     (if t = Punct (CHR '','') \<and> \<not> seen then split_loop ts True handle tail
      else if seen then split_loop ts seen handle (tail @ [t])
      else split_loop ts seen (handle @ [t]) tail)"

fun kind_names :: "literal_kind \<Rightarrow> string \<times> string" where
  "kind_names TextLiteral = (''guarded!()'', ''string literal'')"
| "kind_names BytesLiteral = (''guarded_bytes!()'', ''byte-string literal'')"

definition split_input :: "token_tree list \<Rightarrow> literal_kind \<Rightarrow> string + token_tree list \<times> string" where
  "split_input input kind =
     (let (name, literal_name) = kind_names kind;
          (seen_comma, handle, tail) = split_loop input False [] []
      in if \<not> seen_comma then Inl (name @ '' takes a handle and a '' @ literal_name @ '', separated by a comma'')
         else if handle = [] then Inl (name @ '' needs a handle before the literal'')
         else (case tail of
                 [Literal l] \<Rightarrow> Inr (handle, l)
               | [] \<Rightarrow> Inl (name @ '' needs a '' @ literal_name @ '' after the handle'')
               | _ \<Rightarrow> Inl (name @ '' takes one '' @ literal_name @ '', and it must be written in place. ''
                        @ ''A constant or a variable would put the plaintext in the binary'')))"

text \<open>
  What \<open>assemble\<close> writes into the call: the handle expression, the two constant arrays, the
  \<open>BOUND\<close> argument and which reader is called.
\<close>

record expansion =
  ex_handle :: "token_tree list"
  ex_salt :: bytes
  ex_value :: bytes
  ex_bound :: bool
  ex_reader :: literal_kind

definition seed_missing :: string where
  "seed_missing = ''set FIDELITY_BUILD_SEED to a value that this build owns. Two builds with two seeds carry two ''
     @ ''different guarded values, so one extractor cannot defeat both. A default seed ''
     @ ''would give every host the same one''"

definition short_literal :: "nat \<Rightarrow> string" where
  "short_literal n = ''a guarded literal needs '' @ dec MIN_BYTES @ '' bytes or more, and this one has '' @ dec n
     @ ''. A short value leaves an attacker few possibilities to try''"

definition outside_alphabet :: string where
  "outside_alphabet = ''a guarded literal holds printable ASCII only. The stream stays inside that ''
     @ ''alphabet, so that a wrong key gives a wrong value instead of a decode failure, ''
     @ ''and a decode failure would tell an attacker that the key is wrong''"

definition parse_kind :: "literal_kind \<Rightarrow> string \<Rightarrow> string + bytes" where
  "parse_kind kind literal = (case kind of TextLiteral \<Rightarrow> parse_literal literal | BytesLiteral \<Rightarrow> parse_bytes literal)"

definition bound_material :: "binding \<Rightarrow> bool \<times> bytes" where
  "bound_material b = (case b of Absent \<Rightarrow> (False, []) | Present m v \<Rightarrow> (True, as_bytes v))"

text \<open>The seed and identity variables of the environment are \<open>None\<close> when a build states none.\<close>

definition expand :: "bool \<Rightarrow> string option \<Rightarrow> string option \<Rightarrow> token_tree list \<Rightarrow> literal_kind
    \<Rightarrow> (string + expansion) exec" where
  "expand checks seed_var identity_var input kind =
     (case split_input input kind of Inl m \<Rightarrow> Returns (Inl m) | Inr (handle, literal) \<Rightarrow>
     (case parse_kind kind literal of Inl m \<Rightarrow> Returns (Inl m) | Inr plain \<Rightarrow>
      if length plain < MIN_BYTES then Returns (Inl (short_literal (length plain)))
      else if kind = TextLiteral \<and> \<not> in_alphabet plain then Returns (Inl outside_alphabet)
      else (case seed_var of None \<Rightarrow> Returns (Inl seed_missing) | Some seed \<Rightarrow>
      let stated = (case identity_var of None \<Rightarrow> [] | Some s \<Rightarrow> s) in
      (case parse_binding stated of
         Inl reason \<Rightarrow> Returns (Inl (''FIDELITY_CODE_IDENTITY states no usable value: '' @ reason))
       | Inr b \<Rightarrow>
           let (bound, material) = bound_material b;
               salt = derive_salt (as_bytes seed) plain;
               key = derive_key salt material
           in exec_bind (case kind of
                  TextLiteral \<Rightarrow> encrypt checks key plain
                | BytesLiteral \<Rightarrow> Returns (encrypt_bytes key plain)) (\<lambda>v.
              Returns (Inr \<lparr>ex_handle = handle, ex_salt = salt, ex_value = v, ex_bound = bound,
                            ex_reader = kind\<rparr>))))))"

section \<open>The read\<close>

text \<open>A secret is its buffer; \<open>as_str\<close> falls back to the empty text on invalid UTF-8.\<close>

definition secret_as_str :: "bytes \<Rightarrow> string" where
  "secret_as_str bs = (let s = map (\<lambda>b. char_of (unat b)) bs in if utf8_valid s then s else [])"

definition secret_drop :: "bytes \<Rightarrow> bytes" where
  "secret_drop bs = map (\<lambda>_. 0) bs"

definition guarded_key :: "bool \<Rightarrow> runtime \<Rightarrow> bytes \<Rightarrow> bytes" where
  "guarded_key bound rt salt =
     (let identity = (if bound then handle_code_identity rt else [])
      in derive_key salt identity)"

definition read_guarded :: "bool \<Rightarrow> bool \<Rightarrow> runtime \<Rightarrow> bytes \<Rightarrow> bytes \<Rightarrow> bytes exec" where
  "read_guarded checks bound rt salt v = decrypt checks (guarded_key bound rt salt) v"

definition read_guarded_bytes :: "bool \<Rightarrow> runtime \<Rightarrow> bytes \<Rightarrow> bytes \<Rightarrow> bytes" where
  "read_guarded_bytes bound rt salt v = decrypt_bytes (guarded_key bound rt salt) v"

text \<open>What the expanded expression evaluates to in a process with a started runtime.\<close>

definition run_expansion :: "bool \<Rightarrow> runtime \<Rightarrow> expansion \<Rightarrow> bytes exec" where
  "run_expansion checks rt x = (case ex_reader x of
       TextLiteral \<Rightarrow> read_guarded checks (ex_bound x) rt (ex_salt x) (ex_value x)
     | BytesLiteral \<Rightarrow> Returns (read_guarded_bytes (ex_bound x) rt (ex_salt x) (ex_value x)))"

section \<open>Lemmas on the expansion\<close>

lemma expand_cases:
  "expand checks seed_var identity_var input kind = Returns (Inr x) \<longleftrightarrow>
     (\<exists>handle literal plain seed b v.
        split_input input kind = Inr (handle, literal) \<and> parse_kind kind literal = Inr plain
        \<and> MIN_BYTES \<le> length plain \<and> (kind = TextLiteral \<longrightarrow> in_alphabet plain)
        \<and> seed_var = Some seed \<and> parse_binding (case identity_var of None \<Rightarrow> [] | Some s \<Rightarrow> s) = Inr b
        \<and> (case kind of TextLiteral \<Rightarrow> encrypt checks (derive_key (derive_salt (as_bytes seed) plain) (snd (bound_material b))) plain
             | BytesLiteral \<Rightarrow> Returns (encrypt_bytes (derive_key (derive_salt (as_bytes seed) plain) (snd (bound_material b))) plain)) = Returns v
        \<and> x = \<lparr>ex_handle = handle, ex_salt = derive_salt (as_bytes seed) plain, ex_value = v,
               ex_bound = fst (bound_material b), ex_reader = kind\<rparr>)"
  by (cases "split_input input kind")
     (auto simp: expand_def Let_def not_less split_beta' split: sum.splits option.splits if_splits)

lemma encrypt_Returns: "in_alphabet plain \<Longrightarrow> encrypt checks key plain = Returns (step_spec key Forward plain)"
  by (simp add: encrypt_def step_eq_spec)

lemma decrypt_Returns: "in_alphabet v \<Longrightarrow> decrypt checks key v = Returns (step_spec key Backward v)"
  by (simp add: decrypt_def step_eq_spec)

lemma secret_as_str_printable:
  assumes "in_alphabet bs"
  shows "as_bytes (secret_as_str bs) = bs"
proof -
  have "unat b < 256" for b :: u8 using unsigned_less [of b] by simp
  moreover have "list_all is_ascii (map (\<lambda>b. char_of (unat b)) bs)"
    using assms by (auto simp: in_alphabet_iff list_all_iff is_ascii_def)
  ultimately show ?thesis
    by (auto simp: secret_as_str_def as_bytes_def Let_def utf8_valid_ascii intro!: nth_equalityI)
qed

lemma expand_accepts:
  "(\<exists>x. expand checks seed_var identity_var input kind = Returns (Inr x)) \<longleftrightarrow>
     (\<exists>handle literal plain b.
        split_input input kind = Inr (handle, literal) \<and> parse_kind kind literal = Inr plain
        \<and> MIN_BYTES \<le> length plain \<and> (kind = TextLiteral \<longrightarrow> in_alphabet plain)
        \<and> seed_var \<noteq> None \<and> parse_binding (case identity_var of None \<Rightarrow> [] | Some s \<Rightarrow> s) = Inr b)"
  unfolding expand_cases by (cases kind) (fastforce simp: encrypt_Returns)+

lemma expand_no_panic: "expand checks seed_var identity_var input kind \<noteq> Panic"
  by (cases "split_input input kind"; cases kind)
     (auto simp: expand_def Let_def encrypt_Returns split_beta' split: sum.splits option.splits)

lemma split_loop_seen: "split_loop ts True handle tail = (True, handle, tail @ ts)"
  by (induction ts arbitrary: tail) auto

lemma split_loop_call:
  "Punct (CHR '','') \<notin> set h \<Longrightarrow>
   split_loop (h @ Punct (CHR '','') # ts) False handle tail = (True, handle @ h, tail @ ts)"
  by (induction h arbitrary: handle) (auto simp: split_loop_seen)

lemma split_loop_no_comma:
  "Punct (CHR '','') \<notin> set ts \<Longrightarrow> split_loop ts False handle tail = (False, handle @ ts, tail)"
  by (induction ts arbitrary: handle) auto

lemma first_sep_unique:
  "c \<notin> set h \<Longrightarrow> c \<notin> set h' \<Longrightarrow> h @ c # ts = h' @ c # ts' \<longleftrightarrow> h = h' \<and> ts = ts'"
proof (induction h arbitrary: h')
  case Nil
  then show ?case by (cases h') auto
next
  case (Cons a h)
  then show ?case by (cases h') auto
qed

lemma split_input_exact:
  "split_input input kind = Inr (handle, literal) \<longleftrightarrow>
     input = handle @ [Punct (CHR '',''), Literal literal] \<and> handle \<noteq> [] \<and> Punct (CHR '','') \<notin> set handle"
proof (cases "Punct (CHR '','') \<in> set input")
  case True
  then obtain h ts where i: "input = h @ Punct (CHR '','') # ts" "Punct (CHR '','') \<notin> set h"
    by (metis split_list_first)
  then have "input = handle @ [Punct (CHR '',''), Literal literal] \<and> Punct (CHR '','') \<notin> set handle \<longleftrightarrow>
      h = handle \<and> ts = [Literal literal]"
    using first_sep_unique [of "Punct (CHR '','')" h handle ts "[Literal literal]"] by auto
  then show ?thesis
    using i by (auto simp: split_input_def split_loop_call split: prod.splits list.splits token_tree.splits)
next
  case False
  then show ?thesis by (auto simp: split_input_def split_loop_no_comma split: prod.splits)
qed

section \<open>Lemmas on the binding\<close>

lemma material_name_no_colon: "CHR '':'' \<notin> set (material_name m)"
  by (cases m) auto

lemma find_material: "find (\<lambda>k. material_name k = name) EVERY = Some m \<longleftrightarrow> name = material_name m"
  by (cases m) (auto simp: EVERY_def)

lemma parse_binding_Present:
  "parse_binding stated = Inr (Present m v) \<longleftrightarrow>
     stated = material_name m @ '':'' @ v \<and> v \<noteq> [] \<and> refuses m v = None"
proof
  assume "parse_binding stated = Inr (Present m v)"
  then obtain name where "split_once stated '':'' = Some (name, v)"
    and "find (\<lambda>k. material_name k = name) EVERY = Some m" "v \<noteq> []" "refuses m v = None"
    by (auto simp: parse_binding_def split: if_splits option.splits prod.splits)
  then show "stated = material_name m @ '':'' @ v \<and> v \<noteq> [] \<and> refuses m v = None"
    using split_once_Some [of stated "'':''"] by (simp add: find_material)
next
  assume a: "stated = material_name m @ '':'' @ v \<and> v \<noteq> [] \<and> refuses m v = None"
  then have "split_once stated '':'' = Some (material_name m, v)"
    by (simp add: split_once_char material_name_no_colon)
  moreover have "find (\<lambda>k. material_name k = material_name m) EVERY = Some m" by (simp add: find_material)
  moreover have "stated \<noteq> NO_IDENTITY" using a by (cases m) (auto simp: NO_IDENTITY_def)
  ultimately show "parse_binding stated = Inr (Present m v)"
    using a by (simp add: parse_binding_def)
qed

lemma parse_binding_Absent: "parse_binding stated = Inr Absent \<longleftrightarrow> stated = NO_IDENTITY"
  by (auto simp: parse_binding_def split: option.splits prod.splits)

lemma chars_single: "list_all (\<lambda>c. case c of [d] \<Rightarrow> P d | _ \<Rightarrow> False) (chars v) \<Longrightarrow> list_all P v"
proof (induction v rule: chars.induct)
  case (2 c s)
  then have t: "takeWhile is_cont s = []" by (auto split: list.splits)
  then have "dropWhile is_cont s = s" by (metis append_Nil takeWhile_dropWhile_id)
  with 2 t show ?case by simp
qed simp

lemma refuses_digest:
  assumes "m \<noteq> AppleTeam"
  shows "refuses m v = None \<longleftrightarrow> length v = 64 \<and> list_all is_lower_hexdigit v"
proof -
  have "list_all is_ascii v" if "list_all is_lower_hexdigit v"
    using that by (auto simp: list_all_iff is_ascii_def is_lower_hexdigit_def)
  then have "list_all (\<lambda>c. case c of [d] \<Rightarrow> is_lower_hexdigit d | _ \<Rightarrow> False) (chars v)"
    if "list_all is_lower_hexdigit v"
    using that by (simp add: chars_ascii list_all_iff)
  then show ?thesis
    using assms chars_single [of is_lower_hexdigit v] by (cases m) (auto simp: refuses_def)
qed

section \<open>Lemmas on the literal readers\<close>

text \<open>How a literal is written: the two escapes that a text needs, and the byte escape.\<close>

definition escape_char :: "char \<Rightarrow> string" where
  "escape_char c = (if c = CHR 0x5C \<or> c = CHR 0x22 then backslash @ [c] else [c])"

definition escape_byte :: "u8 \<Rightarrow> string" where
  "escape_byte b = backslash @ [CHR ''x'', digit_char (unat b div 16), digit_char (unat b mod 16)]"

lemma unescape_escape:
  "unescape (map (\<lambda>c. [c]) (concat (map escape_char s))) = Inr (as_bytes s)"
proof (induction s)
  case (Cons c s)
  have "of_nat (code c) = (0x5C :: u8)" if "c = CHR 0x5C" using that by simp
  moreover have "of_nat (code c) = (0x22 :: u8)" if "c = CHR 0x22" using that by simp
  ultimately show ?case using Cons by (auto simp: escape_char_def as_bytes_def)
qed (simp add: as_bytes_def)

lemma nibbles_less: "unat (b :: u8) div 16 < 16" "unat b mod 16 < 16"
proof -
  have "unat b < 16 * 16" using unsigned_less [of b] by simp
  then show "unat b div 16 < 16" by (rule less_mult_imp_div_less)
qed simp

lemma is_ascii_backslash: "is_ascii (CHR 0x5C)" "is_ascii (CHR ''x'')"
  by (simp_all add: is_ascii_def)

lemma digit_char_ascii: "d < 36 \<Longrightarrow> is_ascii (digit_char d)"
  by (auto simp: digit_char_def is_ascii_def)

lemma hex_escape_digits:
  "hex_escape [digit_char (unat b div 16)] [digit_char (unat b mod 16)] = Inr b"
proof -
  have "digit_char (unat b div 16) \<noteq> CHR ''+''"
    using digit_val_digit_char [of "unat b div 16"] nibbles_less(1) [of b] by (auto simp: digit_val_def Let_def)
  moreover have "unat b < 256" using unsigned_less [of b] by simp
  ultimately have "from_str_radix 8 16 [digit_char (unat b div 16), digit_char (unat b mod 16)] = Some (unat b)"
    using nibbles_less [of b] by (simp add: from_str_radix_def digit_val_digit_char)
  then show ?thesis by (simp add: hex_escape_def)
qed

lemma unescape_bytes_escape:
  "unescape_bytes (map (\<lambda>c. [c]) (concat (map escape_byte bs))) = Inr bs"
proof (induction bs)
  case (Cons b bs)
  then show ?case by (simp add: escape_byte_def next_or_def hex_escape_digits)
qed simp

lemma raw_body_written:
  "raw_body_after prefix (prefix @ repeat_hash n @ dq @ body @ dq @ repeat_hash n) = Some body"
proof -
  have d: "dropWhile (\<lambda>c. c = CHR ''#'') (repeat_hash n @ dq @ r) = dq @ r" for r
    by (induction n) (simp_all add: repeat_hash_def)
  have p: "strip_prefix (a @ r) a = Some r" for a r by (simp add: strip_prefix_Some)
  have q: "strip_suffix (r @ a) a = Some r" for a r by (simp add: strip_suffix_Some)
  have "strip_suffix (body @ (dq @ repeat_hash n)) (dq @ repeat_hash n) = Some body" by (rule q)
  moreover have "length (repeat_hash n) = n" by (simp add: repeat_hash_def)
  ultimately show ?thesis
    unfolding raw_body_after_def p by (simp add: d p del: append_Cons)
qed

section \<open>Properties\<close>

text \<open>
  C21.  A guarded constant reads back.  When a macro accepts a literal, the literal reads to some
  bytes, and the expanded expression, run with any runtime, returns without a panic a value of the
  same length; for a text literal it is printable and valid UTF-8, so the empty fallback never
  runs.  When the build binds nothing, or the runtime reports exactly the stated material, that
  value is the literal.
\<close>

theorem guarded_reads_literal:
  assumes "expand checks seed_var identity_var input kind = Returns (Inr x)"
  shows "\<exists>handle literal plain b.
     split_input input kind = Inr (handle, literal) \<and> parse_kind kind literal = Inr plain
     \<and> parse_binding (case identity_var of None \<Rightarrow> [] | Some s \<Rightarrow> s) = Inr b
     \<and> (\<forall>checks' rt. \<exists>p. run_expansion checks' rt x = Returns p \<and> length p = length plain
          \<and> (kind = TextLiteral \<longrightarrow> in_alphabet p \<and> as_bytes (secret_as_str p) = p)
          \<and> ((\<forall>m v. b = Present m v \<longrightarrow> handle_code_identity rt = as_bytes v) \<longrightarrow> p = plain))"
proof -
  from assms obtain handle literal plain seed b where
    e: "split_input input kind = Inr (handle, literal)" "parse_kind kind literal = Inr plain"
      "parse_binding (case identity_var of None \<Rightarrow> [] | Some s \<Rightarrow> s) = Inr b"
    and a: "kind = TextLiteral \<longrightarrow> in_alphabet plain"
    and x: "x = \<lparr>ex_handle = handle, ex_salt = derive_salt (as_bytes seed) plain,
      ex_value = (let key = derive_key (derive_salt (as_bytes seed) plain) (snd (bound_material b)) in
        case kind of TextLiteral \<Rightarrow> step_spec key Forward plain | BytesLiteral \<Rightarrow> byte_stream key plain),
      ex_bound = fst (bound_material b), ex_reader = kind\<rparr>"
    unfolding expand_cases
    by (cases kind) (auto simp: encrypt_Returns encrypt_bytes_def)
  have "\<exists>p. run_expansion checks' rt x = Returns p \<and> length p = length plain
          \<and> (kind = TextLiteral \<longrightarrow> in_alphabet p \<and> as_bytes (secret_as_str p) = p)
          \<and> ((\<forall>m v. b = Present m v \<longrightarrow> handle_code_identity rt = as_bytes v) \<longrightarrow> p = plain)" for checks' rt
    using a by (cases kind)
      (auto simp: x run_expansion_def read_guarded_def read_guarded_bytes_def decrypt_bytes_def
        decrypt_Returns secret_as_str_printable guarded_key_def bound_material_def step_spec_back
        byte_stream_involution split: binding.splits)
  with e show ?thesis by blast
qed

theorem guarded_reads_literal_witness:
  "\<exists>x. expand True (Some ''seed'') (Some ''none'')
       [OtherTree ''h'', Punct (CHR '',''), Literal (dq @ ''api.host'' @ dq)] TextLiteral = Returns (Inr x)
     \<and> run_expansion True \<lparr>rt_identity = [1, 2], rt_policy = policy_new\<rparr> x = Returns (as_bytes ''api.host'')"
proof -
  let ?input = "[OtherTree ''h'', Punct (CHR '',''), Literal (dq @ ''api.host'' @ dq)]"
  have s: "split_input ?input TextLiteral = Inr ([OtherTree ''h''], dq @ ''api.host'' @ dq)"
    by (simp add: split_input_exact)
  have l: "parse_kind TextLiteral (dq @ ''api.host'' @ dq) = Inr (as_bytes ''api.host'')" by code_simp
  have a: "MIN_BYTES \<le> length (as_bytes ''api.host'') \<and> in_alphabet (as_bytes ''api.host'')" by code_simp
  have b: "parse_binding ''none'' = Inr Absent" by (simp add: parse_binding_Absent NO_IDENTITY_def)
  obtain x where x: "expand True (Some ''seed'') (Some ''none'') ?input TextLiteral = Returns (Inr x)"
    using expand_accepts [of True "Some ''seed''" "Some ''none''" ?input TextLiteral] s l a b by auto
  from guarded_reads_literal [OF x] s l b
  have "run_expansion True \<lparr>rt_identity = [1, 2], rt_policy = policy_new\<rparr> x = Returns (as_bytes ''api.host'')"
    by fastforce
  with x show ?thesis by blast
qed

text \<open>
  C26.  What the macro accepts.  It never panics: it expands, or it gives a compile error.  It
  expands exactly for one handle expression, one comma and one literal in place, when the literal
  reads to at least eight bytes (printable ones for a text), the build states a seed, and the
  identity variable has a usable value; the expansion is bound exactly when that value names
  material.
\<close>

theorem expand_exact:
  "expand checks seed_var identity_var input kind \<noteq> Panic
   \<and> ((\<exists>x. expand checks seed_var identity_var input kind = Returns (Inr x) \<and> ex_bound x = bound) \<longleftrightarrow>
      (\<exists>handle literal plain b.
        input = handle @ [Punct (CHR '',''), Literal literal] \<and> handle \<noteq> [] \<and> Punct (CHR '','') \<notin> set handle
        \<and> parse_kind kind literal = Inr plain \<and> 8 \<le> length plain
        \<and> (if kind = TextLiteral then in_alphabet plain else True)
        \<and> seed_var \<noteq> None \<and> parse_binding (case identity_var of None \<Rightarrow> [] | Some s \<Rightarrow> s) = Inr b
        \<and> (bound = (b \<noteq> Absent))))"
proof -
  have "fst (bound_material b) = (b \<noteq> Absent)" for b by (cases b) (simp_all add: bound_material_def)
  then show ?thesis
    unfolding expand_cases split_input_exact MIN_BYTES_def
    by (cases kind) (fastforce simp: encrypt_Returns expand_no_panic)+
qed

text \<open>
  C27.  The binding of a build.  The build script binds exactly when the variable is a kind name, a
  colon and non-empty material that the kind accepts, and the target reports that kind; it leaves
  the build unbound exactly when the variable is empty or says \<open>none\<close>; every other value stops the
  build.  A digest kind accepts exactly 64 lowercase hexadecimal digits.
\<close>

theorem build_binding_exact:
  "(binds_identity stated target_os = Returns True \<longleftrightarrow>
      (\<exists>m v. stated = material_name m @ '':'' @ v \<and> v \<noteq> [] \<and> refuses m v = None \<and> of_target target_os = Some m))
   \<and> (binds_identity stated target_os = Returns False \<longleftrightarrow> stated = [] \<or> stated = ''none'')
   \<and> (refuses WindowsCertificate v = None \<longleftrightarrow> length v = 64 \<and> list_all is_lower_hexdigit v)
   \<and> (refuses AndroidCertificate v = None \<longleftrightarrow> length v = 64 \<and> list_all is_lower_hexdigit v)"
proof -
  have t: "binds_identity stated target_os = Returns True \<longleftrightarrow>
      stated \<noteq> [] \<and> (\<exists>m v. parse_binding stated = Inr (Present m v) \<and> of_target target_os = Some m)"
    by (auto simp: binds_identity_def check_target_def split: sum.splits binding.splits option.splits if_splits)
  have f: "binds_identity stated target_os = Returns False \<longleftrightarrow> stated = [] \<or> parse_binding stated = Inr Absent"
    by (auto simp: binds_identity_def check_target_def split: sum.splits binding.splits option.splits if_splits)
  show ?thesis
    unfolding t f parse_binding_Present parse_binding_Absent
    by (auto simp: refuses_digest NO_IDENTITY_def)
qed

text \<open>
  The literal readers read what Rust source writes.  An ASCII text written between quotes with
  the two necessary escapes, or raw with any number of hashes, reads to its bytes; and any byte
  string written in byte escapes reads to its bytes.
\<close>

lemma literal_roundtrip:
  assumes "list_all is_ascii s"
  shows "parse_literal (dq @ concat (map escape_char s) @ dq) = Inr (as_bytes s)
    \<and> parse_literal (''r'' @ repeat_hash n @ dq @ s @ dq @ repeat_hash n) = Inr (as_bytes s)
    \<and> parse_bytes (''br'' @ repeat_hash n @ dq @ s @ dq @ repeat_hash n) = Inr (as_bytes s)
    \<and> parse_bytes (''b'' @ dq @ concat (map escape_byte bs) @ dq) = Inr bs"
proof -
  have p: "strip_prefix (a @ r) a = Some r" and q: "strip_suffix (r @ a) a = Some r" for a r
    by (simp_all add: strip_prefix_Some strip_suffix_Some)
  have "list_all is_ascii (concat (map escape_char s))"
    using assms by (auto simp: escape_char_def list_all_iff is_ascii_def split: if_splits)
  then have "unescape (chars (concat (map escape_char s))) = Inr (as_bytes s)"
    by (simp add: chars_ascii unescape_escape)
  moreover have "raw_body (dq @ r) = None" for r
    by (simp add: raw_body_def raw_body_after_def strip_prefix_def starts_with_def)
  ultimately have 1: "parse_literal (dq @ concat (map escape_char s) @ dq) = Inr (as_bytes s)"
    unfolding parse_literal_def p by (simp add: q)
  have "list_all is_ascii (concat (map escape_byte bs))"
    using nibbles_less by (auto simp: escape_byte_def list_all_iff is_ascii_backslash intro!: digit_char_ascii less_trans [OF nibbles_less(1)] less_trans [OF nibbles_less(2)])
  then have "unescape_bytes (chars (concat (map escape_byte bs))) = Inr bs"
    by (simp add: chars_ascii unescape_bytes_escape)
  moreover have "raw_byte_body (''b'' @ dq @ r) = None" for r
    by (simp add: raw_byte_body_def raw_body_after_def strip_prefix_def starts_with_def)
  moreover have "strip_prefix (''b'' @ dq @ r) (''b'' @ dq) = Some r" for r
    using p [of "''b'' @ dq"] by simp
  ultimately have 4: "parse_bytes (''b'' @ dq @ concat (map escape_byte bs) @ dq) = Inr bs"
    unfolding parse_bytes_def by (simp add: q)
  show ?thesis
    using 1 4 assms raw_body_written [of "''r''" n s] raw_body_written [of "''br''" n s]
    by (simp add: parse_literal_def parse_bytes_def raw_body_def raw_byte_body_def)
qed

text \<open>The byte-string reader refuses the escape of a single quote, which Rust accepts there.\<close>

lemma byte_quote_escape_refused:
  "parse_bytes (''b'' @ dq @ backslash @ [CHR 0x27] @ dq) =
     Inl (''the byte-string escape '' @ backslash @ [CHR 0x27] @ '' is invalid'')"
  by code_simp

end
