(* ===== verification/Fid_Extract.thy ===== *)
theory Fid_Extract
  imports Fid_Guarded
begin

text \<open>
  The extraction control (\<open>fidelity-cipher/examples/extract.rs\<close>), which states what a guarded constant
  does not hide: the fast path that stands in for the cipher, the exact form that looks stated
  literals up in an index of the file, and the sample form that walks a window around each candidate
  salt.  Its output is a value, and the file is an argument.  The theorems compare the fast path with
  the cipher and the indexed search with a search of the whole file.
\<close>

section \<open>Constants and stated values\<close>

definition EX_MIN :: nat where "EX_MIN = 8"
definition EX_MAX :: nat where "EX_MAX = 64"
definition EX_WINDOW :: nat where "EX_WINDOW = 2048"
definition EX_SAMPLE :: nat where "EX_SAMPLE = 20"
definition SAMPLE_MIN :: nat where "SAMPLE_MIN = 15"
definition EX_ALPHABET :: u8 where "EX_ALPHABET = 95"
definition EX_FIRST :: u8 where "EX_FIRST = 0x20"

datatype expected_kind = ExpectedText | ExpectedBytes

record expected =
  xp_label :: string
  xp_plain :: bytes
  xp_kind :: expected_kind

definition plausible :: "u8 \<Rightarrow> bool" where
  "plausible b \<longleftrightarrow> (0x30 \<le> b \<and> b \<le> 0x39) \<or> (0x41 \<le> b \<and> b \<le> 0x5A) \<or> (0x61 \<le> b \<and> b \<le> 0x7A)
     \<or> b \<in> set (as_bytes ''./-_:@'')"

definition ex_hex_digit :: "u8 \<Rightarrow> u8 option" where
  "ex_hex_digit d =
     (if 0x30 \<le> d \<and> d \<le> 0x39 then Some (d - 0x30)
      else if 0x61 \<le> d \<and> d \<le> 0x66 then Some (d - 0x61 + 10)
      else if 0x41 \<le> d \<and> d \<le> 0x46 then Some (d - 0x41 + 10)
      else None)"

text \<open>The loop over the pairs; a last single digit is the remainder, which is checked before it.\<close>

fun hex_pairs :: "bytes \<Rightarrow> string + bytes" where
  "hex_pairs (h # l # rest) = (case (ex_hex_digit h, ex_hex_digit l) of
       (Some high, Some low) \<Rightarrow>
         (case hex_pairs rest of Inl e \<Rightarrow> Inl e | Inr plain \<Rightarrow> Inr ((push_bit 4 high OR low) # plain))
     | _ \<Rightarrow> Inl ''a hex value holds a character that is not a digit'')"
| "hex_pairs _ = Inr []"

definition parse_expected :: "string \<Rightarrow> string + expected" where
  "parse_expected argument = (case strip_prefix argument ''hex:'' of
       None \<Rightarrow> Inr \<lparr>xp_label = argument, xp_plain = as_bytes argument, xp_kind = ExpectedText\<rparr>
     | Some h \<Rightarrow>
         if length h mod 2 \<noteq> 0 then Inl ''a hex value must hold pairs of digits''
         else (case hex_pairs (as_bytes h) of
                 Inl e \<Rightarrow> Inl e
               | Inr plain \<Rightarrow>
                   if length plain < EX_MIN then Inl (''a value must hold '' @ dec EX_MIN @ '' bytes or more'')
                   else Inr \<lparr>xp_label = argument, xp_plain = plain, xp_kind = ExpectedBytes\<rparr>))"

section \<open>The fast path\<close>

definition add_u8 :: "bool \<Rightarrow> u8 \<Rightarrow> u8 \<Rightarrow> u8 exec" where
  "add_u8 checks a b = (if checks \<and> 256 \<le> unat a + unat b then Panic else Returns (a + b))"

fun exec_map :: "('a \<Rightarrow> 'b exec) \<Rightarrow> 'a list \<Rightarrow> 'b list exec" where
  "exec_map f [] = Returns []"
| "exec_map f (x # xs) = exec_bind (f x) (\<lambda>y. exec_bind (exec_map f xs) (\<lambda>ys. Returns (y # ys)))"

fun exec_fold :: "('a \<Rightarrow> 's \<Rightarrow> 's exec) \<Rightarrow> 'a list \<Rightarrow> 's \<Rightarrow> 's exec" where
  "exec_fold f [] s = Returns s"
| "exec_fold f (x # xs) s = exec_bind (f x s) (exec_fold f xs)"

definition extract_keystream :: "bool \<Rightarrow> bytes \<Rightarrow> bytes exec" where
  "extract_keystream checks key =
     exec_bind (decrypt checks key (replicate EX_MAX EX_FIRST))
       (exec_map (\<lambda>v. sub_u8 checks v EX_FIRST))"

definition clear :: "bool \<Rightarrow> u8 \<Rightarrow> u8 \<Rightarrow> u8 exec" where
  "clear checks cipher stream =
     exec_bind (sub_u8 checks cipher EX_FIRST) (\<lambda>d.
     exec_bind (add_u8 checks d stream) (\<lambda>s. add_u8 checks (s mod EX_ALPHABET) EX_FIRST))"

definition self_check :: "bool \<Rightarrow> unit exec" where
  "self_check checks =
     (let salt = derive_salt (as_bytes ''extract self check'') (as_bytes ''api.example.com'');
          key = derive_key salt []
      in exec_bind (encrypt checks key (as_bytes ''api.example.com'')) (\<lambda>cipher.
         exec_bind (extract_keystream checks key) (\<lambda>stream.
         exec_bind (exec_map (\<lambda>(b, s). clear checks b s) (zip cipher stream)) (\<lambda>fast.
           if fast = as_bytes ''api.example.com'' then Returns () else Panic))))"

section \<open>Stated literals\<close>

text \<open>The index of the file: where each run of eight bytes sits.\<close>

definition index_add :: "bytes \<Rightarrow> nat \<Rightarrow> (bytes \<rightharpoonup> nat list) \<Rightarrow> (bytes \<rightharpoonup> nat list)" where
  "index_add img at index = (case slice_range img at (at + EX_MIN) of
       None \<Rightarrow> index
     | Some head \<Rightarrow> index(head \<mapsto> (case index head of None \<Rightarrow> [] | Some places \<Rightarrow> places) @ [at]))"

definition image_index :: "bytes \<Rightarrow> (bytes \<rightharpoonup> nat list)" where
  "image_index img = fold (index_add img) [0..<length img - EX_MIN] Map.empty"

definition expected_cipher :: "bool \<Rightarrow> bytes \<Rightarrow> expected \<Rightarrow> bytes exec" where
  "expected_cipher checks key v = (case xp_kind v of
       ExpectedText \<Rightarrow> encrypt checks key (xp_plain v)
     | ExpectedBytes \<Rightarrow> Returns (encrypt_bytes key (xp_plain v)))"

definition recover_value :: "bool \<Rightarrow> bytes \<Rightarrow> (bytes \<rightharpoonup> nat list) \<Rightarrow> bytes \<Rightarrow> expected \<times> bool \<Rightarrow> bool exec" where
  "recover_value checks img index key x = (case x of (v, found) \<Rightarrow>
     if found then Returns True
     else exec_bind (expected_cipher checks key v) (\<lambda>cipher.
       Returns (case slice_range cipher 0 EX_MIN of
           None \<Rightarrow> False
         | Some head \<Rightarrow> (case index head of
               None \<Rightarrow> False
             | Some places \<Rightarrow>
                 list_ex (\<lambda>start. slice_range img start (start + length cipher) = Some cipher) places))))"

definition recover_at :: "bool \<Rightarrow> bytes \<Rightarrow> string \<Rightarrow> (bytes \<rightharpoonup> nat list) \<Rightarrow> expected list \<Rightarrow> nat \<Rightarrow> bool list
    \<Rightarrow> bool list exec" where
  "recover_at checks img identity index expected at recovered =
     (case slice_range img at (at + 16) of
        None \<Rightarrow> Returns recovered
      | Some salt \<Rightarrow>
          exec_map (recover_value checks img index (derive_key salt (as_bytes identity))) (zip expected recovered))"

fun recover_loop :: "(nat \<Rightarrow> bool list \<Rightarrow> bool list exec) \<Rightarrow> nat list \<Rightarrow> bool list \<Rightarrow> bool list exec" where
  "recover_loop try_salt [] recovered = Returns recovered"
| "recover_loop try_salt (at # rest) recovered =
     (if list_all id recovered then Returns recovered
      else exec_bind (try_salt at recovered) (recover_loop try_salt rest))"

definition recover :: "bool \<Rightarrow> bytes \<Rightarrow> string \<Rightarrow> expected list \<Rightarrow> bool list exec" where
  "recover checks img identity expected =
     recover_loop (recover_at checks img identity (image_index img) expected)
       [0..<length img - 16] (replicate (length expected) False)"

section \<open>The sample\<close>

text \<open>The counters of the search are natural numbers: a file below \<open>2 ^ 51\<close> bytes cannot overflow them.\<close>

record sample =
  sm_pairs :: nat
  sm_candidates :: nat
  sm_texts :: "bytes list"

function plain_run :: "bool \<Rightarrow> bytes \<Rightarrow> bytes \<Rightarrow> nat \<Rightarrow> nat \<Rightarrow> bytes exec" where
  "plain_run checks img stream start len =
     (if len < EX_MAX then
        (case slice_get img (start + len) of
           None \<Rightarrow> Returns []
         | Some byte \<Rightarrow>
             if \<not> in_alphabet [byte] then Returns []
             else exec_bind (clear checks byte (stream ! len)) (\<lambda>decrypted.
               if \<not> plausible decrypted then Returns []
               else exec_bind (plain_run checks img stream start (len + 1)) (\<lambda>rest. Returns (decrypted # rest))))
      else Returns [])"
  by pat_completeness auto

termination by (relation "measure (\<lambda>(_, _, _, _, len). EX_MAX - len)") auto

definition sample_start :: "bool \<Rightarrow> bytes \<Rightarrow> bytes \<Rightarrow> nat \<Rightarrow> sample \<Rightarrow> sample exec" where
  "sample_start checks img stream start st =
     exec_bind (plain_run checks img stream start 0) (\<lambda>plain.
       let st = st\<lparr>sm_pairs := sm_pairs st + 1\<rparr> in
       Returns (if length plain < EX_MIN then st
         else if \<not> utf8_valid (map (\<lambda>b. char_of (unat b)) plain) then st
         else let st = st\<lparr>sm_candidates := sm_candidates st + 1\<rparr> in
           if SAMPLE_MIN \<le> length plain \<and> length (sm_texts st) < EX_SAMPLE
           then st\<lparr>sm_texts := sm_texts st @ [plain]\<rparr> else st))"

definition sample_at :: "bool \<Rightarrow> bytes \<Rightarrow> string \<Rightarrow> nat \<Rightarrow> sample \<Rightarrow> sample exec" where
  "sample_at checks img identity at st = (case slice_range img at (at + 16) of
       None \<Rightarrow> Returns st
     | Some salt \<Rightarrow>
         exec_bind (extract_keystream checks (derive_key salt (as_bytes identity))) (\<lambda>stream.
           exec_fold (sample_start checks img stream) [at - EX_WINDOW..<min (at + EX_WINDOW) (length img)] st))"

definition sample_form :: "bool \<Rightarrow> bytes \<Rightarrow> string \<Rightarrow> sample exec" where
  "sample_form checks img identity =
     exec_fold (sample_at checks img identity) [0..<length img - 16] \<lparr>sm_pairs = 0, sm_candidates = 0, sm_texts = []\<rparr>"

section \<open>The run\<close>

datatype extraction =
    Usage
  | Unreadable
  | Refused string
  | Reported "(string \<times> bool) list"
  | Sampled sample

fun parse_all_expected :: "string list \<Rightarrow> string + expected list" where
  "parse_all_expected [] = Inr []"
| "parse_all_expected (a # rest) = (case parse_expected a of
       Inl e \<Rightarrow> Inl e
     | Inr v \<Rightarrow> (case parse_all_expected rest of Inl e \<Rightarrow> Inl e | Inr vs \<Rightarrow> Inr (v # vs)))"

definition extract_main :: "bool \<Rightarrow> (string \<Rightarrow> bytes option) \<Rightarrow> string list \<Rightarrow> extraction exec" where
  "extract_main checks read_file arguments = exec_bind (self_check checks) (\<lambda>_.
     case arguments of
       [] \<Rightarrow> Returns Usage
     | path # rest \<Rightarrow>
         let identity = (case rest of [] \<Rightarrow> [] | stated # _ \<Rightarrow> stated) in
         (case read_file path of
            None \<Rightarrow> Returns Unreadable
          | Some img \<Rightarrow> (case parse_all_expected (tl rest) of
               Inl e \<Rightarrow> Returns (Refused e)
             | Inr expected \<Rightarrow>
                 if expected \<noteq> [] then
                   exec_bind (recover checks img identity expected) (\<lambda>recovered.
                     Returns (Reported (zip (map xp_label expected) recovered)))
                 else exec_bind (sample_form checks img identity) (\<lambda>st. Returns (Sampled st)))))"

text \<open>The status of the process; \<open>report\<close> fails a run that recovered nothing.\<close>

fun exit_status :: "extraction \<Rightarrow> nat" where
  "exit_status Usage = 0"
| "exit_status Unreadable = 1"
| "exit_status (Refused _) = 1"
| "exit_status (Reported found) = (if length (filter snd found) = 0 then 1 else 0)"
| "exit_status (Sampled _) = 0"

section \<open>Lemmas on the fast path\<close>

lemma exec_map_Returns: "(\<And>x. x \<in> set xs \<Longrightarrow> f x = Returns (g x)) \<Longrightarrow> exec_map f xs = Returns (map g xs)"
  by (induction xs) simp_all

lemma exec_map_Panic: "x \<in> set xs \<Longrightarrow> f x = Panic \<Longrightarrow> exec_map f xs = Panic"
proof (induction xs)
  case (Cons y ys)
  then show ?case by (cases "f y") auto
qed simp

definition stream_byte :: "bytes \<Rightarrow> nat \<Rightarrow> u8" where
  "stream_byte key i = of_nat (shift_letter Backward (char_amount key i) 0)"

lemma unat_stream_byte: "unat (stream_byte key i) = shift_letter Backward (char_amount key i) 0"
  using shift_letter_less [of Backward "char_amount key i" 0]
  by (simp add: stream_byte_def unat_of_nat del: shift_letter_less)

text \<open>One decryption of the zero of the alphabet gives what a key adds at each position.\<close>

lemma extract_keystream_exact:
  "extract_keystream checks key = Returns (map (stream_byte key) [0..<EX_MAX])"
proof -
  let ?zeros = "replicate EX_MAX EX_FIRST"
  have "in_alphabet ?zeros" by (simp add: in_alphabet_iff EX_FIRST_def)
  then have d: "decrypt checks key ?zeros = Returns (step_spec key Backward ?zeros)" by (rule decrypt_Returns)
  have "exec_map (\<lambda>v. sub_u8 checks v EX_FIRST) (step_spec key Backward ?zeros)
      = Returns (map (\<lambda>v. v - EX_FIRST) (step_spec key Backward ?zeros))"
  proof (rule exec_map_Returns)
    fix v assume "v \<in> set (step_spec key Backward ?zeros)"
    then have "0x20 \<le> unat v" using step_spec_in_alphabet by (fastforce simp: in_alphabet_iff)
    then show "sub_u8 checks v EX_FIRST = Returns (v - EX_FIRST)"
      by (simp add: sub_u8_def EX_FIRST_def word_less_nat_alt)
  qed
  moreover have "map (\<lambda>v. v - EX_FIRST) (step_spec key Backward ?zeros) = map (stream_byte key) [0..<EX_MAX]"
    by (intro nth_equalityI)
       (simp_all add: nth_step_spec stream_byte_def of_letter_def letter_def EX_FIRST_def)
  ultimately show ?thesis by (simp add: extract_keystream_def d)
qed

lemma clear_exact:
  assumes "in_alphabet [c]"
  shows "clear checks c (stream_byte key i) = Returns (of_letter (shift_letter Backward (char_amount key i) (letter c)))"
proof -
  let ?k = "char_amount key i" and ?s = "stream_byte key i"
  from assms have c: "0x20 \<le> unat c" "letter c = unat c - 0x20" "letter c < 95"
    using letter_less [of "[c]" 0] by (auto simp: letter_in_range)
  have s: "unat ?s = (95 - ?k) mod 95" "unat ?s < 95"
    using shift_letter_less [of Backward ?k 0] by (simp_all add: unat_stream_byte shift_letter_def)
  have "unat (c - EX_FIRST) = letter c" by (simp add: letter_def EX_FIRST_def)
  then have sum: "unat (c - EX_FIRST + ?s) = letter c + unat ?s"
    using c(3) s(2) by (subst unat_add_lem [THEN iffD1]) auto
  then have m: "unat ((c - EX_FIRST + ?s) mod EX_ALPHABET) = shift_letter Backward ?k (letter c)"
    using s(1) char_amount_less [of key i]
    by (simp add: EX_ALPHABET_def unat_mod shift_letter_def mod_simps del: char_amount_less)
  have "(c - EX_FIRST + ?s) mod EX_ALPHABET = of_nat (shift_letter Backward ?k (letter c))"
    unfolding m [symmetric] by simp
  then have "(c - EX_FIRST + ?s) mod EX_ALPHABET + EX_FIRST = of_letter (shift_letter Backward ?k (letter c))"
    by (simp add: of_letter_def EX_FIRST_def)
  moreover have "sub_u8 checks c EX_FIRST = Returns (c - EX_FIRST)"
    using c(1) by (simp add: sub_u8_def EX_FIRST_def word_less_nat_alt)
  moreover have "add_u8 checks (c - EX_FIRST) ?s = Returns (c - EX_FIRST + ?s)"
    using c(3) s(2) \<open>unat (c - EX_FIRST) = letter c\<close> by (simp add: add_u8_def)
  moreover have "add_u8 checks ((c - EX_FIRST + ?s) mod EX_ALPHABET) EX_FIRST
      = Returns ((c - EX_FIRST + ?s) mod EX_ALPHABET + EX_FIRST)"
    using shift_letter_less [of Backward ?k "letter c"]
    unfolding add_u8_def m by (simp add: EX_FIRST_def del: shift_letter_less)
  ultimately show ?thesis by (simp add: clear_def)
qed

text \<open>
  The fast path is the cipher: on a printable value of at most 64 bytes it gives what decryption
  gives, and neither panics, with or without overflow checks.
\<close>

lemma fast_path_agrees:
  assumes "in_alphabet v" and "length v \<le> EX_MAX"
  shows "exec_bind (extract_keystream checks key) (\<lambda>stream. exec_map (\<lambda>(b, s). clear checks b s) (zip v stream))
    = decrypt checks key v"
proof -
  let ?stream = "map (stream_byte key) [0..<EX_MAX]"
  let ?g = "\<lambda>(b, s). case clear checks b s of Returns x \<Rightarrow> x | Panic \<Rightarrow> 0"
  have at: "clear checks (v ! i) (stream_byte key i) = Returns (step_spec key Backward v ! i)" if "i < length v" for i
  proof -
    have "in_alphabet [v ! i]" using assms(1) that by (auto simp: in_alphabet_iff)
    with that assms(2) show ?thesis by (simp add: clear_exact nth_step_spec)
  qed
  have "exec_map (\<lambda>(b, s). clear checks b s) (zip v ?stream) = Returns (map ?g (zip v ?stream))"
    using at by (intro exec_map_Returns) (auto simp: in_set_zip)
  moreover have "map ?g (zip v ?stream) = step_spec key Backward v"
    using assms(2) at by (intro nth_equalityI) auto
  ultimately show ?thesis by (simp add: extract_keystream_exact decrypt_Returns [OF assms(1)])
qed

lemma self_check_passes: "self_check checks = Returns ()"
proof -
  let ?p = "as_bytes ''api.example.com''"
  let ?key = "derive_key (derive_salt (as_bytes ''extract self check'') ?p) []"
  have p: "in_alphabet ?p" "length ?p \<le> EX_MAX" by code_simp+
  then have "exec_bind (extract_keystream checks ?key) (\<lambda>stream. exec_map (\<lambda>(b, s). clear checks b s)
      (zip (step_spec ?key Forward ?p) stream)) = Returns ?p"
    by (subst fast_path_agrees) (simp_all add: decrypt_Returns step_spec_back)
  then show ?thesis
    by (simp add: self_check_def Let_def encrypt_Returns [OF p(1)] extract_keystream_exact)
qed

section \<open>Lemmas on the search\<close>

text \<open>The index holds, for every run of eight bytes but the last of the file, where it starts.\<close>

lemma index_fold:
  "fold (index_add img) ats Map.empty head =
     (let places = filter (\<lambda>at. slice_range img at (at + EX_MIN) = Some head) ats
      in if places = [] then None else Some places)"
proof (induction ats arbitrary: head rule: rev_induct)
  case (snoc at ats)
  then show ?case by (cases "slice_range img at (at + EX_MIN)") (auto simp: index_add_def Let_def)
qed simp

definition occurs :: "bytes \<Rightarrow> bytes \<Rightarrow> bool" where
  "occurs img c \<longleftrightarrow> EX_MIN \<le> length c
     \<and> (\<exists>start < length img - EX_MIN. slice_range img start (start + length c) = Some c)"

definition cipher_of :: "bytes \<Rightarrow> expected \<Rightarrow> bytes" where
  "cipher_of key v = (case xp_kind v of
       ExpectedText \<Rightarrow> step_spec key Forward (xp_plain v) | ExpectedBytes \<Rightarrow> byte_stream key (xp_plain v))"

definition encodable :: "expected \<Rightarrow> bool" where
  "encodable v \<longleftrightarrow> xp_kind v = ExpectedBytes \<or> in_alphabet (xp_plain v)"

lemma expected_cipher_exact:
  "expected_cipher checks key v = (if encodable v then Returns (cipher_of key v) else Panic)"
  by (cases "xp_kind v")
     (simp_all add: expected_cipher_def encodable_def cipher_of_def encrypt_Returns encrypt_bytes_def, simp add: encrypt_def)

lemma length_cipher_of [simp]: "length (cipher_of key v) = length (xp_plain v)"
  by (cases "xp_kind v") (simp_all add: cipher_of_def)

lemma slice_range_head:
  "slice_range img start (start + length c) = Some c \<Longrightarrow> n \<le> length c \<Longrightarrow>
     slice_range img start (start + n) = Some (take n c)"
proof -
  assume s: "slice_range img start (start + length c) = Some c" and n: "n \<le> length c"
  then have "start + n \<le> length img" by (simp add: slice_range_Some)
  moreover have "take n c = take n (take (length c) (drop start img))" using s by (simp add: slice_range_Some)
  ultimately show ?thesis using n by (simp add: slice_range_def min_def)
qed

lemma recover_value_exact:
  assumes "encodable v"
  shows "recover_value checks img (image_index img) key (v, found) = Returns (found \<or> occurs img (cipher_of key v))"
proof (cases "found \<or> length (cipher_of key v) < EX_MIN")
  case True
  with assms show ?thesis
    by (auto simp: recover_value_def expected_cipher_exact occurs_def slice_range_def)
next
  case False
  let ?c = "cipher_of key v"
  let ?places = "filter (\<lambda>at. slice_range img at (at + EX_MIN) = Some (take EX_MIN ?c)) [0..<length img - EX_MIN]"
  have head: "slice_range ?c 0 EX_MIN = Some (take EX_MIN ?c)" using False by (simp add: slice_range_def)
  have "list_ex (\<lambda>start. slice_range img start (start + length ?c) = Some ?c) ?places \<longleftrightarrow> occurs img ?c"
    using False slice_range_head [of img _ ?c EX_MIN] by (auto simp: list_ex_iff occurs_def)
  moreover have "image_index img (take EX_MIN ?c) = (if ?places = [] then None else Some ?places)"
    by (simp only: image_index_def index_fold Let_def)
  ultimately show ?thesis
    using False assms head by (auto simp: recover_value_def expected_cipher_exact)
qed

definition salt_key :: "bytes \<Rightarrow> string \<Rightarrow> nat \<Rightarrow> bytes" where
  "salt_key img identity at = derive_key (take 16 (drop at img)) (as_bytes identity)"

lemma recover_at_exact:
  assumes "list_all encodable vs" and "at + 16 \<le> length img"
  shows "recover_at checks img identity (image_index img) vs at found
    = Returns (map (\<lambda>(v, r). r \<or> occurs img (cipher_of (salt_key img identity at) v)) (zip vs found))"
proof -
  have "slice_range img at (at + 16) = Some (take 16 (drop at img))" using assms(2) by (simp add: slice_range_def)
  moreover have "exec_map (recover_value checks img (image_index img) key) (zip vs found)
      = Returns (map (\<lambda>(v, r). r \<or> occurs img (cipher_of key v)) (zip vs found))" for key
    using assms(1)
    by (intro exec_map_Returns) (auto simp: recover_value_exact list_all_iff dest: set_zip_leftD)
  ultimately show ?thesis by (simp add: recover_at_def salt_key_def)
qed

lemma recover_loop_exact:
  assumes "list_all encodable vs" and "\<And>at. at \<in> set ats \<Longrightarrow> at + 16 \<le> length img" and "length found = length vs"
  shows "recover_loop (recover_at checks img identity (image_index img) vs) ats found
    = Returns (map (\<lambda>(v, r). r \<or> (\<exists>at \<in> set ats. occurs img (cipher_of (salt_key img identity at) v))) (zip vs found))"
  using assms(2,3)
proof (induction ats arbitrary: found)
  case Nil
  then show ?case by (simp add: split_def)
next
  case (Cons at ats)
  let ?next = "map (\<lambda>(v, r). r \<or> occurs img (cipher_of (salt_key img identity at) v)) (zip vs found)"
  show ?case
  proof (cases "list_all id found")
    case True
    then have "found = map (\<lambda>(v, r). r \<or> Q v) (zip vs found)" for Q
      using Cons.prems(2) by (auto simp: list_all_length intro!: nth_equalityI)
    with True show ?thesis by simp
  next
    case False
    have "recover_at checks img identity (image_index img) vs at found = Returns ?next"
      using assms(1) Cons.prems by (simp add: recover_at_exact)
    moreover have "length ?next = length vs" using Cons.prems(2) by simp
    ultimately show ?thesis
      using False Cons.IH [of ?next] Cons.prems
      by (auto intro!: nth_equalityI)
  qed
qed

section \<open>Properties\<close>

text \<open>
  What a search of the whole file finds: sixteen bytes that are not the last of the file and, under
  the key that they give with the identity, the ciphertext of the literal, which is not a run of
  exactly eight bytes at the very end.
\<close>

definition recoverable :: "bytes \<Rightarrow> string \<Rightarrow> expected \<Rightarrow> bool" where
  "recoverable img identity v \<longleftrightarrow> (\<exists>pre salt post before after.
     img = pre @ salt @ post \<and> length salt = 16 \<and> post \<noteq> []
     \<and> img = before @ cipher_of (derive_key salt (as_bytes identity)) v @ after
     \<and> 8 \<le> length (xp_plain v) \<and> (length (xp_plain v) = 8 \<longrightarrow> after \<noteq> []))"

lemma occurs_iff:
  "occurs img c \<longleftrightarrow> (\<exists>before after. img = before @ c @ after \<and> 8 \<le> length c \<and> (length c = 8 \<longrightarrow> after \<noteq> []))"
proof
  assume "occurs img c"
  then obtain start where s: "8 \<le> length c" "start < length img - 8" "slice_range img start (start + length c) = Some c"
    by (auto simp: occurs_def EX_MIN_def)
  from slice_range_decomp [OF s(3)] have "img = take start img @ c @ drop (start + length c) img" .
  moreover have "length c = 8 \<longrightarrow> drop (start + length c) img \<noteq> []" using s(2) by auto
  ultimately show "\<exists>before after. img = before @ c @ after \<and> 8 \<le> length c \<and> (length c = 8 \<longrightarrow> after \<noteq> [])"
    using s(1) by blast
next
  assume "\<exists>before after. img = before @ c @ after \<and> 8 \<le> length c \<and> (length c = 8 \<longrightarrow> after \<noteq> [])"
  then obtain before after where "img = before @ c @ after" "8 \<le> length c" "length c = 8 \<longrightarrow> after \<noteq> []" by blast
  moreover from this have "length before < length img - 8" by (cases after) auto
  ultimately show "occurs img c"
    unfolding occurs_def EX_MIN_def using slice_range_append [of before c after] by auto
qed

lemma recoverable_iff:
  "recoverable img identity v \<longleftrightarrow> (\<exists>at < length img - 16. occurs img (cipher_of (salt_key img identity at) v))"
proof
  assume "recoverable img identity v"
  then obtain pre salt post where i: "img = pre @ salt @ post" "length salt = 16" "post \<noteq> []"
    and "occurs img (cipher_of (derive_key salt (as_bytes identity)) v)"
    unfolding recoverable_def occurs_iff length_cipher_of by blast
  moreover have "salt_key img identity (length pre) = derive_key salt (as_bytes identity)"
    using i by (simp add: salt_key_def)
  moreover have "length pre < length img - 16" using i by (cases post) auto
  ultimately show "\<exists>at < length img - 16. occurs img (cipher_of (salt_key img identity at) v)" by metis
next
  assume "\<exists>at < length img - 16. occurs img (cipher_of (salt_key img identity at) v)"
  then obtain at where at: "at < length img - 16" "occurs img (cipher_of (salt_key img identity at) v)" by blast
  have "img = take at img @ take 16 (drop at img) @ drop (at + 16) img"
    by (metis append_take_drop_id drop_drop add.commute)
  moreover have "length (take 16 (drop at img)) = 16" "drop (at + 16) img \<noteq> []" using at(1) by auto
  ultimately show "recoverable img identity v"
    using at(2) unfolding recoverable_def occurs_iff salt_key_def length_cipher_of by blast
qed

lemma search_exact:
  "recover checks img identity vs =
     (if 16 < length img \<and> list_ex (\<lambda>v. xp_kind v = ExpectedText \<and> \<not> in_alphabet (xp_plain v)) vs then Panic
      else Returns (map (recoverable img identity) vs))"
proof (cases "list_all encodable vs")
  case True
  then have "recover checks img identity vs = Returns (map (recoverable img identity) vs)"
  proof -
    have "(\<exists>at \<in> set [0..<length img - 16]. occurs img (cipher_of (salt_key img identity at) v))
        \<longleftrightarrow> recoverable img identity v" for v
      by (auto simp: recoverable_iff)
    then show ?thesis
      unfolding recover_def using True by (subst recover_loop_exact) (auto intro!: nth_equalityI)
  qed
  moreover have "\<not> list_ex (\<lambda>v. xp_kind v = ExpectedText \<and> \<not> in_alphabet (xp_plain v)) vs"
    using True by (auto simp: list_ex_iff list_all_iff encodable_def)
  ultimately show ?thesis by simp
next
  case False
  then obtain v where v: "v \<in> set vs" "\<not> encodable v" by (auto simp: list_all_iff)
  then have l: "list_ex (\<lambda>v. xp_kind v = ExpectedText \<and> \<not> in_alphabet (xp_plain v)) vs"
    by (auto simp: list_ex_iff encodable_def) (metis expected_kind.exhaust)
  show ?thesis
  proof (cases "16 < length img")
    case True
    let ?none = "replicate (length vs) False"
    have "(v, False) \<in> set (zip vs ?none)" using v(1) by (auto simp: in_set_zip in_set_conv_nth)
    moreover have "recover_value checks img (image_index img) key (v, False) = Panic" for key
      using v(2) by (simp add: recover_value_def expected_cipher_exact)
    ultimately have "exec_map (recover_value checks img (image_index img) key) (zip vs ?none) = Panic" for key
      by (rule exec_map_Panic)
    then have "recover_at checks img identity (image_index img) vs 0 ?none = Panic"
      using True by (simp add: recover_at_def slice_range_def)
    moreover have "[0..<length img - 16] = 0 # [1..<length img - 16]" using True by (simp add: upt_conv_Cons)
    moreover have "\<not> list_all id ?none" using v(1) by (cases vs) auto
    ultimately show ?thesis using True l by (simp add: recover_def)
  next
    case small: False
    then have "recover checks img identity vs = Returns (replicate (length vs) False)" by (simp add: recover_def)
    moreover have "map (recoverable img identity) vs = replicate (length vs) False"
      using small by (simp add: recoverable_iff list_eq_iff_nth_eq)
    ultimately show ?thesis using small by simp
  qed
qed

text \<open>
  A guarded constant is not hidden from whoever knows the derivation: the salt and the ciphertext of
  an accepted expansion, wherever they lie in the file (but for its last bytes), and the material of
  the binding are enough to recover the literal.
\<close>

lemma guarded_constant_recovered:
  assumes "expand checks seed_var identity_var input kind = Returns (Inr x)"
    and "img = pre @ ex_salt x @ post" and "post \<noteq> []"
    and "img = before @ ex_value x @ after" and "after \<noteq> []"
  shows "\<exists>handle literal plain b. split_input input kind = Inr (handle, literal) \<and> parse_kind kind literal = Inr plain
    \<and> parse_binding (case identity_var of None \<Rightarrow> [] | Some s \<Rightarrow> s) = Inr b
    \<and> (as_bytes identity = snd (bound_material b) \<longrightarrow>
        recover checks' img identity
          [\<lparr>xp_label = l, xp_plain = plain, xp_kind = (case kind of TextLiteral \<Rightarrow> ExpectedText | BytesLiteral \<Rightarrow> ExpectedBytes)\<rparr>]
        = Returns [True])"
proof -
  from assms(1) obtain handle literal plain seed b where
    e: "split_input input kind = Inr (handle, literal)" "parse_kind kind literal = Inr plain"
      "parse_binding (case identity_var of None \<Rightarrow> [] | Some s \<Rightarrow> s) = Inr b"
    and a: "8 \<le> length plain" "kind = TextLiteral \<longrightarrow> in_alphabet plain"
    and x: "ex_salt x = derive_salt (as_bytes seed) plain"
      "ex_value x = (let key = derive_key (derive_salt (as_bytes seed) plain) (snd (bound_material b)) in
        case kind of TextLiteral \<Rightarrow> step_spec key Forward plain | BytesLiteral \<Rightarrow> byte_stream key plain)"
    unfolding expand_cases
    by (cases kind) (auto simp: encrypt_Returns encrypt_bytes_def MIN_BYTES_def)
  let ?v = "\<lparr>xp_label = l, xp_plain = plain, xp_kind = (case kind of TextLiteral \<Rightarrow> ExpectedText | BytesLiteral \<Rightarrow> ExpectedBytes)\<rparr>"
  have "recover checks' img identity [?v] = Returns [True]" if i: "as_bytes identity = snd (bound_material b)"
  proof -
    have "ex_value x = cipher_of (derive_key (ex_salt x) (as_bytes identity)) ?v"
      using x i by (cases kind) (simp_all add: cipher_of_def Let_def)
    moreover have "length (ex_salt x) = 16" using x(1) by (simp add: derive_salt_def)
    ultimately have "recoverable img identity ?v"
      unfolding recoverable_def using assms(2-) a(1) by (metis expected.select_convs(2))
    moreover have "\<not> list_ex (\<lambda>v. xp_kind v = ExpectedText \<and> \<not> in_alphabet (xp_plain v)) [?v]"
      using a(2) by (cases kind) simp_all
    ultimately show ?thesis by (simp add: search_exact)
  qed
  with e show ?thesis by blast
qed

text \<open>
  What the sample prints: for each text, sixteen bytes that serve as a salt and a printable run of
  the file in the window around them that decrypts to it.
\<close>

definition sampled_from :: "bool \<Rightarrow> bytes \<Rightarrow> string \<Rightarrow> bytes \<Rightarrow> bool" where
  "sampled_from checks img identity t \<longleftrightarrow> (\<exists>at start.
     at + 16 < length img \<and> at \<le> start + 2048 \<and> start < at + 2048 \<and> start + length t \<le> length img
     \<and> 15 \<le> length t \<and> length t \<le> 64 \<and> list_all plausible t
     \<and> decrypt checks (salt_key img identity at) (take (length t) (drop start img)) = Returns t)"

lemma exec_fold_inv:
  "(\<And>x s. x \<in> set xs \<Longrightarrow> keeps s \<Longrightarrow> \<exists>s'. f x s = Returns s' \<and> keeps s') \<Longrightarrow> keeps s \<Longrightarrow>
     \<exists>s'. exec_fold f xs s = Returns s' \<and> keeps s'"
proof (induction xs arbitrary: s)
  case (Cons x xs)
  then obtain s1 where "f x s = Returns s1" "keeps s1" by (metis list.set_intros(1))
  with Cons show ?case by auto
qed simp

declare plain_run.simps [simp del]

lemma plain_run_exact:
  assumes "len \<le> EX_MAX"
  shows "\<exists>r. plain_run checks img (map (stream_byte key) [0..<EX_MAX]) start len = Returns r
    \<and> len + length r \<le> EX_MAX \<and> (r \<noteq> [] \<longrightarrow> start + len + length r \<le> length img) \<and> list_all plausible r
    \<and> (\<forall>j < length r. in_alphabet [img ! (start + len + j)]
         \<and> r ! j = of_letter (shift_letter Backward (char_amount key (len + j)) (letter (img ! (start + len + j)))))"
  using assms
proof (induction "EX_MAX - len" arbitrary: len)
  case 0
  then show ?case by (simp add: plain_run.simps)
next
  case (Suc n)
  let ?stream = "map (stream_byte key) [0..<EX_MAX]" and ?b = "img ! (start + len)"
  let ?d = "of_letter (shift_letter Backward (char_amount key len) (letter ?b))"
  have len: "len < EX_MAX" using Suc.hyps(2) by simp
  show ?case
  proof (cases "start + len < length img \<and> in_alphabet [?b] \<and> plausible ?d")
    case True
    then have c: "clear checks ?b (?stream ! len) = Returns ?d" using len by (simp add: clear_exact)
    have "n = EX_MAX - (len + 1)" "len + 1 \<le> EX_MAX" using Suc.hyps(2) by simp_all
    from Suc.hyps(1) [OF this] obtain r where
      r: "plain_run checks img ?stream start (len + 1) = Returns r" "len + 1 + length r \<le> EX_MAX"
        "r \<noteq> [] \<longrightarrow> start + (len + 1) + length r \<le> length img" "list_all plausible r"
      and j: "\<And>j. j < length r \<Longrightarrow> in_alphabet [img ! (start + (len + 1) + j)]
         \<and> r ! j = of_letter (shift_letter Backward (char_amount key (len + 1 + j)) (letter (img ! (start + (len + 1) + j))))"
      by blast
    have "plain_run checks img ?stream start len = Returns (?d # r)"
      using True len c r(1) by (subst plain_run.simps) (simp add: slice_get_def)
    moreover have "start + len + length (?d # r) \<le> length img" using True r(3) by (cases r) auto
    moreover have "in_alphabet [img ! (start + len + k)]
         \<and> (?d # r) ! k = of_letter (shift_letter Backward (char_amount key (len + k)) (letter (img ! (start + len + k))))"
      if "k < length (?d # r)" for k
      using that True j [of "k - 1"] by (cases k) simp_all
    ultimately show ?thesis using True r(2,4) by (intro exI [of _ "?d # r"]) simp
  next
    case False
    then have "plain_run checks img ?stream start len = Returns []"
      using len clear_exact [of ?b checks key len]
      by (subst plain_run.simps) (auto simp: slice_get_def simp del: in_alphabet_Cons)
    then show ?thesis using len by simp
  qed
qed

lemma plain_run_decrypts:
  "\<exists>r. plain_run checks img (map (stream_byte key) [0..<EX_MAX]) start 0 = Returns r
    \<and> length r \<le> EX_MAX \<and> (r \<noteq> [] \<longrightarrow> start + length r \<le> length img) \<and> list_all plausible r
    \<and> (r \<noteq> [] \<longrightarrow> decrypt checks key (take (length r) (drop start img)) = Returns r)"
proof -
  from plain_run_exact [of 0 checks img key start] obtain r where
    r: "plain_run checks img (map (stream_byte key) [0..<EX_MAX]) start 0 = Returns r" "length r \<le> EX_MAX"
      "r \<noteq> [] \<longrightarrow> start + length r \<le> length img" "list_all plausible r"
    and j: "\<And>j. j < length r \<Longrightarrow> in_alphabet [img ! (start + j)]
       \<and> r ! j = of_letter (shift_letter Backward (char_amount key j) (letter (img ! (start + j))))"
    unfolding add_0 add_0_right by blast
  have "decrypt checks key (take (length r) (drop start img)) = Returns r" if "r \<noteq> []"
  proof -
    let ?v = "take (length r) (drop start img)"
    have l: "length ?v = length r" using that r(3) by auto
    then have "in_alphabet ?v" using j by (auto simp: in_alphabet_iff in_set_conv_nth)
    moreover have "step_spec key Backward ?v = r" using l j by (intro nth_equalityI) (auto simp: nth_step_spec)
    ultimately show ?thesis by (simp add: decrypt_Returns)
  qed
  with r show ?thesis by blast
qed

text \<open>
  The sample form always ends with a sample: at most twenty texts, each of at least fifteen plausible
  characters and each the decryption of bytes of the file under a key of the file.
\<close>

lemma sample_form_sound:
  "\<exists>st. sample_form checks img identity = Returns st
     \<and> length (sm_texts st) \<le> 20 \<and> list_all (sampled_from checks img identity) (sm_texts st)"
proof -
  let ?inv = "\<lambda>st. length (sm_texts st) \<le> 20 \<and> list_all (sampled_from checks img identity) (sm_texts st)"
  have one: "\<exists>st'. sample_start checks img (map (stream_byte (salt_key img identity at)) [0..<EX_MAX]) start st = Returns st' \<and> ?inv st'"
    if i: "?inv st" and at: "at < length img - 16" and w: "start \<in> set [at - EX_WINDOW..<min (at + EX_WINDOW) (length img)]"
    for at start and st :: sample
  proof -
    obtain r where r: "plain_run checks img (map (stream_byte (salt_key img identity at)) [0..<EX_MAX]) start 0 = Returns r"
      "length r \<le> EX_MAX" "r \<noteq> [] \<longrightarrow> start + length r \<le> length img" "list_all plausible r"
      "r \<noteq> [] \<longrightarrow> decrypt checks (salt_key img identity at) (take (length r) (drop start img)) = Returns r"
      using plain_run_decrypts by blast
    have "sampled_from checks img identity r" if "SAMPLE_MIN \<le> length r"
    proof -
      have "r \<noteq> []" using that by (auto simp: SAMPLE_MIN_def)
      then show ?thesis unfolding sampled_from_def
        using r that at w by (intro exI [of _ at] exI [of _ start]) (auto simp: SAMPLE_MIN_def EX_MAX_def EX_WINDOW_def)
    qed
    with i r(1) show ?thesis by (simp add: sample_start_def Let_def EX_SAMPLE_def)
  qed
  have "\<exists>st'. sample_at checks img identity at st = Returns st' \<and> ?inv st'" if "?inv st" "at \<in> set [0..<length img - 16]"
    for at and st :: sample
  proof -
    from that(2) have "slice_range img at (at + 16) = Some (take 16 (drop at img))" by (auto simp: slice_range_def)
    moreover have "\<exists>st'. exec_fold (sample_start checks img (map (stream_byte (salt_key img identity at)) [0..<EX_MAX]))
        [at - EX_WINDOW..<min (at + EX_WINDOW) (length img)] st = Returns st' \<and> ?inv st'"
      using that one by (intro exec_fold_inv [where keeps = ?inv]) auto
    ultimately show ?thesis by (simp add: sample_at_def extract_keystream_exact salt_key_def)
  qed
  then show ?thesis
    unfolding sample_form_def by (intro exec_fold_inv [where keeps = ?inv]) auto
qed

text \<open>The control passes exactly when one of the stated values is recoverable.\<close>

lemma control_passes_iff:
  assumes "read_file path = Some img" and "parse_all_expected args = Inr vs" and "vs \<noteq> []" and "list_all encodable vs"
  shows "\<exists>e. extract_main checks read_file (path # identity # args) = Returns e
    \<and> (exit_status e = 0 \<longleftrightarrow> list_ex (recoverable img identity) vs)"
proof -
  have "\<not> list_ex (\<lambda>v. xp_kind v = ExpectedText \<and> \<not> in_alphabet (xp_plain v)) vs"
    using assms(4) by (auto simp: list_ex_iff list_all_iff encodable_def)
  then have "recover checks img identity vs = Returns (map (recoverable img identity) vs)"
    by (simp add: search_exact)
  moreover have "filter snd (zip (map xp_label vs) (map (recoverable img identity) vs)) \<noteq> []
      \<longleftrightarrow> list_ex (recoverable img identity) vs"
    by (induction vs) auto
  ultimately show ?thesis using assms by (auto simp: extract_main_def self_check_passes)
qed

text \<open>
  C24.  The extractor finds what a search of the whole file finds.  The index, the marks that skip a
  recovered value and the early end of the loop change nothing: every stated value is reported
  recovered exactly when the file holds a salt and the ciphertext of the value under the key of that
  salt and the identity, wherever they lie, except that a salt in the last sixteen bytes of the file
  and a ciphertext of eight bytes at its very end are never tried.  The run ends without a result
  exactly when a stated text is outside the alphabet and the file holds more than sixteen bytes.
\<close>

theorem recover_exact:
  "recover checks img identity vs =
     (if 16 < length img \<and> list_ex (\<lambda>v. xp_kind v = ExpectedText \<and> \<not> in_alphabet (xp_plain v)) vs then Panic
      else Returns (map (recoverable img identity) vs))"
  by (rule search_exact)

end
