(* ===== verification/Fid_Testkit.thy ===== *)
theory Fid_Testkit
  imports Fid_Worker
begin

text \<open>
  The scripted environment of the tests (\<open>fidelity-testkit/src/lib.rs\<close>).  Each stated fact is a field;
  the tracer capability reads a script that advances with every scan, so an environment gives one
  view for each scan.  The lemmas say what the worker sees of a script, cycle by cycle.  The
  counter of the script is a natural number, since no test reads it \<open>2 ^ 64\<close> times.
\<close>

definition NOT_STATED :: string where
  "NOT_STATED = ''this test stated no value for this fact''"

record script =
  sc_answers :: "tracer_state observation list"
  sc_next :: nat

definition script_answer :: "script \<Rightarrow> tracer_state observation \<times> script" where
  "script_answer sc =
     (let final = length (sc_answers sc) - 1;
          answer = (case slice_get (sc_answers sc) (min (sc_next sc) final) of
                      Some a \<Rightarrow> a | None \<Rightarrow> ObsUnsupported NOT_STATED)
      in (answer, sc\<lparr>sc_next := sc_next sc + 1\<rparr>))"

record fake_environment =
  fk_platform :: platform
  fk_code_identity :: "code_identity observation"
  fk_identity_match :: "identity_match observation"
  fk_tracer :: script
  fk_code_origin :: "code_origin observation"
  fk_code_regions :: "code_regions observation"
  fk_dispatch_targets :: "dispatch_targets observation"
  fk_system_build :: "system_build observation"
  fk_boot_verification :: "boot_verification observation"
  fk_image_catalog :: "image_catalog_state observation"
  fk_local_agent :: "local_agent_state observation"
  fk_machine_host :: "machine_host observation"

definition fake_new :: fake_environment where
  "fake_new =
     \<lparr>fk_platform = MacOs,
      fk_code_identity = ObsUnsupported NOT_STATED,
      fk_identity_match = ObsUnsupported NOT_STATED,
      fk_tracer = \<lparr>sc_answers = [], sc_next = 0\<rparr>,
      fk_code_origin = ObsUnsupported NOT_STATED,
      fk_code_regions = ObsUnsupported NOT_STATED,
      fk_dispatch_targets = ObsUnsupported NOT_STATED,
      fk_system_build = ObsUnsupported NOT_STATED,
      fk_boot_verification = ObsUnsupported NOT_STATED,
      fk_image_catalog = ObsUnsupported NOT_STATED,
      fk_local_agent = ObsUnsupported NOT_STATED,
      fk_machine_host = ObsUnsupported NOT_STATED\<rparr>"

definition with_platform :: "platform \<Rightarrow> fake_environment \<Rightarrow> fake_environment" where
  "with_platform p fe = fe\<lparr>fk_platform := p\<rparr>"

definition with_code_identity :: "code_identity observation \<Rightarrow> fake_environment \<Rightarrow> fake_environment" where
  "with_code_identity ob fe = fe\<lparr>fk_code_identity := ob\<rparr>"

definition with_identity_match :: "identity_match observation \<Rightarrow> fake_environment \<Rightarrow> fake_environment" where
  "with_identity_match ob fe = fe\<lparr>fk_identity_match := ob\<rparr>"

definition with_tracer_sequence :: "tracer_state observation list \<Rightarrow> fake_environment \<Rightarrow> fake_environment" where
  "with_tracer_sequence answers fe = fe\<lparr>fk_tracer := \<lparr>sc_answers = answers, sc_next = 0\<rparr>\<rparr>"

definition with_tracer_state :: "tracer_state observation \<Rightarrow> fake_environment \<Rightarrow> fake_environment" where
  "with_tracer_state ob fe = with_tracer_sequence [ob] fe"

definition with_system_build :: "system_build observation \<Rightarrow> fake_environment \<Rightarrow> fake_environment" where
  "with_system_build ob fe = fe\<lparr>fk_system_build := ob\<rparr>"

definition with_boot_verification :: "boot_verification observation \<Rightarrow> fake_environment \<Rightarrow> fake_environment" where
  "with_boot_verification ob fe = fe\<lparr>fk_boot_verification := ob\<rparr>"

definition with_local_agent :: "local_agent_state observation \<Rightarrow> fake_environment \<Rightarrow> fake_environment" where
  "with_local_agent ob fe = fe\<lparr>fk_local_agent := ob\<rparr>"

definition with_image_catalog :: "image_catalog_state observation \<Rightarrow> fake_environment \<Rightarrow> fake_environment" where
  "with_image_catalog ob fe = fe\<lparr>fk_image_catalog := ob\<rparr>"

definition with_machine_host :: "machine_host observation \<Rightarrow> fake_environment \<Rightarrow> fake_environment" where
  "with_machine_host ob fe = fe\<lparr>fk_machine_host := ob\<rparr>"

definition with_code_origin :: "code_origin observation \<Rightarrow> fake_environment \<Rightarrow> fake_environment" where
  "with_code_origin ob fe = fe\<lparr>fk_code_origin := ob\<rparr>"

definition with_code_regions :: "code_regions observation \<Rightarrow> fake_environment \<Rightarrow> fake_environment" where
  "with_code_regions ob fe = fe\<lparr>fk_code_regions := ob\<rparr>"

definition with_dispatch_targets :: "dispatch_targets observation \<Rightarrow> fake_environment \<Rightarrow> fake_environment" where
  "with_dispatch_targets ob fe = fe\<lparr>fk_dispatch_targets := ob\<rparr>"

text \<open>
  The capability traits of the scripted environment, as one scan reads them: each capability is
  asked once, and the call of the tracer advances the script.
\<close>

definition fake_view :: "fake_environment \<Rightarrow> environment \<times> fake_environment" where
  "fake_view fe = (case script_answer (fk_tracer fe) of (answer, sc) \<Rightarrow>
     (\<lparr>en_platform = fk_platform fe,
       en_code_identity = Returns (fk_code_identity fe),
       en_identity_match = (\<lambda>expected. Returns (fk_identity_match fe)),
       en_code_regions = Returns (fk_code_regions fe),
       en_tracer_state = Returns answer,
       en_code_origin = Returns (fk_code_origin fe),
       en_dispatch_targets = Returns (fk_dispatch_targets fe),
       en_image_catalog_state = Returns (fk_image_catalog fe),
       en_local_agent_state = Returns (fk_local_agent fe),
       en_system_build = Returns (fk_system_build fe),
       en_boot_verification = Returns (fk_boot_verification fe),
       en_machine_host = Returns (fk_machine_host fe),
       en_prepare_worker = Returns NothingToDo\<rparr>, fe\<lparr>fk_tracer := sc\<rparr>))"

text \<open>The views of the first \<open>n\<close> scans.\<close>

primrec fake_views :: "nat \<Rightarrow> fake_environment \<Rightarrow> environment list" where
  "fake_views 0 fe = []"
| "fake_views (Suc n) fe = (case fake_view fe of (env, fe') \<Rightarrow> env # fake_views n fe')"

section \<open>What a scan sees of a script\<close>

lemma length_fake_views [simp]: "length (fake_views n fe) = n"
  by (induction n arbitrary: fe) (simp_all split: prod.split)

lemma nth_fake_views:
  "k < n \<Longrightarrow> fake_views n fe ! k
     = fst (fake_view (fe\<lparr>fk_tracer := (fk_tracer fe)\<lparr>sc_next := sc_next (fk_tracer fe) + k\<rparr>\<rparr>))"
proof (induction n arbitrary: fe k)
  case (Suc n)
  obtain env fe' where v: "fake_view fe = (env, fe')" by fastforce
  then have fe': "fe' = fe\<lparr>fk_tracer := (fk_tracer fe)\<lparr>sc_next := sc_next (fk_tracer fe) + 1\<rparr>\<rparr>"
    by (auto simp: fake_view_def script_answer_def Let_def)
  show ?case
  proof (cases k)
    case 0
    with v show ?thesis by simp
  next
    case (Suc m)
    with Suc.prems v show ?thesis by (simp add: Suc.IH) (simp add: fe')
  qed
qed simp

lemma script_exact:
  "answers \<noteq> [] \<Longrightarrow> fst (script_answer \<lparr>sc_answers = answers, sc_next = k\<rparr>)
     = (if k < length answers then answers ! k else last answers)"
  by (cases answers rule: rev_cases) (auto simp: script_answer_def slice_get_def nth_append min_def not_less Let_def)

text \<open>
  The scan number \<open>k\<close> of a test reads the answer number \<open>k\<close> of the script, and the last one from the
  end of the script on; a script of no answer reads as unsupported.
\<close>

lemma scripted_tracer_exact:
  assumes "k < n"
  shows "en_tracer_state (fake_views n (with_tracer_sequence answers fe) ! k) = Returns
    (if answers = [] then ObsUnsupported NOT_STATED
     else if k < length answers then answers ! k else last answers)"
  using assms script_exact [of answers k]
  by (cases "answers = []")
     (simp_all add: nth_fake_views with_tracer_sequence_def fake_view_def split: prod.splits,
      simp_all add: script_answer_def slice_get_def Let_def)

text \<open>
  A tracer that attaches is found in its scan and in every later one, and in none before it: the
  scenario of the worker tests, with any number of clean scans.
\<close>

lemma scripted_attach_found:
  assumes "k < n"
  shows "guarded TRACER_PRESENT now (tracer_present (fake_views n
      (with_tracer_sequence (replicate m (Fact TracerAbsent) @ [Fact (TracerHeld detail)]) fe) ! k) now)
    = (TRACER_PRESENT, if k < m then Clean
         else Finding (finding_new TRACER_PRESENT Medium (TracerPresent detail) now))"
  unfolding tracer_present_def scripted_tracer_exact [OF assms]
  by (auto simp: nth_append guarded_def less_Suc_eq)

text \<open>
  An environment that states nothing gives no finding and no failure: every detector reports a
  missing interface.
\<close>

lemma unstated_scan_unsupported:
  "list_all (\<lambda>(d, oc). \<exists>reason. oc = Unsupported reason)
     (scan_all (detectors_new None CapturedUnsupported CapturedUnsupported) (fst (fake_view fake_new)) now)"
  by (simp add: scan_all_def scan_cheap_def guarded_def detectors_new_def fake_view_def fake_new_def
      script_answer_def slice_get_def Let_def detector_defs)

end
