(* ===== verification/Fid_Elf.thy ===== *)
theory Fid_Elf
  imports Fid_Prelude
begin

text \<open>
  The readers of the loaded ELF structures (\<open>fidelity-formats/src/elf/mod.rs\<close>).  A field is its
  numeric value; an offset into the bytes is a natural number whose additions are checked.  The
  theorems give both readers in closed form over the tables of fixed-size entries.
\<close>

section \<open>Constants and readers\<close>

definition MAX_DYNAMIC_BYTES :: nat where "MAX_DYNAMIC_BYTES = 1024 * 1024"
definition MAX_RELOCATION_BYTES :: nat where "MAX_RELOCATION_BYTES = 4 * 1024 * 1024"
definition DYNAMIC_ENTRY_BYTES :: nat where "DYNAMIC_ENTRY_BYTES = 16"
definition RELA_ENTRY_BYTES :: nat where "RELA_ENTRY_BYTES = 24"
definition DT_NULL :: int where "DT_NULL = 0"
definition DT_PLTRELSZ :: int where "DT_PLTRELSZ = 2"
definition DT_PLTREL :: int where "DT_PLTREL = 20"
definition DT_JMPREL :: int where "DT_JMPREL = 23"
definition DT_BIND_NOW :: int where "DT_BIND_NOW = 24"
definition DT_FLAGS :: int where "DT_FLAGS = 30"
definition DT_FLAGS_1 :: int where "DT_FLAGS_1 = 0x6ffffffb"
definition DT_RELA :: nat where "DT_RELA = 7"
definition DF_BIND_NOW :: nat where "DF_BIND_NOW = 8"
definition DF_1_NOW :: nat where "DF_1_NOW = 1"

lemmas elf_consts = MAX_DYNAMIC_BYTES_def MAX_RELOCATION_BYTES_def DYNAMIC_ENTRY_BYTES_def
  RELA_ENTRY_BYTES_def

definition elf_read_i64 :: "bytes \<Rightarrow> nat \<Rightarrow> int option" where
  "elf_read_i64 bs at = map_option (\<lambda>v. sint (of_nat v :: u64)) (read_le 8 bs at)"

text \<open>\<open>(0..len).step_by(n)\<close>.\<close>

definition step_by :: "nat \<Rightarrow> nat \<Rightarrow> nat list" where
  "step_by n len = map (\<lambda>i. i * n) [0..<(len + (n - 1)) div n]"

section \<open>The dynamic array\<close>

record dynamic_table =
  dt_jump_relocations :: nat
  dt_jump_relocation_bytes :: nat
  dt_bound :: bool

record dynamic_state = dynamic_table +
  ds_relocation_form :: nat

definition dynamic_start :: dynamic_state where
  "dynamic_start = \<lparr>dt_jump_relocations = 0, dt_jump_relocation_bytes = 0, dt_bound = False,
     ds_relocation_form = 0\<rparr>"

definition dynamic_entry :: "int \<Rightarrow> nat \<Rightarrow> dynamic_state \<Rightarrow> dynamic_state" where
  "dynamic_entry tag v st =
     (if tag = DT_JMPREL then st\<lparr>dt_jump_relocations := v\<rparr>
      else if tag = DT_PLTRELSZ then st\<lparr>dt_jump_relocation_bytes := v\<rparr>
      else if tag = DT_PLTREL then st\<lparr>ds_relocation_form := v\<rparr>
      else if tag = DT_BIND_NOW then st\<lparr>dt_bound := True\<rparr>
      else if tag = DT_FLAGS \<and> v AND DF_BIND_NOW \<noteq> 0 then st\<lparr>dt_bound := True\<rparr>
      else if tag = DT_FLAGS_1 \<and> v AND DF_1_NOW \<noteq> 0 then st\<lparr>dt_bound := True\<rparr>
      else st)"

definition dynamic_finish :: "dynamic_state \<Rightarrow> dynamic_table option" where
  "dynamic_finish st =
     (if dt_jump_relocations st = 0 \<or> dt_jump_relocation_bytes st = 0 \<or> ds_relocation_form st \<noteq> DT_RELA
      then None
      else Some \<lparr>dt_jump_relocations = dt_jump_relocations st,
                 dt_jump_relocation_bytes = dt_jump_relocation_bytes st, dt_bound = dt_bound st\<rparr>)"

fun dynamic_loop :: "bytes \<Rightarrow> nat list \<Rightarrow> dynamic_state \<Rightarrow> dynamic_table option" where
  "dynamic_loop bs [] st = None"
| "dynamic_loop bs (at # ats) st =
     Option.bind (elf_read_i64 bs at) (\<lambda>tag.
     Option.bind (checked_add at 8) (\<lambda>next.
     Option.bind (read_le 8 bs next) (\<lambda>v.
       if tag = DT_NULL then dynamic_finish st
       else dynamic_loop bs ats (dynamic_entry tag v st))))"

definition read_dynamic_table :: "bytes \<Rightarrow> dynamic_table option" where
  "read_dynamic_table bs =
     (if MAX_DYNAMIC_BYTES < length bs then None
      else dynamic_loop bs (step_by DYNAMIC_ENTRY_BYTES (length bs)) dynamic_start)"

section \<open>Jump slots\<close>

record jump_slot_table =
  js_offsets :: "nat list"
  js_truncated :: bool

fun jump_loop :: "bytes \<Rightarrow> nat \<Rightarrow> nat \<Rightarrow> nat list \<Rightarrow> jump_slot_table \<Rightarrow> jump_slot_table option" where
  "jump_loop bs jump_slot limit [] js = Some js"
| "jump_loop bs jump_slot limit (at # ats) js =
     Option.bind (read_le 8 bs at) (\<lambda>offset.
     Option.bind (checked_add at 8) (\<lambda>next.
     Option.bind (read_le 8 bs next) (\<lambda>info.
       if info AND 0xffffffff \<noteq> jump_slot then jump_loop bs jump_slot limit ats js
       else if length (js_offsets js) = limit then jump_loop bs jump_slot limit ats (js\<lparr>js_truncated := True\<rparr>)
       else jump_loop bs jump_slot limit ats (js\<lparr>js_offsets := js_offsets js @ [offset]\<rparr>))))"

definition jump_slots :: "bytes \<Rightarrow> u32 \<Rightarrow> nat \<Rightarrow> jump_slot_table option" where
  "jump_slots bs jump_slot limit =
     (if MAX_RELOCATION_BYTES < length bs \<or> length bs mod RELA_ENTRY_BYTES \<noteq> 0 then None
      else jump_loop bs (unat jump_slot) limit (step_by RELA_ENTRY_BYTES (length bs))
             \<lparr>js_offsets = [], js_truncated = False\<rparr>)"

section \<open>Closed forms\<close>

definition field64 :: "bytes \<Rightarrow> nat \<Rightarrow> nat" where
  "field64 bs at = le_nat (take 8 (drop at bs))"

text \<open>The whole entries of a table with entries of \<open>n\<close> bytes, as their first two fields.\<close>

definition table_entries :: "nat \<Rightarrow> bytes \<Rightarrow> (nat \<times> nat) list" where
  "table_entries n bs = map (\<lambda>i. (field64 bs (i * n), field64 bs (i * n + 8))) [0..<length bs div n]"

definition entry_tag :: "nat \<times> nat \<Rightarrow> int" where
  "entry_tag e = sint (of_nat (fst e) :: u64)"

definition dynamic_spec :: "(nat \<times> nat) list \<Rightarrow> dynamic_table option" where
  "dynamic_spec es =
     (let live = takeWhile (\<lambda>e. entry_tag e \<noteq> 0) es in
      if length live = length es then None
      else dynamic_finish (foldl (\<lambda>st e. dynamic_entry (entry_tag e) (snd e) st) dynamic_start live))"

lemma read_field64: "at + 8 \<le> length bs \<Longrightarrow> length bs < usize_bound \<Longrightarrow> read_le 8 bs at = Some (field64 bs at)"
  by (simp add: read_le_Some field64_def)

lemma field64_bound: "field64 bs at < 2 ^ 64"
proof -
  have "le_nat (take 8 (drop at bs)) < 256 ^ length (take 8 (drop at bs))" by (rule le_nat_bound)
  also have "\<dots> \<le> (256 :: nat) ^ 8" by (intro power_increasing) simp_all
  finally show ?thesis by (simp add: field64_def)
qed

lemma upt_step: "i < n \<Longrightarrow> [i..<n] = i # [Suc i..<n]"
  by (rule upt_conv_Cons)

lemma table_entries_step:
  assumes "i < length bs div n"
  shows "drop i (table_entries n bs) = (field64 bs (i * n), field64 bs (i * n + 8)) # drop (Suc i) (table_entries n bs)"
  using assms by (subst Cons_nth_drop_Suc [symmetric]) (simp_all add: table_entries_def)

lemma dynamic_loop_spec:
  assumes "length bs < usize_bound" and "i \<le> length bs div 16"
  shows "dynamic_loop bs (map (\<lambda>i. i * 16) [i..<(length bs + 15) div 16]) st =
    (let es = drop i (table_entries 16 bs); live = takeWhile (\<lambda>e. entry_tag e \<noteq> 0) es in
     if length live = length es then None
     else dynamic_finish (foldl (\<lambda>st e. dynamic_entry (entry_tag e) (snd e) st) st live))"
  using assms(2)
proof (induction "length bs div 16 - i" arbitrary: i st)
  case 0
  then have i: "i = length bs div 16" by simp
  have none: "dynamic_loop bs (map (\<lambda>i. i * 16) [i..<(length bs + 15) div 16]) st = None"
  proof (cases "i < (length bs + 15) div 16")
    case True
    have "length bs < i * 16 + 8 + 8" unfolding i by (simp add: dividend_less_div_times mult.commute [of _ 16] add.commute)
    then have "read_le 8 bs (i * 16 + 8) = None" by (intro read_le_None) simp
    then show ?thesis
      using True by (auto simp: upt_step bind_eq_None_conv checked_add_def)
  qed simp
  have "drop i (table_entries 16 bs) = []" by (simp add: table_entries_def i)
  with none show ?case by simp
next
  case (Suc n)
  then have i: "i < length bs div 16" by simp
  then have len: "i * 16 + 16 \<le> length bs" by (metis Suc_leI div_le_mono mult_Suc add.commute div_times_less_eq_dividend mult_le_mono1 order_trans)
  have m: "i < (length bs + 15) div 16" using i by (meson div_le_mono le_add1 less_le_trans)
  let ?e = "(field64 bs (i * 16), field64 bs (i * 16 + 8))"
  have es: "drop i (table_entries 16 bs) = ?e # drop (Suc i) (table_entries 16 bs)"
    using i by (rule table_entries_step)
  have ih: "dynamic_loop bs (map (\<lambda>i. i * 16) [Suc i..<(length bs + 15) div 16]) st' =
    (let es = drop (Suc i) (table_entries 16 bs); live = takeWhile (\<lambda>e. entry_tag e \<noteq> 0) es in
     if length live = length es then None
     else dynamic_finish (foldl (\<lambda>st e. dynamic_entry (entry_tag e) (snd e) st) st' live))" for st'
    using Suc.hyps i by (intro Suc.hyps(1)) simp_all
  have r: "read_le 8 bs (i * 16) = Some (fst ?e)" "read_le 8 bs (i * 16 + 8) = Some (snd ?e)"
      "checked_add (i * 16) 8 = Some (i * 16 + 8)"
    using len assms(1) by (auto simp: read_field64)
  show ?case
    unfolding upt_step [OF m] es using ih r
    by (simp add: elf_read_i64_def entry_tag_def DT_NULL_def Let_def checked_add_def)
qed

lemma low_word: "(info :: nat) AND 0xffffffff = info mod 2 ^ 32"
proof -
  have "(0xffffffff :: nat) = mask 32" by (simp add: mask_eq_exp_minus_1)
  then show ?thesis by (metis take_bit_eq_mask take_bit_eq_mod)
qed

text \<open>The jump slots among the entries, in order.\<close>

definition slot_offsets :: "nat \<Rightarrow> (nat \<times> nat) list \<Rightarrow> nat list" where
  "slot_offsets jump_slot es = map fst (filter (\<lambda>e. snd e mod 2 ^ 32 = jump_slot) es)"

lemma jump_loop_spec:
  assumes "length bs < usize_bound" and "length bs mod 24 = 0" and "i \<le> length bs div 24"
    and "length (js_offsets js) \<le> limit"
  shows "jump_loop bs jump_slot limit (map (\<lambda>i. i * 24) [i..<length bs div 24]) js =
    (let found = js_offsets js @ slot_offsets jump_slot (drop i (table_entries 24 bs)) in
     Some \<lparr>js_offsets = take limit found, js_truncated = (js_truncated js \<or> limit < length found)\<rparr>)"
  using assms(3,4)
proof (induction "length bs div 24 - i" arbitrary: i js)
  case 0
  then show ?case by (simp add: table_entries_def slot_offsets_def)
next
  case (Suc n)
  then have i: "i < length bs div 24" by simp
  then have len: "i * 24 + 24 \<le> length bs"
    using assms(2) by (metis Suc_leI add.commute mult_Suc mult_le_mono1 div_times_less_eq_dividend order_trans)
  let ?e = "(field64 bs (i * 24), field64 bs (i * 24 + 8))"
  have es: "drop i (table_entries 24 bs) = ?e # drop (Suc i) (table_entries 24 bs)"
    using i by (rule table_entries_step)
  have r: "read_le 8 bs (i * 24) = Some (fst ?e)" "read_le 8 bs (i * 24 + 8) = Some (snd ?e)"
      "checked_add (i * 24) 8 = Some (i * 24 + 8)"
    using len assms(1) by (auto simp: read_field64)
  have ih: "jump_loop bs jump_slot limit (map (\<lambda>i. i * 24) [Suc i..<length bs div 24]) js' =
    (let found = js_offsets js' @ slot_offsets jump_slot (drop (Suc i) (table_entries 24 bs)) in
     Some \<lparr>js_offsets = take limit found, js_truncated = (js_truncated js' \<or> limit < length found)\<rparr>)"
    if "length (js_offsets js') \<le> limit" for js'
    using Suc.hyps i that by (intro Suc.hyps(1)) simp_all
  show ?case
    unfolding upt_step [OF i] es using r Suc.prems(2)
    by (auto simp: low_word slot_offsets_def ih Let_def checked_add_def)
qed

lemma jump_loop_limit:
  "jump_loop bs jump_slot limit ats js = Some js' \<Longrightarrow> length (js_offsets js) \<le> limit \<Longrightarrow>
     length (js_offsets js') \<le> limit"
proof (induction ats arbitrary: js)
  case (Cons at ats)
  from Cons.prems(1) obtain j where "jump_loop bs jump_slot limit ats j = Some js'"
      "j = js \<or> j = js\<lparr>js_truncated := True\<rparr>
        \<or> (length (js_offsets js) \<noteq> limit \<and> (\<exists>off. j = js\<lparr>js_offsets := js_offsets js @ [off]\<rparr>))"
    by (auto simp: bind_eq_Some_conv split: if_splits)
  with Cons.prems(2) show ?case by (intro Cons.IH [of j]) auto
qed simp

lemma jump_slots_limit: "jump_slots bs jump_slot limit = Some js \<Longrightarrow> length (js_offsets js) \<le> limit"
  by (auto simp: jump_slots_def split: if_splits dest!: jump_loop_limit)

section \<open>Properties\<close>

text \<open>
  The ELF readers in closed form.  The dynamic array reads to the fields of its entries before
  the first null tag (the last value of a tag wins, any of three entries marks eager binding), and to
  nothing without a null tag, without a table, or with relocations that are not of the addend form.
  The jump slots are the offsets of the entries with the wanted type, in order, up to the limit,
  marked as truncated exactly when there are more.  Both hold for every byte string: no field is
  read outside it.
\<close>

lemma elf_readers_exact:
  "read_dynamic_table bs =
     (if MAX_DYNAMIC_BYTES < length bs then None else dynamic_spec (table_entries 16 bs))
   \<and> jump_slots bs jump_slot limit =
     (if MAX_RELOCATION_BYTES < length bs \<or> 0 < length bs mod 24 then None
      else Some \<lparr>js_offsets = take limit (slot_offsets (unat jump_slot) (table_entries 24 bs)),
                 js_truncated = (limit < length (slot_offsets (unat jump_slot) (table_entries 24 bs)))\<rparr>)"
proof
  have small: "length bs < usize_bound" if "length bs \<le> 4 * 1024 * 1024"
    using that by (simp add: usize_bound_def)
  show "read_dynamic_table bs = (if MAX_DYNAMIC_BYTES < length bs then None else dynamic_spec (table_entries 16 bs))"
    using dynamic_loop_spec [of bs 0 dynamic_start] small
    by (auto simp: read_dynamic_table_def dynamic_spec_def step_by_def elf_consts Let_def)
  have "(length bs + 23) div 24 = length bs div 24" if "length bs mod 24 = 0"
  proof -
    from that obtain q where "length bs = 24 * q" by (metis mod_0_imp_dvd dvdE)
    then show ?thesis by simp
  qed
  then show "jump_slots bs jump_slot limit =
     (if MAX_RELOCATION_BYTES < length bs \<or> 0 < length bs mod 24 then None
      else Some \<lparr>js_offsets = take limit (slot_offsets (unat jump_slot) (table_entries 24 bs)),
                 js_truncated = (limit < length (slot_offsets (unat jump_slot) (table_entries 24 bs)))\<rparr>)"
    using jump_loop_spec [of bs 0 "\<lparr>js_offsets = [], js_truncated = False\<rparr>" limit "unat jump_slot"] small
    by (auto simp: jump_slots_def step_by_def elf_consts Let_def)
qed

end
