(* ===== verification/Fid_Loader.thy ===== *)
theory Fid_Loader
  imports Fid_Facts Fid_Elf
begin

text \<open>
  The dynamic-loader boundary that the Linux and the Android probe share: the catalog of loaded
  ranges (\<open>sys/catalog.rs\<close>, the same file in both crates) and the reader of the dispatch table
  (\<open>sys/dispatch.rs\<close>).  What \<open>dl_iterate_phdr\<close> lists is an argument, and so is the memory of the
  process: a partial function, so that a read outside it is a value of its own and the theorem that
  no read faults says something.
\<close>

section \<open>What the loader lists\<close>

record phdr =
  ph_kind :: u32
  ph_vaddr :: u64
  ph_memsz :: u64
  ph_align :: u64

text \<open>A null pointer is \<open>None\<close>.  The list of headers has \<open>phnum\<close> elements.\<close>

record phdr_info =
  pi_base :: u64
  pi_name :: "string option"
  pi_phdr :: "phdr list option"

definition PT_LOAD :: u32 where "PT_LOAD = 1"
definition PT_DYNAMIC :: u32 where "PT_DYNAMIC = 2"

text \<open>\<open>dl_iterate_phdr\<close> calls the callback for each image until it returns a value other than zero.\<close>

fun iterate :: "('i \<Rightarrow> 's \<Rightarrow> bool \<times> 's) \<Rightarrow> 'i list \<Rightarrow> 's \<Rightarrow> 's" where
  "iterate callback [] s = s"
| "iterate callback (i # is) s = (case callback i s of
     (stop, s') \<Rightarrow> if stop then s' else iterate callback is s')"

section \<open>The catalog\<close>

record catalog =
  ct_ranges :: "(u64 \<times> u64) list"
  ct_failed :: bool

definition is_power_of_two :: "u64 \<Rightarrow> bool" where
  "is_power_of_two w = list_ex (\<lambda>k. w = 2 ^ k) [0..<64]"

definition aligned :: "u64 \<Rightarrow> u64 \<Rightarrow> u64 \<Rightarrow> (u64 \<times> u64) option" where
  "aligned start end alignment =
     (if alignment \<le> 1 then Some (start, end)
      else if \<not> is_power_of_two alignment then None
      else Option.bind (checked_sub_word alignment 1) (\<lambda>m.
             let start = start AND NOT m in
             Option.bind (checked_add_word end m) (\<lambda>e. Some (start, e AND NOT m))))"

fun take_ranges_loop :: "u64 \<Rightarrow> phdr list \<Rightarrow> catalog \<Rightarrow> bool \<times> catalog" where
  "take_ranges_loop base [] cat = (False, cat)"
| "take_ranges_loop base (h # hs) cat = (case checked_add_word base (ph_vaddr h) of
       None \<Rightarrow> (True, cat\<lparr>ct_failed := True\<rparr>)
     | Some raw_start \<Rightarrow> (case checked_add_word raw_start (ph_memsz h) of
         None \<Rightarrow> (True, cat\<lparr>ct_failed := True\<rparr>)
       | Some raw_end \<Rightarrow> (case aligned raw_start raw_end (ph_align h) of
           None \<Rightarrow> (True, cat\<lparr>ct_failed := True\<rparr>)
         | Some r \<Rightarrow> if max_regions \<le> length (ct_ranges cat) then (True, cat\<lparr>ct_failed := True\<rparr>)
             else take_ranges_loop base hs (cat\<lparr>ct_ranges := ct_ranges cat @ [r]\<rparr>))))"

definition take_ranges :: "phdr_info \<Rightarrow> catalog \<Rightarrow> bool \<times> catalog" where
  "take_ranges info cat = (case pi_phdr info of
       None \<Rightarrow> (True, cat\<lparr>ct_failed := True\<rparr>)
     | Some headers \<Rightarrow>
         if headers = [] then (True, cat\<lparr>ct_failed := True\<rparr>)
         else take_ranges_loop (pi_base info) (filter (\<lambda>h. ph_kind h = PT_LOAD) headers) cat)"

definition catalog_invalid :: string where
  "catalog_invalid = ''the dynamic-loader catalog is invalid or reached its bound''"

definition catalog_empty :: string where
  "catalog_empty = ''the dynamic-loader catalog reported no load range''"

definition catalog_read :: "phdr_info list \<Rightarrow> string + (u64 \<times> u64) list" where
  "catalog_read infos =
     (let cat = iterate take_ranges infos \<lparr>ct_ranges = [], ct_failed = False\<rparr> in
      if ct_failed cat then Inl catalog_invalid
      else if ct_ranges cat = [] then Inl catalog_empty
      else Inr (ct_ranges cat))"

section \<open>Bounded reads of the memory\<close>

type_synonym memory = "u64 \<Rightarrow> u8 option"

text \<open>
  \<open>Absent\<close> is the early return of \<open>None\<close>; \<open>Fault\<close> is a slice that \<open>from_raw_parts\<close> may not make: a
  null address or a byte that is not mapped.
\<close>

datatype 'a access = Fault | Absent | Got 'a

fun access_bind :: "'a access \<Rightarrow> ('a \<Rightarrow> 'b access) \<Rightarrow> 'b access" where
  "access_bind Fault f = Fault"
| "access_bind Absent f = Absent"
| "access_bind (Got x) f = f x"

definition or_absent :: "'a option \<Rightarrow> 'a access" where
  "or_absent x = (case x of None \<Rightarrow> Absent | Some v \<Rightarrow> Got v)"

definition slice :: "memory \<Rightarrow> u64 \<Rightarrow> nat \<Rightarrow> bytes access" where
  "slice mem address n =
     (if address = 0 then Fault
      else case those (map (\<lambda>i. mem (address + of_nat i)) [0..<n]) of
        None \<Rightarrow> Fault | Some bs \<Rightarrow> Got bs)"

definition segment_range :: "u64 \<Rightarrow> phdr \<Rightarrow> (u64 \<times> u64) option" where
  "segment_range base h =
     Option.bind (checked_add_word base (ph_vaddr h)) (\<lambda>low.
     Option.bind (checked_add_word low (ph_memsz h)) (\<lambda>high. Some (low, high)))"

definition mapped_bytes :: "memory \<Rightarrow> u64 \<Rightarrow> nat \<Rightarrow> u64 \<Rightarrow> phdr list \<Rightarrow> nat \<Rightarrow> bytes access" where
  "mapped_bytes mem address n base headers limit =
     (if limit < n then Absent
      else access_bind (or_absent (checked_add_word address (of_nat n))) (\<lambda>end.
        if list_ex (\<lambda>h. case segment_range base h of
               None \<Rightarrow> False | Some (low, high) \<Rightarrow> low \<le> address \<and> end \<le> high)
             (filter (\<lambda>h. ph_kind h = PT_LOAD) headers)
        then slice mem address n else Absent))"

definition segment_bytes :: "memory \<Rightarrow> u64 \<Rightarrow> phdr list \<Rightarrow> u32 \<Rightarrow> nat \<Rightarrow> bytes access" where
  "segment_bytes mem base headers kind limit =
     access_bind (or_absent (List.find (\<lambda>h. ph_kind h = kind) headers)) (\<lambda>h.
     access_bind (or_absent (checked_add_word base (ph_vaddr h))) (\<lambda>address.
       mapped_bytes mem address (unat (ph_memsz h)) base headers limit))"

text \<open>A buffer of zeros into which a call wrote from the start.\<close>

definition filled :: "nat \<Rightarrow> 'a \<Rightarrow> 'a list \<Rightarrow> 'a list" where
  "filled n zero written = take n (written @ replicate n zero)"

lemma length_filled [simp]: "length (filled n z ws) = n"
  by (simp add: filled_def)

section \<open>The dispatch table\<close>

datatype arch = Aarch64 | X86_64

fun JUMP_SLOT :: "arch \<Rightarrow> u32" where
  "JUMP_SLOT Aarch64 = 1026"
| "JUMP_SLOT X86_64 = 7"

record raw_target =
  rw_slot :: u64
  rw_value :: u64

record raw_targets =
  rw_targets :: "raw_target list"
  rw_bound :: bool

text \<open>\<open>u64::from_ne_bytes\<close>: both architectures are little endian.\<close>

fun read_targets :: "memory \<Rightarrow> u64 \<Rightarrow> phdr list \<Rightarrow> nat list \<Rightarrow> raw_target list access" where
  "read_targets mem base headers [] = Got []"
| "read_targets mem base headers (offset # rest) =
     access_bind (or_absent (checked_add_word base (of_nat offset))) (\<lambda>slot.
     access_bind (mapped_bytes mem slot 8 base headers 8) (\<lambda>v.
     access_bind (if length v = 8 then Got v else Absent) (\<lambda>word.
     access_bind (read_targets mem base headers rest) (\<lambda>targets.
       Got (\<lparr>rw_slot = slot, rw_value = of_nat (le_nat word)\<rparr> # targets)))))"

section \<open>The Linux reader\<close>

text \<open>The main image is the first one whose name is null or empty.\<close>

definition take_main_image :: "phdr_info \<Rightarrow> phdr_info option \<Rightarrow> bool \<times> phdr_info option" where
  "take_main_image info held = (case pi_name info of
       Some (c # cs) \<Rightarrow> (False, held)
     | _ \<Rightarrow> (True, Some info))"

definition linux_dispatch_read :: "arch \<Rightarrow> memory \<Rightarrow> phdr_info list \<Rightarrow> raw_targets access" where
  "linux_dispatch_read arch mem infos =
     access_bind (or_absent (iterate take_main_image infos None)) (\<lambda>image.
     access_bind (or_absent (pi_phdr image)) (\<lambda>headers.
     access_bind (segment_bytes mem (pi_base image) headers PT_DYNAMIC MAX_DYNAMIC_BYTES) (\<lambda>dynamic.
     access_bind (or_absent (read_dynamic_table dynamic)) (\<lambda>table.
     access_bind (mapped_bytes mem (of_nat (dt_jump_relocations table)) (dt_jump_relocation_bytes table)
        (pi_base image) headers MAX_RELOCATION_BYTES) (\<lambda>relocations.
     access_bind (or_absent (jump_slots relocations (JUMP_SLOT arch) (max_targets + 1))) (\<lambda>slots.
     access_bind (read_targets mem (pi_base image) headers (js_offsets slots)) (\<lambda>targets.
       Got \<lparr>rw_targets = targets, rw_bound = dt_bound table\<rparr>)))))))"

section \<open>The Android reader\<close>

definition holds :: "u64 \<Rightarrow> u64 \<Rightarrow> phdr list \<Rightarrow> bool" where
  "holds address base headers =
     list_ex (\<lambda>h. case segment_range base h of
         None \<Rightarrow> False | Some (low, high) \<Rightarrow> low \<le> address \<and> address < high)
       (filter (\<lambda>h. ph_kind h = PT_LOAD) headers)"

definition take_own_image :: "u64 \<Rightarrow> phdr_info \<Rightarrow> phdr_info option \<Rightarrow> bool \<times> phdr_info option" where
  "take_own_image anchor info held = (case pi_phdr info of
       None \<Rightarrow> (False, held)
     | Some headers \<Rightarrow>
         if \<not> holds anchor (pi_base info) headers then (False, held) else (True, Some info))"

definition find_own_image :: "u64 \<Rightarrow> phdr_info list \<Rightarrow> phdr_info option" where
  "find_own_image anchor infos = iterate (take_own_image anchor) infos None"

definition image_path :: "u64 \<Rightarrow> phdr_info list \<Rightarrow> string option" where
  "image_path anchor infos =
     Option.bind (find_own_image anchor infos) (\<lambda>image.
     Option.bind (pi_name image) (\<lambda>name. if utf8_valid name then Some name else None))"

definition android_dispatch_read :: "arch \<Rightarrow> u64 \<Rightarrow> memory \<Rightarrow> phdr_info list \<Rightarrow> raw_targets access" where
  "android_dispatch_read arch anchor mem infos =
     access_bind (or_absent (find_own_image anchor infos)) (\<lambda>image.
     access_bind (or_absent (pi_phdr image)) (\<lambda>headers.
     access_bind (segment_bytes mem (pi_base image) headers PT_DYNAMIC MAX_DYNAMIC_BYTES) (\<lambda>dynamic.
     access_bind (or_absent (read_dynamic_table dynamic)) (\<lambda>table.
     access_bind (or_absent (checked_add_word (pi_base image) (of_nat (dt_jump_relocations table)))) (\<lambda>address.
     access_bind (mapped_bytes mem address (dt_jump_relocation_bytes table)
        (pi_base image) headers MAX_RELOCATION_BYTES) (\<lambda>relocations.
     access_bind (or_absent (jump_slots relocations (JUMP_SLOT arch) (max_targets + 1))) (\<lambda>slots.
     access_bind (read_targets mem (pi_base image) headers (js_offsets slots)) (\<lambda>targets.
       Got \<lparr>rw_targets = targets, rw_bound = dt_bound table\<rparr>))))))))"

section \<open>The catalog in closed form\<close>

definition header_range :: "u64 \<Rightarrow> phdr \<Rightarrow> (u64 \<times> u64) option" where
  "header_range base h = Option.bind (segment_range base h) (\<lambda>(low, high). aligned low high (ph_align h))"

definition image_ranges :: "phdr_info \<Rightarrow> (u64 \<times> u64) list option" where
  "image_ranges info = (case pi_phdr info of
       None \<Rightarrow> None
     | Some [] \<Rightarrow> None
     | Some (h # hs) \<Rightarrow> those (map (header_range (pi_base info)) (filter (\<lambda>h. ph_kind h = PT_LOAD) (h # hs))))"

lemma and_not_mask: "unat (x AND NOT (2 ^ k - 1)) = unat x div 2 ^ k * 2 ^ k" for x :: "'a::len word"
proof -
  have "unat (x AND NOT (mask k)) = push_bit k (drop_bit k (unat x))"
    by (rule bit_eqI) (auto simp: bit_simps not_less dest: bit_imp_le_length)
  then show ?thesis by (simp add: push_bit_eq_mult drop_bit_eq_div mask_eq_exp_minus_1)
qed

lemma round_up_nat: "0 < (m :: nat) \<Longrightarrow> e \<le> (e + (m - 1)) div m * m"
proof -
  assume "0 < m"
  then have "(e + (m - 1)) mod m \<le> m - 1" by (metis Suc_pred' less_Suc_eq_le mod_less_divisor)
  then show ?thesis by (metis add_le_cancel_right diff_add_inverse2 le_diff_conv mod_div_mult_eq
        add.commute add_le_mono le_refl)
qed

lemma aligned_covers:
  assumes "aligned s e a = Some (s', e')"
  shows "s' \<le> s \<and> e \<le> e'"
proof (cases "a \<le> 1")
  case True
  with assms show ?thesis by (simp add: aligned_def)
next
  case False
  with assms have p: "is_power_of_two a" by (auto simp: aligned_def split: if_splits)
  then obtain k where k: "k < 64" "a = 2 ^ k" by (auto simp: is_power_of_two_def list_ex_iff)
  have "a = of_nat (2 ^ k)" by (simp add: k(2))
  then have "unat a = 2 ^ k mod 2 ^ 64" by (simp add: unat_of_nat del: of_nat_power of_nat_numeral)
  moreover have "(2 :: nat) ^ k < 2 ^ 64" using k(1) by (intro power_strict_increasing) simp_all
  ultimately have ua: "unat a = 2 ^ k" by simp
  have um: "unat (a - 1) = 2 ^ k - 1" using False ua by (simp add: unat_sub word_le_nat_alt)
  from False p assms obtain e1 where e1: "checked_add_word e (a - 1) = Some e1"
      "s' = s AND NOT (a - 1)" "e' = e1 AND NOT (a - 1)"
    by (auto simp: aligned_def checked_sub_word_def Let_def bind_eq_Some_conv split: if_splits)
  have "unat s' = unat s div 2 ^ k * 2 ^ k" using e1(2) and_not_mask [of s k] by (simp add: k(2))
  then have "unat s' \<le> unat s" by simp
  moreover have "unat e1 = unat e + (2 ^ k - 1)"
    using e1(1) um by (auto simp: checked_add_word_Some)
  then have "unat e' = (unat e + (2 ^ k - 1)) div 2 ^ k * 2 ^ k"
    using e1(3) and_not_mask [of e1 k] unfolding k(2) by simp
  then have "unat e \<le> unat e'" using round_up_nat [of "2 ^ k" "unat e"] by simp
  ultimately show ?thesis by (simp add: word_le_nat_alt)
qed

lemma take_ranges_loop_spec:
  assumes "length (ct_ranges cat) \<le> max_regions"
  shows "(case those (map (header_range base) hs) of
     None \<Rightarrow> fst (take_ranges_loop base hs cat) \<and> ct_failed (snd (take_ranges_loop base hs cat))
   | Some rs \<Rightarrow> if length (ct_ranges cat) + length rs \<le> max_regions
       then take_ranges_loop base hs cat = (False, cat\<lparr>ct_ranges := ct_ranges cat @ rs\<rparr>)
       else fst (take_ranges_loop base hs cat) \<and> ct_failed (snd (take_ranges_loop base hs cat)))"
  using assms
proof (induction hs arbitrary: cat)
  case Nil
  then show ?case by simp
next
  case (Cons h hs)
  show ?case
  proof (cases "header_range base h")
    case None
    then show ?thesis
      by (auto simp: header_range_def segment_range_def bind_eq_None_conv split: option.splits)
  next
    case (Some r)
    then have step: "take_ranges_loop base (h # hs) cat =
        (if max_regions \<le> length (ct_ranges cat) then (True, cat\<lparr>ct_failed := True\<rparr>)
         else take_ranges_loop base hs (cat\<lparr>ct_ranges := ct_ranges cat @ [r]\<rparr>))"
      by (auto simp: header_range_def segment_range_def bind_eq_Some_conv split: option.splits)
    show ?thesis
    proof (cases "max_regions \<le> length (ct_ranges cat)")
      case True
      with step Some show ?thesis by (auto split: option.splits)
    next
      case False
      with Cons.IH [of "cat\<lparr>ct_ranges := ct_ranges cat @ [r]\<rparr>"] step Some show ?thesis
        by (auto split: option.splits if_splits)
    qed
  qed
qed

lemma take_ranges_spec:
  assumes "length (ct_ranges cat) \<le> max_regions"
  shows "(case image_ranges info of
     None \<Rightarrow> fst (take_ranges info cat) \<and> ct_failed (snd (take_ranges info cat))
   | Some rs \<Rightarrow> if length (ct_ranges cat) + length rs \<le> max_regions
       then take_ranges info cat = (False, cat\<lparr>ct_ranges := ct_ranges cat @ rs\<rparr>)
       else fst (take_ranges info cat) \<and> ct_failed (snd (take_ranges info cat)))"
proof (cases "\<exists>h hs. pi_phdr info = Some (h # hs)")
  case True
  then obtain h hs where p: "pi_phdr info = Some (h # hs)" by blast
  let ?hs = "filter (\<lambda>h. ph_kind h = PT_LOAD) (h # hs)"
  have "take_ranges info cat = take_ranges_loop (pi_base info) ?hs cat" by (simp add: take_ranges_def p)
  moreover have "image_ranges info = those (map (header_range (pi_base info)) ?hs)"
    by (simp add: image_ranges_def p)
  ultimately show ?thesis using take_ranges_loop_spec [OF assms, of "pi_base info" ?hs] by (simp only:)
next
  case False
  then have "pi_phdr info = None \<or> pi_phdr info = Some []" by (metis list.exhaust option.exhaust)
  then show ?thesis by (auto simp: take_ranges_def image_ranges_def)
qed

lemma iterate_take_ranges:
  assumes "length (ct_ranges cat) \<le> max_regions" and "\<not> ct_failed cat"
  shows "(case those (map image_ranges infos) of
     None \<Rightarrow> ct_failed (iterate take_ranges infos cat)
   | Some rss \<Rightarrow> if length (ct_ranges cat) + length (concat rss) \<le> max_regions
       then iterate take_ranges infos cat = cat\<lparr>ct_ranges := ct_ranges cat @ concat rss\<rparr>
       else ct_failed (iterate take_ranges infos cat))"
  using assms
proof (induction infos arbitrary: cat)
  case Nil
  then show ?case by simp
next
  case (Cons info infos)
  note t = take_ranges_spec [OF Cons.prems(1), of info]
  show ?case
  proof (cases "image_ranges info")
    case None
    with t show ?thesis by (auto split: prod.splits)
  next
    case (Some rs)
    show ?thesis
    proof (cases "length (ct_ranges cat) + length rs \<le> max_regions")
      case True
      let ?c = "cat\<lparr>ct_ranges := ct_ranges cat @ rs\<rparr>"
      have "iterate take_ranges (info # infos) cat = iterate take_ranges infos ?c"
        using t Some True by simp
      with Cons.IH [of ?c] Cons.prems True Some show ?thesis
        by (auto split: option.splits simp: add.assoc)
    next
      case False
      with t Some have "ct_failed (iterate take_ranges (info # infos) cat)" by (auto split: prod.splits)
      with False Some show ?thesis by (auto split: option.splits)
    qed
  qed
qed

lemma catalog_read_closed:
  "catalog_read infos = (case those (map image_ranges infos) of
     None \<Rightarrow> Inl catalog_invalid
   | Some rss \<Rightarrow> if max_regions < length (concat rss) then Inl catalog_invalid
       else if concat rss = [] then Inl catalog_empty else Inr (concat rss))"
  using iterate_take_ranges [of "\<lparr>ct_ranges = [], ct_failed = False\<rparr>" infos]
  by (auto simp: catalog_read_def Let_def split: option.splits if_splits)

text \<open>An address is loaded when it lies in a loadable segment of a listed image.\<close>

definition loaded :: "phdr_info list \<Rightarrow> u64 \<Rightarrow> u64 \<Rightarrow> bool" where
  "loaded infos low high \<longleftrightarrow> (\<exists>info \<in> set infos. \<exists>hs h. pi_phdr info = Some hs \<and> h \<in> set hs
     \<and> ph_kind h = PT_LOAD \<and> segment_range (pi_base info) h = Some (low, high))"

lemma those_Some: "those xs = Some ys \<longleftrightarrow> xs = map Some ys"
  by (induction xs arbitrary: ys) (auto simp: map_eq_Cons_conv split: option.splits)

lemma those_map_Some: "those (map f xs) = Some ys \<Longrightarrow> x \<in> set xs \<Longrightarrow> \<exists>y \<in> set ys. f x = Some y"
  unfolding those_Some by (metis (no_types, lifting) imageE image_eqI list.set_map)

lemma catalog_read_covers:
  assumes "catalog_read infos = Inr ranges" and "loaded infos low high"
  shows "\<exists>(s, e) \<in> set ranges. s \<le> low \<and> high \<le> e"
proof -
  from assms(1) obtain rss where r: "those (map image_ranges infos) = Some rss" "ranges = concat rss"
    by (auto simp: catalog_read_closed split: option.splits if_splits)
  from assms(2) obtain info hs h where i: "info \<in> set infos" "pi_phdr info = Some hs" "h \<in> set hs"
      "ph_kind h = PT_LOAD" "segment_range (pi_base info) h = Some (low, high)"
    by (auto simp: loaded_def)
  from those_map_Some [OF r(1) i(1)] obtain rs where rs: "rs \<in> set rss" "image_ranges info = Some rs" by blast
  from i(2,3) obtain h0 hs0 where "hs = h0 # hs0" by (cases hs) auto
  with rs i(2) have "those (map (header_range (pi_base info)) (filter (\<lambda>h. ph_kind h = PT_LOAD) hs)) = Some rs"
    by (simp add: image_ranges_def)
  from those_map_Some [OF this, of h] i(3,4) obtain x where x: "x \<in> set rs"
      "header_range (pi_base info) h = Some x" by auto
  obtain s e where "x = (s, e)" by fastforce
  with x(2) i(5) have "aligned low high (ph_align h) = Some (s, e)" by (simp add: header_range_def)
  from aligned_covers [OF this] x(1) rs(1) r(2) \<open>x = (s, e)\<close> show ?thesis by auto
qed

section \<open>No read leaves the loaded segments\<close>

text \<open>What the loader promises of its list: no segment at the null address, every byte mapped.\<close>

definition images_mapped :: "memory \<Rightarrow> phdr_info list \<Rightarrow> bool" where
  "images_mapped mem infos \<longleftrightarrow> (\<forall>low high. loaded infos low high \<longrightarrow>
     low \<noteq> 0 \<and> (\<forall>a. low \<le> a \<and> a < high \<longrightarrow> mem a \<noteq> None))"

text \<open>The bytes of the memory at an address, inside one loaded segment.\<close>

definition loaded_bytes :: "memory \<Rightarrow> phdr_info list \<Rightarrow> u64 \<Rightarrow> bytes \<Rightarrow> bool" where
  "loaded_bytes mem infos a bs \<longleftrightarrow>
     (\<exists>low high. loaded infos low high \<and> low \<le> a \<and> unat a + length bs \<le> unat high)
     \<and> (\<forall>i < length bs. mem (a + of_nat i) = Some (bs ! i))"

lemma access_bind_Fault: "access_bind m f = Fault \<longleftrightarrow> m = Fault \<or> (\<exists>x. m = Got x \<and> f x = Fault)"
  by (cases m) auto

lemma access_bind_Got: "access_bind m f = Got y \<longleftrightarrow> (\<exists>x. m = Got x \<and> f x = Got y)"
  by (cases m) auto

lemma or_absent_simps [simp]: "or_absent x \<noteq> Fault" "or_absent x = Got y \<longleftrightarrow> x = Some y"
  by (auto simp: or_absent_def split: option.splits)

lemma slice_mapped:
  assumes "a \<noteq> 0" and "\<And>i. i < n \<Longrightarrow> mem (a + of_nat i) \<noteq> None"
  shows "slice mem a n = Got (map (\<lambda>i. the (mem (a + of_nat i))) [0..<n])"
proof -
  have "those (map (\<lambda>i. mem (a + of_nat i)) [0..<n]) = Some (map (\<lambda>i. the (mem (a + of_nat i))) [0..<n])"
    unfolding those_Some using assms(2) by auto
  then show ?thesis using assms(1) by (simp add: slice_def)
qed

lemma slice_within:
  assumes "images_mapped mem infos" and "loaded infos low high" and "low \<le> a" and "unat a + n \<le> unat high"
  shows "\<exists>bs. slice mem a n = Got bs \<and> length bs = n \<and> loaded_bytes mem infos a bs"
proof -
  from assms(1,2) have low: "low \<noteq> 0" and mapped: "\<And>x. low \<le> x \<Longrightarrow> x < high \<Longrightarrow> mem x \<noteq> None"
    by (auto simp: images_mapped_def)
  from low assms(3) have "a \<noteq> 0" by auto
  have at: "mem (a + of_nat i) \<noteq> None" if "i < n" for i
  proof (rule mapped)
    have "unat a + i < 2 ^ 64" using that assms(4) unsigned_less [of high, where 'a = nat] by simp
    then have u: "unat (a + of_nat i) = unat a + i"
      by (simp add: unat_word_ariths unat_of_nat mod_add_right_eq)
    then show "low \<le> a + of_nat i" "a + of_nat i < high"
      using that assms(3,4) by (simp_all add: word_le_nat_alt word_less_nat_alt)
  qed
  let ?bs = "map (\<lambda>i. the (mem (a + of_nat i))) [0..<n]"
  have "slice mem a n = Got ?bs" by (rule slice_mapped [of a n mem]) (use \<open>a \<noteq> 0\<close> at in auto)
  moreover have "loaded_bytes mem infos a ?bs"
    using assms(2-4) at by (auto simp: loaded_bytes_def)
  ultimately show ?thesis by (intro exI [of _ ?bs]) simp
qed

lemma mapped_bytes_safe:
  assumes "images_mapped mem infos" and "info \<in> set infos" and "pi_phdr info = Some hs" and "limit < 2 ^ 64"
  shows "mapped_bytes mem a n (pi_base info) hs limit \<noteq> Fault"
    and "mapped_bytes mem a n (pi_base info) hs limit = Got bs \<Longrightarrow>
      length bs = n \<and> n \<le> limit \<and> loaded_bytes mem infos a bs"
proof -
  have "mapped_bytes mem a n (pi_base info) hs limit \<in> {Absent} \<union>
      {Got bs | bs. length bs = n \<and> n \<le> limit \<and> loaded_bytes mem infos a bs}"
  proof (cases "n \<le> limit \<and> (\<exists>e. checked_add_word a (of_nat n) = Some e \<and> list_ex (\<lambda>h. case segment_range (pi_base info) h of
               None \<Rightarrow> False | Some (low, high) \<Rightarrow> low \<le> a \<and> e \<le> high)
             (filter (\<lambda>h. ph_kind h = PT_LOAD) hs))")
    case True
    then obtain e h low high where e: "checked_add_word a (of_nat n) = Some e" and h: "h \<in> set hs" "ph_kind h = PT_LOAD"
        "segment_range (pi_base info) h = Some (low, high)" "low \<le> a" "e \<le> high" and n: "n \<le> limit"
      by (auto simp: list_ex_iff split: option.splits prod.splits)
    have "loaded infos low high" using assms(2,3) h by (auto simp: loaded_def)
    moreover have "unat (of_nat n :: u64) = n" using n assms(4) by (simp add: unat_of_nat)
    then have "unat a + n \<le> unat high" using e h(5) by (auto simp: checked_add_word_Some word_le_nat_alt)
    ultimately obtain bs where "slice mem a n = Got bs" "length bs = n" "loaded_bytes mem infos a bs"
      using slice_within [OF assms(1) _ h(4)] by blast
    then show ?thesis using True e n by (auto simp: mapped_bytes_def or_absent_def)
  next
    case False
    then have "mapped_bytes mem a n (pi_base info) hs limit = Absent"
      by (auto simp: mapped_bytes_def or_absent_def split: option.splits)
    then show ?thesis by simp
  qed
  then show "mapped_bytes mem a n (pi_base info) hs limit \<noteq> Fault"
    and "mapped_bytes mem a n (pi_base info) hs limit = Got bs \<Longrightarrow>
      length bs = n \<and> n \<le> limit \<and> loaded_bytes mem infos a bs" by auto
qed

lemma segment_bytes_safe:
  assumes "images_mapped mem infos" and "info \<in> set infos" and "pi_phdr info = Some hs" and "limit < 2 ^ 64"
  shows "segment_bytes mem (pi_base info) hs kind limit \<noteq> Fault"
  by (simp add: segment_bytes_def access_bind_Fault mapped_bytes_safe(1) [OF assms])

definition target_read :: "memory \<Rightarrow> phdr_info list \<Rightarrow> raw_target \<Rightarrow> bool" where
  "target_read mem infos t \<longleftrightarrow>
     (\<exists>bs. length bs = 8 \<and> loaded_bytes mem infos (rw_slot t) bs \<and> rw_value t = of_nat (le_nat bs))"

lemma read_targets_safe:
  assumes "images_mapped mem infos" and "info \<in> set infos" and "pi_phdr info = Some hs"
  shows "read_targets mem (pi_base info) hs offsets \<noteq> Fault"
    and "read_targets mem (pi_base info) hs offsets = Got ts \<Longrightarrow>
      map rw_slot ts = map (\<lambda>x. pi_base info + of_nat x) offsets \<and> list_all (target_read mem infos) ts"
proof -
  have small: "8 < (2 :: nat) ^ 64" by simp
  note safe = mapped_bytes_safe [OF assms small]
  show "read_targets mem (pi_base info) hs offsets \<noteq> Fault"
    by (induction offsets) (simp_all add: access_bind_Fault safe(1))
  show "read_targets mem (pi_base info) hs offsets = Got ts \<Longrightarrow>
      map rw_slot ts = map (\<lambda>x. pi_base info + of_nat x) offsets \<and> list_all (target_read mem infos) ts"
  proof (induction offsets arbitrary: ts)
    case Nil
    then show ?case by simp
  next
    case (Cons off offsets)
    from Cons.prems obtain slot v ts' where
      slot: "checked_add_word (pi_base info) (of_nat off) = Some slot" and
      v: "mapped_bytes mem slot 8 (pi_base info) hs 8 = Got v" "length v = 8" and
      ts': "read_targets mem (pi_base info) hs offsets = Got ts'"
        "ts = \<lparr>rw_slot = slot, rw_value = of_nat (le_nat v)\<rparr> # ts'"
      by (auto simp: access_bind_Got split: if_splits)
    from safe(2) [OF v(1)] v(2) have "target_read mem infos \<lparr>rw_slot = slot, rw_value = of_nat (le_nat v)\<rparr>"
      by (auto simp: target_read_def)
    with Cons.IH [OF ts'(1)] ts'(2) slot show ?case by (simp add: checked_add_word_Some)
  qed
qed

text \<open>
  The contract that both readers meet: they select a listed image, they place its relocations, and
  they read it in the same steps.
\<close>

locale image_reader =
  fixes select :: "phdr_info list \<Rightarrow> phdr_info option"
    and place :: "phdr_info \<Rightarrow> dynamic_table \<Rightarrow> u64 option"
    and read :: "arch \<Rightarrow> memory \<Rightarrow> phdr_info list \<Rightarrow> raw_targets access"
  assumes select_listed: "select infos = Some info \<Longrightarrow> info \<in> set infos"
    and read_steps: "read arch mem infos =
     access_bind (or_absent (select infos)) (\<lambda>image.
     access_bind (or_absent (pi_phdr image)) (\<lambda>headers.
     access_bind (segment_bytes mem (pi_base image) headers PT_DYNAMIC MAX_DYNAMIC_BYTES) (\<lambda>dynamic.
     access_bind (or_absent (read_dynamic_table dynamic)) (\<lambda>table.
     access_bind (or_absent (place image table)) (\<lambda>address.
     access_bind (mapped_bytes mem address (dt_jump_relocation_bytes table)
        (pi_base image) headers MAX_RELOCATION_BYTES) (\<lambda>relocations.
     access_bind (or_absent (jump_slots relocations (JUMP_SLOT arch) (max_targets + 1))) (\<lambda>slots.
     access_bind (read_targets mem (pi_base image) headers (js_offsets slots)) (\<lambda>targets.
       Got \<lparr>rw_targets = targets, rw_bound = dt_bound table\<rparr>))))))))"
begin

lemma limits: "MAX_DYNAMIC_BYTES < 2 ^ 64" "MAX_RELOCATION_BYTES < 2 ^ 64"
  by (simp_all add: elf_consts)

lemma read_no_fault:
  assumes "images_mapped mem infos"
  shows "read arch mem infos \<noteq> Fault"
  using segment_bytes_safe [OF assms select_listed _ limits(1)]
    mapped_bytes_safe(1) [OF assms select_listed _ limits(2)] read_targets_safe(1) [OF assms select_listed]
  by (auto simp: read_steps access_bind_Fault)

lemma read_targets_within:
  assumes "images_mapped mem infos" and "read arch mem infos = Got raw"
  shows "length (rw_targets raw) \<le> max_targets + 1 \<and> list_all (target_read mem infos) (rw_targets raw)
    \<and> (\<exists>image slots. select infos = Some image
        \<and> map rw_slot (rw_targets raw) = map (\<lambda>x. pi_base image + of_nat x) slots)"
proof -
  from assms(2) obtain image headers relocations slots where
    i: "select infos = Some image" "pi_phdr image = Some headers" and
    j: "jump_slots relocations (JUMP_SLOT arch) (max_targets + 1) = Some slots" and
    t: "read_targets mem (pi_base image) headers (js_offsets slots) = Got (rw_targets raw)"
    by (fastforce simp: read_steps access_bind_Got)
  from read_targets_safe(2) [OF assms(1) select_listed [OF i(1)] i(2) t]
  have r: "map rw_slot (rw_targets raw) = map (\<lambda>x. pi_base image + of_nat x) (js_offsets slots)"
    "list_all (target_read mem infos) (rw_targets raw)" by auto
  from j have "length (js_offsets slots) \<le> max_targets + 1" by (rule jump_slots_limit)
  with r i(1) show ?thesis by (metis length_map)
qed

end

lemma iterate_main_listed:
  "iterate take_main_image infos None = Some info \<Longrightarrow> info \<in> set infos"
  by (induction infos) (auto simp: take_main_image_def split: option.splits list.splits if_splits)

lemma find_own_image_Some:
  "find_own_image anchor infos = Some info \<Longrightarrow>
     info \<in> set infos \<and> (\<exists>hs. pi_phdr info = Some hs \<and> holds anchor (pi_base info) hs)"
  unfolding find_own_image_def
  by (induction infos) (auto simp: take_own_image_def split: option.splits if_splits)

interpretation main_image: image_reader "\<lambda>infos. iterate take_main_image infos None"
  "\<lambda>image table. Some (of_nat (dt_jump_relocations table))" linux_dispatch_read
  by unfold_locales (simp_all add: iterate_main_listed linux_dispatch_read_def or_absent_def)

interpretation own_image: image_reader "find_own_image anchor"
  "\<lambda>image table. checked_add_word (pi_base image) (of_nat (dt_jump_relocations table))"
  "\<lambda>arch. android_dispatch_read arch anchor" for anchor
  by unfold_locales (simp_all add: find_own_image_Some android_dispatch_read_def)

section \<open>Properties\<close>

text \<open>
  C31.  No dispatch read leaves the loaded images.  When every loadable segment that the loader lists
  is mapped and none begins at the null address, neither reader makes a slice outside the memory;
  each target that it returns is the word at an address whose eight bytes lie in one listed
  segment, and there are at most one more than the limit of targets.  The Android reader takes its
  table from an image that holds the anchor.
\<close>

theorem dispatch_read_safe:
  assumes "images_mapped mem infos"
  shows "linux_dispatch_read arch mem infos \<noteq> Fault
    \<and> android_dispatch_read arch anchor mem infos \<noteq> Fault
    \<and> (linux_dispatch_read arch mem infos = Got raw \<or> android_dispatch_read arch anchor mem infos = Got raw \<longrightarrow>
        length (rw_targets raw) \<le> max_targets + 1 \<and> list_all (target_read mem infos) (rw_targets raw))
    \<and> (android_dispatch_read arch anchor mem infos = Got raw \<longrightarrow>
        (\<exists>info \<in> set infos. \<exists>hs. pi_phdr info = Some hs \<and> holds anchor (pi_base info) hs))"
  using main_image.read_no_fault [OF assms, of arch] own_image.read_no_fault [OF assms, of arch anchor]
    main_image.read_targets_within [OF assms, of arch raw] own_image.read_targets_within [OF assms, of arch anchor raw]
  by (auto dest: find_own_image_Some)

definition sample_image :: bytes where
  "sample_image = [23, 0, 0, 0, 0, 0, 0, 0, 64, 0, 0, 0, 0, 0, 0, 0,
     2, 0, 0, 0, 0, 0, 0, 0, 24, 0, 0, 0, 0, 0, 0, 0,
     20, 0, 0, 0, 0, 0, 0, 0, 7, 0, 0, 0, 0, 0, 0, 0,
     0, 0, 0, 0, 0, 0, 0, 0, 0, 0, 0, 0, 0, 0, 0, 0,
     88, 0, 0, 0, 0, 0, 0, 0, 7, 0, 0, 0, 0, 0, 0, 0,
     0, 0, 0, 0, 0, 0, 0, 0, 171, 0, 0, 0, 0, 0, 0, 0]"

definition sample_memory :: memory where
  "sample_memory a = (if 4096 \<le> a \<and> a < 4192 then Some (sample_image ! unat (a - 4096)) else None)"

definition sample_infos :: "phdr_info list" where
  "sample_infos = [\<lparr>pi_base = 4096, pi_name = None,
     pi_phdr = Some [\<lparr>ph_kind = 1, ph_vaddr = 0, ph_memsz = 96, ph_align = 4096\<rparr>,
                     \<lparr>ph_kind = 2, ph_vaddr = 0, ph_memsz = 64, ph_align = 8\<rparr>]\<rparr>]"

lemma sample_mapped: "images_mapped sample_memory sample_infos"
  by (auto simp: images_mapped_def loaded_def sample_infos_def sample_memory_def segment_range_def
      checked_add_word_def PT_LOAD_def bind_eq_Some_conv)

lemma sample_loaded: "loaded sample_infos 4096 4192"
  unfolding loaded_def
  by (intro bexI [of _ "hd sample_infos"] exI [of _ "the (pi_phdr (hd sample_infos))"]
      exI [of _ "hd (the (pi_phdr (hd sample_infos)))"])
    (simp_all add: sample_infos_def segment_range_def checked_add_word_def PT_LOAD_def)

lemmas sample_eval = read_le_eval usize_bound_def checked_add_def upt_rec elf_consts step_by_def
  elf_read_i64_def DT_NULL_def DT_PLTRELSZ_def DT_PLTREL_def DT_JMPREL_def DT_BIND_NOW_def DT_FLAGS_def
  DT_FLAGS_1_def DT_RELA_def dynamic_entry_def dynamic_start_def dynamic_finish_def

lemma sample_slice:
  assumes "k + n \<le> 96"
  shows "slice sample_memory (4096 + of_nat k) n = Got (take n (drop k sample_image))"
proof -
  have k: "unat (4096 + of_nat k :: u64) = 4096 + k" using assms by (simp add: unat_word_ariths unat_of_nat)
  note l = sample_loaded
  have "4096 \<le> (4096 + of_nat k :: u64)" "unat (4096 + of_nat k :: u64) + n \<le> unat (4192 :: u64)"
    using assms k by (simp_all add: word_le_nat_alt)
  from slice_within [OF sample_mapped l this] obtain bs where
    bs: "slice sample_memory (4096 + of_nat k) n = Got bs" "length bs = n"
      "loaded_bytes sample_memory sample_infos (4096 + of_nat k) bs" by blast
  have len: "length sample_image = 96" by (simp add: sample_image_def)
  have "bs ! i = sample_image ! (k + i)" if "i < n" for i
  proof -
    have e: "4096 + of_nat k + of_nat i = (4096 + of_nat (k + i) :: u64)" by simp
    have "unat (of_nat (k + i) :: u64) = k + i" using that assms by (simp add: unat_of_nat del: of_nat_add)
    moreover have "sample_memory (4096 + of_nat (k + i)) = Some (bs ! i)"
      using bs(2,3) that unfolding loaded_bytes_def e [symmetric] by blast
    ultimately show ?thesis by (simp add: sample_memory_def del: of_nat_add split: if_splits)
  qed
  then have "bs = take n (drop k sample_image)"
    using assms bs(2) len by (intro nth_equalityI) simp_all
  with bs(1) show ?thesis by simp
qed

theorem dispatch_read_safe_witness:
  "images_mapped sample_memory sample_infos
   \<and> android_dispatch_read X86_64 4100 sample_memory sample_infos
       = Got \<lparr>rw_targets = [\<lparr>rw_slot = 4184, rw_value = 171\<rparr>], rw_bound = False\<rparr>
   \<and> target_read sample_memory sample_infos \<lparr>rw_slot = 4184, rw_value = 171\<rparr>"
proof -
  have r: "android_dispatch_read X86_64 4100 sample_memory sample_infos
       = Got \<lparr>rw_targets = [\<lparr>rw_slot = 4184, rw_value = 171\<rparr>], rw_bound = False\<rparr>"
  proof -
    have "find_own_image 4100 sample_infos = Some (hd sample_infos)"
      by (simp add: find_own_image_def take_own_image_def sample_infos_def holds_def segment_range_def
          checked_add_word_def PT_LOAD_def)
    moreover have "segment_bytes sample_memory 4096 (the (pi_phdr (hd sample_infos))) PT_DYNAMIC MAX_DYNAMIC_BYTES
        = Got (take 64 sample_image)"
      using sample_slice [of 0 64]
      by (simp add: segment_bytes_def sample_infos_def PT_DYNAMIC_def PT_LOAD_def checked_add_word_def
          mapped_bytes_def or_absent_def segment_range_def elf_consts)
    moreover have "read_dynamic_table (take 64 sample_image)
        = Some \<lparr>dt_jump_relocations = 64, dt_jump_relocation_bytes = 24, dt_bound = False\<rparr>"
      by (simp add: sample_image_def read_dynamic_table_def sample_eval)
    moreover have "jump_slots (take 24 (drop 64 sample_image)) 7 (max_targets + 1)
        = Some \<lparr>js_offsets = [88], js_truncated = False\<rparr>"
      by (simp add: sample_image_def jump_slots_def sample_eval low_word max_targets_def)
    ultimately show ?thesis
      using sample_slice [of 64 24] sample_slice [of 88 8]
      by (simp add: android_dispatch_read_def or_absent_def sample_infos_def PT_LOAD_def checked_add_word_def
          mapped_bytes_def segment_range_def elf_consts sample_image_def)
  qed
  with sample_mapped dispatch_read_safe [OF sample_mapped, of X86_64 4100 "\<lparr>rw_targets = [\<lparr>rw_slot = 4184, rw_value = 171\<rparr>], rw_bound = False\<rparr>"]
  show ?thesis by simp
qed

text \<open>
  C32.  The loader catalog in closed form.  The catalog is refused when an image has no header, when a
  segment overflows the address space or states an alignment that is no power of two, or when there
  are more segments than the bound; it is refused as empty when there is no segment; otherwise it is
  the aligned range of each loadable segment, in order.  Then each loaded segment lies inside one
  range, so an executable mapping inside a loaded segment is always accounted for.
\<close>

theorem catalog_read_exact:
  "catalog_read infos = (case those (map image_ranges infos) of
     None \<Rightarrow> Inl catalog_invalid
   | Some rss \<Rightarrow> if max_regions < length (concat rss) then Inl catalog_invalid
       else if concat rss = [] then Inl catalog_empty else Inr (concat rss))
   \<and> (catalog_read infos = Inr ranges \<and> loaded infos low high \<longrightarrow> (\<exists>(s, e) \<in> set ranges. s \<le> low \<and> high \<le> e))"
  using catalog_read_closed [of infos] catalog_read_covers [of infos ranges low high] by blast

theorem catalog_read_exact_witness:
  "catalog_read sample_infos = Inr [(4096, 8192)] \<and> loaded sample_infos 4096 4192
   \<and> (\<exists>(s, e) \<in> set [(4096, 8192) :: u64 \<times> u64]. s \<le> 4096 \<and> 4192 \<le> e)"
proof -
  have "is_power_of_two 4096" by (auto simp: is_power_of_two_def list_ex_iff intro: bexI [of _ 12])
  then have "aligned 4096 4192 4096 = Some (4096, 8192)"
    by (simp add: aligned_def checked_sub_word_def checked_add_word_def word_le_nat_alt)
  then have r: "catalog_read sample_infos = Inr [(4096, 8192)]"
    by (simp add: catalog_read_def sample_infos_def take_ranges_def PT_LOAD_def checked_add_word_def max_regions_def)
  note l = sample_loaded
  have "\<exists>(s, e) \<in> set [(4096, 8192) :: u64 \<times> u64]. s \<le> 4096 \<and> 4192 \<le> e"
    by (rule catalog_read_exact [of sample_infos "[(4096, 8192)]" 4096 4192, THEN conjunct2, THEN mp]) (rule conjI [OF r l])
  then show ?thesis by (intro conjI r l)
qed

end
