(* ===== verification/Fid_Procfs.thy ===== *)
theory Fid_Procfs
  imports Fid_Text
begin

text \<open>
  The readers of the two process files (\<open>fidelity-formats/src/procfs/maps.rs\<close>, \<open>status.rs\<close>):
  the mapping table with the counts that two detectors report, the search for the installed
  archive, and the tracer field.  The lemmas give the reading of a line the way the kernel writes
  it, and closed forms of the saturating counts.
\<close>

section \<open>Mappings\<close>

datatype origin = File string | Deleted string | Anonymous | Named string

record mapping_entry =
  mp_start :: u64
  mp_end :: u64
  mp_writable :: bool
  mp_origin :: origin

definition mapping_bytes :: "mapping_entry \<Rightarrow> u64" where
  "mapping_bytes m = saturating_sub (mp_end m) (mp_start m)"

definition DELETED :: string where
  "DELETED = '' (deleted)''"

definition mapping_origin :: "string \<Rightarrow> origin" where
  "mapping_origin path =
     (if path = [] then Anonymous
      else case strip_suffix path DELETED of
        Some name \<Rightarrow> Deleted name
      | None \<Rightarrow> if starts_with path ''['' then Named path else File path)"

text \<open>Everything from the first place where the sixth field occurs.\<close>

definition from_sixth :: "string \<Rightarrow> string \<Rightarrow> string option" where
  "from_sixth line sixth = map_option (\<lambda>at. trim_end (drop at line)) (find_str line sixth)"

definition parse_u64_hex :: "string \<Rightarrow> u64 option" where
  "parse_u64_hex s = map_option of_nat (from_str_radix 64 16 s)"

definition mapping_line :: "string \<Rightarrow> mapping_entry option" where
  "mapping_line line = (case split_whitespace line of
       addrs # perms # _ # _ # _ # others \<Rightarrow>
         if CHR ''x'' \<notin> set perms then None
         else Option.bind (split_once addrs ''-'') (\<lambda>(s, e).
              Option.bind (parse_u64_hex s) (\<lambda>start.
              Option.bind (parse_u64_hex e) (\<lambda>final.
              let rest = (case others of
                            [] \<Rightarrow> []
                          | first # _ \<Rightarrow> (case from_sixth line first of Some r \<Rightarrow> r | None \<Rightarrow> []))
              in Some \<lparr>mp_start = start, mp_end = final, mp_writable = (CHR ''w'' \<in> set perms),
                       mp_origin = mapping_origin rest\<rparr>)))
     | _ \<Rightarrow> None)"

definition executable_mappings :: "string \<Rightarrow> mapping_entry list" where
  "executable_mappings text = List.map_filter mapping_line (lines text)"

definition executable_ranges :: "string \<Rightarrow> (u64 \<times> u64) list" where
  "executable_ranges text = map (\<lambda>m. (mp_start m, mp_end m)) (executable_mappings text)"

section \<open>Counts\<close>

text \<open>\<open>Unaccounted\<close> and \<open>CatalogGap\<close> have the same two fields.\<close>

record region_count =
  rc_regions :: u32
  rc_bytes :: u64

definition region_default :: region_count where
  "region_default = \<lparr>rc_regions = 0, rc_bytes = 0\<rparr>"

definition region_is_empty :: "region_count \<Rightarrow> bool" where
  "region_is_empty c \<longleftrightarrow> rc_regions c = 0"

definition count_region :: "region_count \<Rightarrow> mapping_entry \<Rightarrow> region_count" where
  "count_region c m = \<lparr>rc_regions = saturating_add (rc_regions c) 1,
     rc_bytes = saturating_add (rc_bytes c) (mapping_bytes m)\<rparr>"

definition has_no_file :: "mapping_entry \<Rightarrow> bool" where
  "has_no_file m = (case mp_origin m of Anonymous \<Rightarrow> True | Deleted _ \<Rightarrow> True | _ \<Rightarrow> False)"

definition unaccounted :: "string \<Rightarrow> region_count" where
  "unaccounted text =
     foldl (\<lambda>found m. if \<not> has_no_file m then found else count_region found m)
       region_default (executable_mappings text)"

definition is_file_mapping :: "mapping_entry \<Rightarrow> bool" where
  "is_file_mapping m = (case mp_origin m of File _ \<Rightarrow> True | Deleted _ \<Rightarrow> True | _ \<Rightarrow> False)"

definition loader_accounts :: "(u64 \<times> u64) list \<Rightarrow> mapping_entry \<Rightarrow> bool" where
  "loader_accounts ranges m = list_ex (\<lambda>(s, e). s \<le> mp_start m \<and> mp_end m \<le> e) ranges"

definition outside_loader :: "string \<Rightarrow> (u64 \<times> u64) list \<Rightarrow> region_count" where
  "outside_loader text ranges =
     foldl (\<lambda>found m. if \<not> is_file_mapping m then found
                      else if loader_accounts ranges m then found else count_region found m)
       region_default (executable_mappings text)"

section \<open>The installed archive\<close>

definition INSTALLED :: string where
  "INSTALLED = ''/data/app/''"

definition ARCHIVE :: string where
  "ARCHIVE = ''.apk''"

definition path_of :: "string \<Rightarrow> string option" where
  "path_of line = (let fields = split_whitespace line in
     if length fields < 6 then None
     else Option.bind (from_sixth line (fields ! 5)) (\<lambda>path.
       if path = [] \<or> starts_with path ''['' \<or> ends_with path DELETED then None else Some path))"

definition names_package :: "string \<Rightarrow> string \<Rightarrow> bool" where
  "names_package path package =
     list_ex (\<lambda>component. case strip_prefix component package of
                Some rest \<Rightarrow> starts_with rest ''-'' | None \<Rightarrow> False)
       (split_char (CHR ''/'') path)"

fun find_map :: "('a \<Rightarrow> 'b option) \<Rightarrow> 'a list \<Rightarrow> 'b option" where
  "find_map f [] = None"
| "find_map f (x # xs) = (case f x of Some y \<Rightarrow> Some y | None \<Rightarrow> find_map f xs)"

definition package_archive :: "string \<Rightarrow> string \<Rightarrow> string option" where
  "package_archive text package =
     (if package = [] then None
      else find_map (\<lambda>line. Option.bind (path_of line) (\<lambda>path.
             if starts_with path INSTALLED \<and> ends_with path ARCHIVE \<and> names_package path package
             then Some path else None)) (lines text))"

definition str_get :: "string \<Rightarrow> nat \<Rightarrow> nat \<Rightarrow> string option" where
  "str_get s a b = (if is_char_boundary s a \<and> is_char_boundary s b then slice_range s a b else None)"

definition install_root :: "string \<Rightarrow> string option" where
  "install_root path =
     Option.bind (strip_prefix path INSTALLED) (\<lambda>rest.
     Option.bind (find_str rest ''/'') (\<lambda>first.
     Option.bind (checked_add first 1) (\<lambda>after_first.
     Option.bind (str_get rest after_first (length rest)) (\<lambda>tail.
     Option.bind (find_str tail ''/'') (\<lambda>second.
     Option.bind (checked_add (length INSTALLED) after_first) (\<lambda>e1.
     Option.bind (checked_add e1 second) (\<lambda>e2.
     Option.bind (checked_add e2 1) (\<lambda>e. str_get path 0 e))))))))"

definition inside_archive :: "string \<Rightarrow> string option" where
  "inside_archive path =
     Option.bind (find_str path ''.apk!'') (\<lambda>at.
     Option.bind (checked_add at 4) (\<lambda>e. str_get path 0 e))"

definition package_archive_for_image :: "string \<Rightarrow> string \<Rightarrow> string option" where
  "package_archive_for_image text img =
     (if find_str img ''.apk!'' \<noteq> None then inside_archive img
      else Option.bind (install_root img) (\<lambda>root.
        find_map (\<lambda>line. Option.bind (path_of line) (\<lambda>path.
          if starts_with path root \<and> ends_with path ARCHIVE then Some path
          else if starts_with path root then inside_archive path
          else None)) (lines text)))"

section \<open>Status\<close>

definition TRACER_FIELD :: string where
  "TRACER_FIELD = ''TracerPid:''"

datatype tracer_pid = TracerAbsent | TracerPresent u32

definition read_tracer_pid :: "string \<Rightarrow> tracer_pid option" where
  "read_tracer_pid text =
     Option.bind (find_map (\<lambda>line. strip_prefix line TRACER_FIELD) (lines text)) (\<lambda>field.
       (case from_str_radix 32 10 (trim field) of
          None \<Rightarrow> None
        | Some n \<Rightarrow> if n = 0 then Some TracerAbsent else Some (TracerPresent (of_nat n))))"

section \<open>Lemmas: splitting a line\<close>

lemma split_ws_skip: "is_whitespace c \<Longrightarrow> split_ws_chars (c # cs) = split_ws_chars cs"
  by (subst (1 2) split_ws_chars.simps) simp

lemma split_ws_skips:
  "list_all is_whitespace ws \<Longrightarrow> split_ws_chars (ws @ cs) = split_ws_chars cs"
  by (induction ws) (simp_all add: split_ws_skip)

lemma split_ws_word:
  assumes "w \<noteq> []" and "list_all (\<lambda>c. \<not> is_whitespace c) w" and "rest = [] \<or> is_whitespace (hd rest)"
  shows "split_ws_chars (w @ rest) = concat w # split_ws_chars rest"
proof -
  obtain d ds where w: "w = d # ds" using assms(1) by (cases w) auto
  with assms(2) have "dropWhile is_whitespace (w @ rest) = d # ds @ rest" by simp
  moreover have "takeWhile (\<lambda>c. \<not> is_whitespace c) (ds @ rest) = ds"
    and "dropWhile (\<lambda>c. \<not> is_whitespace c) (ds @ rest) = rest"
    using assms(2,3) w by (cases rest; auto simp: list_all_iff)+
  ultimately show ?thesis by (subst split_ws_chars.simps) (simp add: w)
qed

lemma chars_append_ascii:
  "list_all is_ascii a \<Longrightarrow> s = [] \<or> \<not> is_cont (hd s) \<Longrightarrow> chars (a @ s) = map (\<lambda>c. [c]) a @ chars s"
proof (induction a)
  case (Cons c a)
  have "\<not> is_cont (hd (a @ s))" if "a @ s \<noteq> []" using Cons.prems that by (cases a) auto
  then have "takeWhile is_cont (a @ s) = []" "dropWhile is_cont (a @ s) = a @ s"
    by (cases "a @ s"; simp)+
  with Cons show ?case by simp
qed simp

text \<open>A word of a line: ASCII, not empty, no white space, no slash and no opening bracket.\<close>

definition word_char :: "char \<Rightarrow> bool" where
  "word_char c \<longleftrightarrow> 0x20 < code c \<and> code c < 0x7F \<and> code c \<noteq> 0x2F \<and> code c \<noteq> 0x5B"

definition line_word :: "string \<Rightarrow> bool" where
  "line_word w \<longleftrightarrow> w \<noteq> [] \<and> list_all word_char w"

definition kernel_fields :: "string list \<Rightarrow> string" where
  "kernel_fields ws = concat (map (\<lambda>w. w @ '' '') ws)"

lemma printable_word:
  assumes "line_word w"
  shows "list_all is_ascii w" and "map (\<lambda>c. [c]) w \<noteq> []"
    and "list_all (\<lambda>c. \<not> is_whitespace c) (map (\<lambda>c. [c]) w)"
  using assms by (auto simp: line_word_def list_all_iff is_ascii_def is_whitespace_def word_char_def)

lemma split_ws_fields:
  assumes "\<forall>w \<in> set ws. line_word w"
    and "s = [] \<or> \<not> is_cont (hd s)"
  shows "split_whitespace (kernel_fields ws @ replicate n (CHR '' '') @ s) = ws @ split_ws_chars (chars s)"
  using assms(1)
proof (induction ws)
  case Nil
  have "list_all is_ascii (replicate n (CHR '' ''))" by (simp add: list_all_iff is_ascii_def)
  then have "chars (replicate n (CHR '' '') @ s) = replicate n '' '' @ chars s"
    using assms(2) by (simp add: chars_append_ascii)
  moreover have "list_all is_whitespace (replicate n '' '')" by (simp add: list_all_iff is_whitespace_def)
  ultimately show ?case by (simp add: kernel_fields_def split_whitespace_def split_ws_skips)
next
  case (Cons w ws)
  let ?r = "kernel_fields ws @ replicate n (CHR '' '') @ s"
  have nc: "?r = [] \<or> \<not> is_cont (hd ?r)"
  proof -
    have "\<not> is_cont (hd w')" if "w' \<in> set ws" for w'
      using Cons.prems that by (cases w') (auto simp: is_cont_def line_word_def word_char_def)
    then show ?thesis using assms(2) Cons.prems
      by (cases ws; cases n) (auto simp: kernel_fields_def is_cont_def hd_append line_word_def)
  qed
  have "list_all is_ascii (w @ '' '')" using Cons.prems printable_word(1) [of w] by (simp add: is_ascii_def)
  then have "chars ((w @ '' '') @ ?r) = map (\<lambda>c. [c]) (w @ '' '') @ chars ?r"
    using nc by (rule chars_append_ascii)
  then have "split_ws_chars (chars ((w @ '' '') @ ?r)) =
      concat (map (\<lambda>c. [c]) w) # split_ws_chars ('' '' # chars ?r)"
    using split_ws_word [OF printable_word(2,3), of w "'' '' # chars ?r"] Cons.prems
    by (simp add: is_whitespace_def)
  moreover have "split_ws_chars ('' '' # chars ?r) = split_ws_chars (chars ?r)"
    by (rule split_ws_skip) (simp add: is_whitespace_def)
  ultimately show ?case
    using Cons by (simp add: kernel_fields_def split_whitespace_def)
qed

lemma split_ws_first:
  assumes "p \<noteq> []" and "\<not> is_whitespace (hd (chars p))"
  shows "\<exists>first others r. split_ws_chars (chars p) = first # others \<and> p = first @ r \<and> hd first = hd p \<and> first \<noteq> []"
proof -
  obtain c s where p: "p = c # s" using assms(1) by (cases p) auto
  obtain d ds where cs: "chars p = d # ds" "hd d = c" "d \<noteq> []" by (simp add: p)
  let ?t = "takeWhile (\<lambda>c. \<not> is_whitespace c) ds" and ?u = "dropWhile (\<lambda>c. \<not> is_whitespace c) ds"
  have "split_ws_chars (chars p) = concat (d # ?t) # split_ws_chars ?u"
    using assms(2) cs by (subst split_ws_chars.simps) simp
  moreover have "p = concat (d # ?t) @ concat ?u"
    using concat_chars [of p] cs by (metis append_Cons concat_append takeWhile_dropWhile_id)
  ultimately show ?thesis using cs p by (auto simp: hd_append)
qed

text \<open>The sixth field is found where the path starts, because no earlier field holds its first character.\<close>

lemma from_sixth_path:
  assumes "first \<noteq> []" and "hd first \<notin> set a"
  shows "from_sixth (a @ first @ r) first = Some (trim_end (first @ r))"
proof -
  have "find_str (a @ first @ r) first = Some (length a)"
  proof (rule find_str_append)
    fix j assume j: "j < length a"
    then have "drop j (a @ first @ r) = a ! j # drop (Suc j) (a @ first @ r)"
      by (metis Cons_nth_drop_Suc length_append nth_append trans_less_add1)
    moreover have "a ! j \<noteq> hd first" using j assms(2) nth_mem by fastforce
    ultimately show "\<not> starts_with (drop j (a @ first @ r)) first"
      using assms(1) by (cases first) (auto simp: starts_with_def)
  qed
  then show ?thesis by (simp add: from_sixth_def)
qed

lemma code_digit_char: "d < 36 \<Longrightarrow> code (digit_char d) = (if d < 10 then 0x30 + d else 0x57 + d)"
  by (simp add: digit_char_def)

lemma hex_word: "c \<in> set (to_radix 16 n) \<Longrightarrow> word_char c \<and> code c \<noteq> 0x2D"
proof -
  assume "c \<in> set (to_radix 16 n)"
  then obtain d where "d < 16" "c = digit_char d" using to_radix_digits [of 16] by auto
  then show ?thesis by (simp add: word_char_def code_digit_char)
qed

text \<open>
  A line as the kernel writes it: an address has at least eight digits, with zeros in front, and
  spaces stand before the path.
\<close>

definition kernel_hex :: "u64 \<Rightarrow> string" where
  "kernel_hex a = (let digits = to_radix 16 (unat a) in replicate (8 - length digits) CHR ''0'' @ digits)"

definition address_field :: "u64 \<Rightarrow> u64 \<Rightarrow> string" where
  "address_field s e = kernel_hex s @ ''-'' @ kernel_hex e"

lemma kernel_hex_word: "c \<in> set (kernel_hex a) \<Longrightarrow> word_char c \<and> code c \<noteq> 0x2D"
  using hex_word by (auto simp: kernel_hex_def Let_def word_char_def)

lemma parse_kernel_hex: "from_str_radix 64 16 (kernel_hex a) = Some (unat a)"
proof -
  have zeros: "digits_val 16 (replicate k CHR ''0'' @ t) 0 = digits_val 16 t 0" for k t
    by (induction k) (simp_all add: digit_val_def)
  have v: "digits_val 16 (kernel_hex a) 0 = Some (unat a)"
    by (simp add: kernel_hex_def Let_def zeros digits_val_to_radix)
  moreover have "kernel_hex a \<noteq> []" by (simp add: kernel_hex_def Let_def)
  then obtain c t where "kernel_hex a = c # t" by (cases "kernel_hex a") auto
  moreover from this v have "c \<noteq> CHR ''+''" by (auto simp: digit_val_def)
  ultimately show ?thesis
    using unsigned_less [of a] by (simp add: from_str_radix_def)
qed

definition kernel_line :: "u64 \<Rightarrow> u64 \<Rightarrow> string \<Rightarrow> string \<Rightarrow> string \<Rightarrow> string \<Rightarrow> nat \<Rightarrow> string \<Rightarrow> string" where
  "kernel_line s e perms offset device inode n path =
     kernel_fields [address_field s e, perms, offset, device, inode] @ replicate n (CHR '' '') @ path"

definition path_field :: "string \<Rightarrow> bool" where
  "path_field path \<longleftrightarrow> path = [] \<or> (code (hd path) \<in> {0x2F, 0x5B} \<and> trim_end path = path)"

lemma line_word_address: "line_word (address_field s e)"
  using kernel_hex_word by (auto simp: line_word_def address_field_def list_all_iff word_char_def)

lemma split_address: "split_once (address_field s e) ''-'' = Some (kernel_hex s, kernel_hex e)"
proof -
  have "CHR ''-'' \<notin> set (kernel_hex s)" using kernel_hex_word [of "CHR ''-''"] by auto
  then show ?thesis by (simp add: address_field_def split_once_char)
qed

lemma kernel_line_split:
  assumes "\<forall>w \<in> {perms, offset, device, inode}. line_word w" and "path_field path"
  shows "split_whitespace (kernel_line s e perms offset device inode n path) =
    [address_field s e, perms, offset, device, inode] @ split_ws_chars (chars path)"
proof -
  have "path = [] \<or> \<not> is_cont (hd path)"
    using assms(2) by (auto simp: path_field_def is_cont_def)
  then show ?thesis
    unfolding kernel_line_def using assms(1) line_word_address by (intro split_ws_fields) auto
qed

lemma kernel_line_rest:
  assumes "\<forall>w \<in> {perms, offset, device, inode}. line_word w" and "path_field path" and "path \<noteq> []"
  shows "\<exists>first others. split_ws_chars (chars path) = first # others
    \<and> from_sixth (kernel_line s e perms offset device inode n path) first = Some path"
proof -
  have h: "code (hd path) \<in> {0x2F, 0x5B}" and t: "trim_end path = path"
    using assms(2,3) by (auto simp: path_field_def)
  obtain c p where p: "path = c # p" using assms(3) by (cases path) auto
  then have "hd (chars path) = c # takeWhile is_cont p" by simp
  then have "\<not> is_whitespace (hd (chars path))"
    using h p by (auto simp: is_whitespace_def split: list.splits)
  then obtain first others r where f: "split_ws_chars (chars path) = first # others" "path = first @ r"
      "hd first = hd path" "first \<noteq> []"
    using split_ws_first [OF assms(3)] by blast
  let ?a = "kernel_fields [address_field s e, perms, offset, device, inode] @ replicate n (CHR '' '')"
  have "\<forall>c \<in> set ?a. code c \<notin> {0x2F, 0x5B}"
    using assms(1) line_word_address [of s e] by (auto simp: kernel_fields_def line_word_def list_all_iff word_char_def)
  then have "hd first \<notin> set ?a" using h f(3) by metis
  then have "from_sixth (?a @ first @ r) first = Some path"
    using from_sixth_path [of first ?a r] f(2,4) t by simp
  with f show ?thesis by (auto simp: kernel_line_def)
qed

section \<open>Lemmas: counts\<close>

lemma count_regions_fold:
  "unat (rc_regions (foldl (\<lambda>c m. if P m then count_region c m else c) c ms)) =
     min (unat (rc_regions c) + length (filter P ms)) (2 ^ 32 - 1)
   \<and> unat (rc_bytes (foldl (\<lambda>c m. if P m then count_region c m else c) c ms)) =
     min (unat (rc_bytes c) + sum_list (map (\<lambda>m. unat (mapping_bytes m)) (filter P ms))) (2 ^ 64 - 1)"
proof (induction ms arbitrary: c)
  case Nil
  have "unat (rc_regions c) < 2 ^ 32" "unat (rc_bytes c) < 2 ^ 64"
    using unsigned_less [of "rc_regions c"] unsigned_less [of "rc_bytes c"] by simp_all
  then show ?case by simp
next
  case (Cons m ms)
  have r: "unat (saturating_add (rc_regions c) 1) = min (unat (rc_regions c) + 1) (2 ^ 32 - 1)"
    by (simp add: unat_saturating_add)
  have b: "unat (saturating_add (rc_bytes c) x) = min (unat (rc_bytes c) + unat x) (2 ^ 64 - 1)" for x
    by (simp add: unat_saturating_add)
  show ?case
    using Cons [of c] Cons [of "count_region c m"] by (simp add: count_region_def r b) linarith
qed

lemma find_map_append: "\<forall>x \<in> set xs. f x = None \<Longrightarrow> find_map f (xs @ ys) = find_map f ys"
  by (induction xs) auto

lemma find_map_Some: "find_map f xs = Some y \<longleftrightarrow> (\<exists>pre x post. xs = pre @ x # post \<and> (\<forall>z \<in> set pre. f z = None) \<and> f x = Some y)"
proof
  show "find_map f xs = Some y \<Longrightarrow> \<exists>pre x post. xs = pre @ x # post \<and> (\<forall>z \<in> set pre. f z = None) \<and> f x = Some y"
  proof (induction xs)
    case (Cons x xs)
    show ?case
    proof (cases "f x")
      case None
      with Cons obtain pre z post where "xs = pre @ z # post \<and> (\<forall>z \<in> set pre. f z = None) \<and> f z = Some y" by auto
      with None have "x # xs = (x # pre) @ z # post \<and> (\<forall>z \<in> set (x # pre). f z = None) \<and> f z = Some y" by simp
      then show ?thesis by blast
    next
      case (Some v)
      with Cons.prems have "x # xs = [] @ x # xs \<and> (\<forall>z \<in> set []. f z = None) \<and> f x = Some y" by simp
      then show ?thesis by blast
    qed
  qed simp
qed (auto simp: find_map_append)

lemma trim_digits: "trim (CHR 0x09 # dec n) = dec n"
proof -
  have w: "\<not> is_whitespace [c]" and a: "is_ascii c" if "c \<in> set (dec n)" for c
  proof -
    from that obtain d where "d < 10" "c = digit_char d" using to_radix_digits [of 10] by auto
    then have "code c = 0x30 + d" "d < 10" by (simp_all add: code_digit_char)
    then show "\<not> is_whitespace [c]" "is_ascii c" by (simp_all add: is_whitespace_def is_ascii_def)
  qed
  have tab: "chars (CHR 0x09 # dec n) = [CHR 0x09] # map (\<lambda>c. [c]) (dec n)"
    using a by (subst chars_ascii) (auto simp: list_all_iff is_ascii_def)
  have ds: "chars (dec n) = map (\<lambda>c. [c]) (dec n)" using a by (intro chars_ascii) (auto simp: list_all_iff)
  have none: "dropWhile is_whitespace (map (\<lambda>c. [c]) xs) = map (\<lambda>c. [c]) xs" if "set xs \<subseteq> set (dec n)" for xs
    using that w by (cases xs) auto
  have t: "is_whitespace [CHR 0x09]" by (simp add: is_whitespace_def)
  have "trim_start (CHR 0x09 # dec n) = dec n"
    unfolding trim_start_def tab using none [of "dec n"] t by simp
  moreover have "trim_end (dec n) = dec n"
    unfolding trim_end_def ds rev_map using none [of "rev (dec n)"] by (simp add: rev_map)
  ultimately show ?thesis by (simp add: trim_def)
qed

lemma find_tracer_None:
  "\<forall>l \<in> set ls. \<not> starts_with l ''TracerPid:'' \<Longrightarrow> find_map (\<lambda>line. strip_prefix line TRACER_FIELD) ls = None"
  by (induction ls) (auto simp: TRACER_FIELD_def strip_prefix_def)

section \<open>Properties\<close>

text \<open>
  The tracer field.  When the first line that starts with the field name carries a decimal
  process number below \<open>2 ^ 32\<close>, the reader returns it, and zero reads as no tracer; a text with no
  such line gives no answer.  Lines that only contain the name, or that end in a form of it, take
  no part.
\<close>

lemma tracer_pid_exact:
  "((\<forall>l \<in> set (lines text). \<not> starts_with l ''TracerPid:'') \<longrightarrow> read_tracer_pid text = None)
   \<and> (lines text = pre @ (''TracerPid:'' @ CHR 0x09 # dec n) # post \<and> (\<forall>l \<in> set pre. \<not> starts_with l ''TracerPid:'')
        \<and> n < 2 ^ 32 \<longrightarrow>
      read_tracer_pid text = Some (if n = 0 then TracerAbsent else TracerPresent (of_nat n)))"
proof (intro conjI impI)
  assume "\<forall>l \<in> set (lines text). \<not> starts_with l ''TracerPid:''"
  then show "read_tracer_pid text = None" by (simp add: read_tracer_pid_def find_tracer_None)
next
  assume a: "lines text = pre @ (''TracerPid:'' @ CHR 0x09 # dec n) # post \<and> (\<forall>l \<in> set pre. \<not> starts_with l ''TracerPid:'') \<and> n < 2 ^ 32"
  then have "\<forall>l \<in> set pre. strip_prefix l TRACER_FIELD = None" by (simp add: strip_prefix_def TRACER_FIELD_def)
  moreover have "strip_prefix (''TracerPid:'' @ CHR 0x09 # dec n) TRACER_FIELD = Some (CHR 0x09 # dec n)"
    by (simp only: TRACER_FIELD_def strip_prefix_Some)
  ultimately have "find_map (\<lambda>line. strip_prefix line TRACER_FIELD) (lines text) = Some (CHR 0x09 # dec n)"
    using a by (simp add: find_map_append del: append_Cons)
  moreover have "from_str_radix 32 10 (dec n) = Some n" using a by (intro from_str_radix_to_radix) simp_all
  ultimately show "read_tracer_pid text = Some (if n = 0 then TracerAbsent else TracerPresent (of_nat n))"
    by (simp add: read_tracer_pid_def trim_digits)
qed

text \<open>
  The archive search compares every component of a path with the package, the file name too: an
  archive that only its own file name puts under a package is accepted.
\<close>

lemma archive_file_name_selects:
  "names_package ''/data/app/r/com.other-1/com.host-x.apk'' ''com.host''"
  by code_simp

text \<open>
  C40.  The mapping reader reads what the kernel writes.  For a line made of an address range in
  digits that zeros pad to eight, the four words and a path (empty, or starting with a slash or a bracket and possibly holding spaces),
  the reader keeps exactly the executable mappings, with both addresses, the write flag and the
  origin of the whole path; and the archive search sees the path exactly when a live file backs
  the mapping.
\<close>

theorem mapping_line_exact:
  assumes "\<forall>w \<in> {perms, offset, device, inode}. line_word w" and "path_field path"
  shows "mapping_line (kernel_line s e perms offset device inode n path) =
      (if CHR ''x'' \<in> set perms
       then Some \<lparr>mp_start = s, mp_end = e, mp_writable = (CHR ''w'' \<in> set perms), mp_origin = mapping_origin path\<rparr>
       else None)
    \<and> path_of (kernel_line s e perms offset device inode n path) =
      (case mapping_origin path of File p \<Rightarrow> Some p | _ \<Rightarrow> None)"
proof -
  have u: "parse_u64_hex (kernel_hex a) = Some a" for a :: u64
    by (simp add: parse_u64_hex_def parse_kernel_hex)
  note split = kernel_line_split [OF assms, of s e n]
  show ?thesis
  proof (cases "path = []")
    case True
    then have "split_ws_chars (chars path) = []" by (simp add: split_ws_chars.simps)
    with split have "split_whitespace (kernel_line s e perms offset device inode n path) =
        [address_field s e, perms, offset, device, inode]" by simp
    with True show ?thesis
      by (simp add: mapping_line_def path_of_def split_address u Let_def mapping_origin_def)
  next
    case False
    then obtain first others where f: "split_ws_chars (chars path) = first # others"
        "from_sixth (kernel_line s e perms offset device inode n path) first = Some path"
      using kernel_line_rest [OF assms] by blast
    with split have "split_whitespace (kernel_line s e perms offset device inode n path) =
        [address_field s e, perms, offset, device, inode, first] @ others" by simp
    with False f show ?thesis
      by (simp add: mapping_line_def path_of_def split_address u Let_def mapping_origin_def
          strip_suffix_def)
  qed
qed

theorem mapping_line_exact_witness:
  "mapping_line (kernel_line 0x1000 0x2000 ''r-xp'' ''0'' ''00:5f'' ''7'' 4 ''/tmp/e v.so'') =
     Some \<lparr>mp_start = 0x1000, mp_end = 0x2000, mp_writable = False, mp_origin = File ''/tmp/e v.so''\<rparr>"
proof -
  have "\<forall>w \<in> {''r-xp'', ''0'', ''00:5f'', ''7''}. line_word w"
    by (simp add: line_word_def word_char_def)
  moreover have "path_field ''/tmp/e v.so''"
    by (simp add: path_field_def trim_end_def is_whitespace_def is_cont_def)
  moreover have "mapping_origin ''/tmp/e v.so'' = File ''/tmp/e v.so''" by code_simp
  ultimately show ?thesis using mapping_line_exact [of "''r-xp''" "''0''" "''00:5f''" "''7''" "''/tmp/e v.so''" "0x1000" "0x2000" 4]
    by simp
qed

lemma unaccounted_fold:
  "unaccounted text = foldl (\<lambda>c m. if has_no_file m then count_region c m else c) region_default (executable_mappings text)"
  unfolding unaccounted_def by (rule arg_cong [where f = "\<lambda>f. foldl f _ _"]) (auto simp: fun_eq_iff)

lemma outside_loader_fold:
  "outside_loader text ranges = foldl (\<lambda>c m. if is_file_mapping m \<and> \<not> loader_accounts ranges m then count_region c m else c)
      region_default (executable_mappings text)"
  unfolding outside_loader_def by (rule arg_cong [where f = "\<lambda>f. foldl f _ _"]) (auto simp: fun_eq_iff)

lemma region_count_empty:
  "region_is_empty (foldl (\<lambda>c m. if P m then count_region c m else c) region_default ms) \<longleftrightarrow> filter P ms = []"
  using count_regions_fold [of P region_default ms]
  by (auto simp: region_is_empty_def region_default_def min_def unat_eq_0 [symmetric] split: if_splits)

lemma unaccounted_empty: "region_is_empty (unaccounted text) \<longleftrightarrow> list_all (\<lambda>m. \<not> has_no_file m) (executable_mappings text)"
  by (simp add: unaccounted_fold region_count_empty filter_empty_conv list_all_iff)

lemma outside_loader_empty:
  "region_is_empty (outside_loader text ranges) \<longleftrightarrow>
     list_all (\<lambda>m. is_file_mapping m \<longrightarrow> loader_accounts ranges m) (executable_mappings text)"
  by (auto simp: outside_loader_fold region_count_empty filter_empty_conv list_all_iff)

text \<open>
  The region counts.  The number of regions and of bytes that no file accounts for, and that
  the loader catalog does not account for, are the exact numbers over the executable mappings,
  capped at the largest values of their types: no count wraps.  A count is empty exactly when no
  mapping qualifies.
\<close>

lemma region_counts_exact:
  "unat (rc_regions (unaccounted text)) = min (length (filter has_no_file (executable_mappings text))) (2 ^ 32 - 1)
   \<and> unat (rc_bytes (unaccounted text)) =
       min (\<Sum>m \<leftarrow> filter has_no_file (executable_mappings text). unat (mp_end m) - unat (mp_start m)) (2 ^ 64 - 1)
   \<and> unat (rc_regions (outside_loader text ranges)) =
       min (length (filter (\<lambda>m. is_file_mapping m \<and> \<not> loader_accounts ranges m) (executable_mappings text))) (2 ^ 32 - 1)
   \<and> unat (rc_bytes (outside_loader text ranges)) =
       min (\<Sum>m \<leftarrow> filter (\<lambda>m. is_file_mapping m \<and> \<not> loader_accounts ranges m) (executable_mappings text).
              unat (mp_end m) - unat (mp_start m)) (2 ^ 64 - 1)
   \<and> (region_is_empty (unaccounted text) \<longleftrightarrow> filter has_no_file (executable_mappings text) = [])"
proof -
  have b: "unat (mapping_bytes m) = unat (mp_end m) - unat (mp_start m)" for m
    by (simp add: mapping_bytes_def unat_saturating_sub)
  note c = count_regions_fold [of _ region_default "executable_mappings text"]
  have z: "unat (rc_regions region_default) = 0" "unat (rc_bytes region_default) = 0"
    by (simp_all add: region_default_def)
  show ?thesis
    using c [of has_no_file] c [of "\<lambda>m. is_file_mapping m \<and> \<not> loader_accounts ranges m"]
    by (simp add: unaccounted_fold outside_loader_fold region_count_empty z b)
qed

end
