(* ===== verification/Fid_Smbios.thy ===== *)
theory Fid_Smbios
  imports Fid_Text
begin

text \<open>
  The reader of the firmware identity (\<open>fidelity-formats/src/smbios/system.rs\<close>) and the judgment
  on its two strings (\<open>vendor.rs\<close>).  The two walks of the reader are functions with a termination
  proof.  The round trip reads back the identity of a table written the way the DMTF specification
  lays it out.
\<close>

section \<open>The table\<close>

definition SYSTEM_INFORMATION :: u8 where "SYSTEM_INFORMATION = 1"
definition END_OF_TABLE :: u8 where "END_OF_TABLE = 127"
definition HEADER_BYTES :: nat where "HEADER_BYTES = 4"
definition MANUFACTURER :: nat where "MANUFACTURER = 4"
definition PRODUCT :: nat where "PRODUCT = 5"

record system_info =
  sy_manufacturer :: string
  sy_product :: string

function run_end :: "bytes \<Rightarrow> nat \<Rightarrow> nat option" where
  "run_end table cursor = (case slice_range table cursor (cursor + 2) of
       None \<Rightarrow> None
     | Some pair \<Rightarrow> if pair = [0, 0] then Some (cursor + 2) else run_end table (cursor + 1))"
  by pat_completeness auto
termination
  by (relation "measure (\<lambda>(table, cursor). length table - cursor)") (auto simp: slice_range_Some)

declare run_end.simps [simp del]

text \<open>\<open>split\<close> on a zero byte: always at least one piece.\<close>

fun split_zero :: "bytes \<Rightarrow> bytes list" where
  "split_zero [] = [[]]"
| "split_zero (b # bs) =
     (if b = 0 then [] # split_zero bs
      else (case split_zero bs of p # ps \<Rightarrow> (b # p) # ps | [] \<Rightarrow> [[b]]))"

definition text_of :: "bytes \<Rightarrow> string option" where
  "text_of bs = (let s = map (\<lambda>b. char_of (unat b)) bs in if utf8_valid s then Some s else None)"

definition table_string :: "bytes \<Rightarrow> u8 \<Rightarrow> string option" where
  "table_string strings number =
     (if number = 0 then Some []
      else Option.bind (checked_sub (unat number) 1) (\<lambda>index.
           Option.bind (slice_get (split_zero strings) index) text_of))"

lemma run_end_bounds: "run_end table cursor = Some e \<Longrightarrow> cursor + 2 \<le> e \<and> e \<le> length table"
proof (induction table cursor rule: run_end.induct)
  case (1 table cursor)
  show ?case
  proof (cases "slice_range table cursor (cursor + 2)")
    case None
    with "1.prems" show ?thesis by (simp add: run_end.simps [of table cursor])
  next
    case (Some pair)
    then have "run_end table cursor = (if pair = [0, 0] then Some (cursor + 2) else run_end table (cursor + 1))"
      by (subst run_end.simps) simp
    moreover from Some have "cursor + 2 \<le> length table" by (simp add: slice_range_Some)
    ultimately show ?thesis using "1.prems" "1.IH" [OF Some] by (auto split: if_splits)
  qed
qed

definition identity_strings :: "bytes \<Rightarrow> nat \<Rightarrow> nat \<Rightarrow> nat \<Rightarrow> system_info option" where
  "identity_strings table cursor start fin =
     Option.bind (slice_range table cursor start) (\<lambda>fields.
     Option.bind (slice_range table start (fin - 2)) (\<lambda>strings.
     Option.bind (slice_get fields MANUFACTURER) (\<lambda>m.
     Option.bind (table_string strings m) (\<lambda>manufacturer.
     Option.bind (slice_get fields PRODUCT) (\<lambda>p.
     Option.bind (table_string strings p) (\<lambda>product.
       Some \<lparr>sy_manufacturer = manufacturer, sy_product = product\<rparr>))))))"

function system_walk :: "bytes \<Rightarrow> nat \<Rightarrow> system_info option" where
  "system_walk table cursor = (case slice_range table cursor (cursor + HEADER_BYTES) of
       None \<Rightarrow> None
     | Some header \<Rightarrow>
         let kind = header ! 0; formatted = unat (header ! 1) in
         if kind = END_OF_TABLE \<or> formatted < HEADER_BYTES then None
         else (case checked_add cursor formatted of
                 None \<Rightarrow> None
               | Some start \<Rightarrow>
                   (case run_end table start of
                      None \<Rightarrow> None
                    | Some fin \<Rightarrow>
                        if kind = SYSTEM_INFORMATION then identity_strings table cursor start fin
                        else system_walk table fin)))"
  by pat_completeness auto
termination
proof (relation "measure (\<lambda>(table, cursor). length table - cursor)")
  show "wf (measure (\<lambda>(table :: bytes, cursor). length table - cursor))" by simp
  fix table :: bytes and cursor header x xa start fin
  assume "\<not> (x = END_OF_TABLE \<or> xa < HEADER_BYTES)" and "checked_add cursor xa = Some start"
    and "run_end table start = Some fin"
  then show "((table, fin), table, cursor) \<in> measure (\<lambda>(table, cursor). length table - cursor)"
    using run_end_bounds [of table start fin] by (auto simp: HEADER_BYTES_def)
qed

declare system_walk.simps [simp del]

definition system_information :: "bytes \<Rightarrow> system_info option" where
  "system_information table = system_walk table 0"

section \<open>The judgment\<close>

definition MONITORS :: "string list" where
  "MONITORS = [''Alibaba Cloud ECS'', ''Apple Virtualization'', ''BHYVE'', ''Bochs'',
     ''Google Compute Engine'', ''Hyper-V'', ''KVM'', ''KubeVirt'', ''OpenStack'', ''Parallels'',
     ''QEMU'', ''VMW'', ''VMware'', ''VirtualBox'', ''Xen'', ''innotek GmbH'']"

definition names_a_monitor :: "string \<Rightarrow> string \<Rightarrow> string option" where
  "names_a_monitor manufacturer product =
     find (\<lambda>field. list_ex (starts_with field) MONITORS) [manufacturer, product]"

section \<open>A table as the specification lays it out\<close>

record smbios_structure =
  st_kind :: u8
  st_body :: bytes
  st_strings :: "bytes list"

fun join_zero :: "bytes list \<Rightarrow> bytes" where
  "join_zero [] = []"
| "join_zero [s] = s"
| "join_zero (s # t # r) = s @ 0 # join_zero (t # r)"

definition encode_structure :: "smbios_structure \<Rightarrow> bytes" where
  "encode_structure s = [st_kind s, of_nat (length (st_body s) + 2)] @ st_body s @ join_zero (st_strings s) @ [0, 0]"

definition wf_structure :: "smbios_structure \<Rightarrow> bool" where
  "wf_structure s \<longleftrightarrow> 2 \<le> length (st_body s) \<and> length (st_body s) + 2 < 256
     \<and> (\<forall>t \<in> set (st_strings s). t \<noteq> [] \<and> 0 \<notin> set t)"

section \<open>Lemmas\<close>

fun find_double_zero :: "bytes \<Rightarrow> nat option" where
  "find_double_zero (a # b # r) = (if a = 0 \<and> b = 0 then Some 0 else map_option Suc (find_double_zero (b # r)))"
| "find_double_zero _ = None"

lemma run_end_find: "run_end table cursor = map_option (\<lambda>k. cursor + k + 2) (find_double_zero (drop cursor table))"
proof (induction table cursor rule: run_end.induct)
  case (1 table cursor)
  show ?case
  proof (cases "drop cursor table")
    case Nil
    then show ?thesis by (simp add: run_end.simps [of table cursor] slice_range_def)
  next
    case (Cons a l)
    show ?thesis
    proof (cases l)
      case Nil
      with Cons have "length table = cursor + 1" by (metis One_nat_def length_Cons length_drop list.size(3) diff_is_0_eq' add_diff_inverse_nat not_less nat_less_le zero_neq_one)
      then show ?thesis using Cons Nil by (simp add: run_end.simps [of table cursor] slice_range_def)
    next
      case (Cons b r)
      with \<open>drop cursor table = a # l\<close> have d: "drop cursor table = a # b # r" by simp
      then have len: "cursor + 2 \<le> length table"
        by (metis add_leD2 length_Cons length_drop le_add1 le_diff_conv2 linorder_linear diff_is_0_eq' nat.distinct(1) add.commute Suc_eq_plus1 one_add_one plus_1_eq_Suc add_Suc_right)
      then have s: "slice_range table cursor (cursor + 2) = Some [a, b]" by (simp add: slice_range_def d)
      have "drop (cursor + 1) table = b # r" using d by (metis drop_Suc_Cons drop0 drop_drop plus_1_eq_Suc add.commute One_nat_def)
      with s d "1.IH" [OF s] show ?thesis
        by (auto simp: run_end.simps [of table cursor] option.map_comp comp_def)
    qed
  qed
qed

lemma find_double_zero_join:
  assumes "\<forall>t \<in> set ss. t \<noteq> [] \<and> 0 \<notin> set t"
  shows "find_double_zero (join_zero ss @ 0 # 0 # r) = Some (length (join_zero ss))"
proof -
  have skip: "find_double_zero (s @ x) = map_option (\<lambda>k. length s + k) (find_double_zero x)"
    if "0 \<notin> set s" "x \<noteq> []" for s x
    using that
  proof (induction s)
    case (Cons a s)
    then obtain b y where "s @ x = b # y" by (cases "s @ x") auto
    with Cons show ?case by (auto simp: option.map_comp comp_def)
  qed (cases "find_double_zero x"; simp)
  have zero: "find_double_zero (0 # s @ x) = map_option Suc (find_double_zero (s @ x))"
    if "0 \<notin> set s" "s \<noteq> []" for s x
    using that by (cases s) auto
  show ?thesis using assms
  proof (induction ss rule: join_zero.induct)
    case (3 s t u)
    have "find_double_zero (0 # join_zero (t # u) @ 0 # 0 # r) = map_option Suc (find_double_zero (join_zero (t # u) @ 0 # 0 # r))"
      using "3.prems" zero [of t] by (cases u) auto
    with 3 show ?case by (simp add: skip)
  qed (simp_all add: skip)
qed

lemma split_zero_join:
  assumes "\<forall>t \<in> set ss. 0 \<notin> set t" and "ss \<noteq> []"
  shows "split_zero (join_zero ss) = ss"
proof -
  have one: "split_zero s = [s]" if "0 \<notin> set s" for s using that by (induction s) auto
  have app: "split_zero (s @ 0 # x) = s # split_zero x" if "0 \<notin> set s" for s x
    using that by (induction s) auto
  show ?thesis using assms by (induction ss rule: join_zero.induct) (auto simp: one app)
qed

text \<open>The string that a structure numbers: none is empty text, an unknown number is no answer.\<close>

definition numbered :: "bytes list \<Rightarrow> u8 \<Rightarrow> string option" where
  "numbered ss n = (if n = 0 then Some [] else if unat n \<le> length ss then text_of (ss ! (unat n - 1)) else None)"

lemma table_string_join:
  assumes "\<forall>t \<in> set ss. 0 \<notin> set t" and "ss \<noteq> []"
  shows "table_string (join_zero ss) n = numbered ss n"
proof -
  have "0 < unat n" if "n \<noteq> 0" using that by (simp add: unat_gt_0)
  then show ?thesis
    using split_zero_join [OF assms] by (auto simp: table_string_def numbered_def checked_sub_def slice_get_def Suc_le_eq)
qed

lemma structure_header:
  fixes pre rest :: bytes
  assumes "wf_structure s" and "length (pre @ encode_structure s @ rest) < usize_bound"
  defines "table \<equiv> pre @ encode_structure s @ rest" and "start \<equiv> length pre + 2 + length (st_body s)"
  shows "\<exists>h. slice_range table (length pre) (length pre + 4) = Some h \<and> h ! 0 = st_kind s \<and> unat (h ! 1) = length (st_body s) + 2"
    and "checked_add (length pre) (length (st_body s) + 2) = Some start"
    and "run_end table start = Some (length pre + length (encode_structure s))"
    and "slice_range table (length pre) start = Some ([st_kind s, of_nat (length (st_body s) + 2)] @ st_body s)"
    and "slice_range table start (length pre + length (encode_structure s) - 2) = Some (join_zero (st_strings s))"
proof -
  have b: "2 \<le> length (st_body s)" "length (st_body s) + 2 < 256" using assms(1) by (simp_all add: wf_structure_def)
  obtain x y z where body: "st_body s = x # y # z"
    using b(1) by (cases "st_body s"; cases "tl (st_body s)") auto
  let ?h = "[st_kind s, of_nat (length (st_body s) + 2), x, y]"
  have "unat (of_nat n :: u8) = n" if "n < 256" for n using that by (simp add: unat_of_nat)
  from this [OF b(2)] have "unat (?h ! 1) = length (st_body s) + 2"
    by (simp only: nth_Cons_0 nth_Cons_Suc One_nat_def)
  moreover have "slice_range table (length pre) (length pre + 4) = Some ?h"
    by (simp add: table_def encode_structure_def slice_range_def body)
  ultimately show "\<exists>h. slice_range table (length pre) (length pre + 4) = Some h \<and> h ! 0 = st_kind s \<and> unat (h ! 1) = length (st_body s) + 2"
    by (intro exI [of _ ?h]) simp
  show "checked_add (length pre) (length (st_body s) + 2) = Some start"
    using assms(2) by (simp add: start_def encode_structure_def)
  have "drop start table = join_zero (st_strings s) @ 0 # 0 # rest"
    by (simp add: start_def table_def encode_structure_def)
  then show "run_end table start = Some (length pre + length (encode_structure s))"
    using find_double_zero_join [of "st_strings s" rest] assms(1)
    by (simp add: run_end_find wf_structure_def start_def encode_structure_def)
  show "slice_range table (length pre) start = Some ([st_kind s, of_nat (length (st_body s) + 2)] @ st_body s)"
    by (simp add: slice_range_def start_def table_def encode_structure_def)
  show "slice_range table start (length pre + length (encode_structure s) - 2) = Some (join_zero (st_strings s))"
    by (simp add: slice_range_def start_def table_def encode_structure_def)
qed

lemma system_walk_skip:
  assumes "wf_structure s" and "length (pre @ encode_structure s @ rest) < usize_bound"
    and "st_kind s \<noteq> 1" and "st_kind s \<noteq> 127"
  shows "system_walk (pre @ encode_structure s @ rest) (length pre) =
    system_walk (pre @ encode_structure s @ rest) (length (pre @ encode_structure s))"
proof -
  note h = structure_header [OF assms(1,2)]
  from h(1) obtain hd where "slice_range (pre @ encode_structure s @ rest) (length pre) (length pre + 4) = Some hd"
    "hd ! 0 = st_kind s" "unat (hd ! 1) = length (st_body s) + 2" by blast
  then show ?thesis
    using h(2,3) assms(1,3,4)
    by (subst system_walk.simps)
       (simp add: HEADER_BYTES_def END_OF_TABLE_def SYSTEM_INFORMATION_def wf_structure_def Let_def del: checked_add_Some)
qed

lemma system_walk_identity:
  assumes "wf_structure s" and "length (pre @ encode_structure s @ rest) < usize_bound"
    and "st_kind s = 1" and "4 \<le> length (st_body s)" and "st_strings s \<noteq> []"
  shows "system_walk (pre @ encode_structure s @ rest) (length pre) =
    Option.bind (numbered (st_strings s) (st_body s ! 2)) (\<lambda>m.
    Option.bind (numbered (st_strings s) (st_body s ! 3)) (\<lambda>p. Some \<lparr>sy_manufacturer = m, sy_product = p\<rparr>))"
proof -
  note h = structure_header [OF assms(1,2)]
  from h(1) obtain hd where "slice_range (pre @ encode_structure s @ rest) (length pre) (length pre + 4) = Some hd"
    "hd ! 0 = st_kind s" "unat (hd ! 1) = length (st_body s) + 2" by blast
  moreover have "table_string (join_zero (st_strings s)) n = numbered (st_strings s) n" for n
    using assms(1,5) by (intro table_string_join) (auto simp: wf_structure_def)
  ultimately show ?thesis
    using h(2-5) assms(1,3,4)
    by (subst system_walk.simps)
       (simp add: HEADER_BYTES_def END_OF_TABLE_def SYSTEM_INFORMATION_def MANUFACTURER_def PRODUCT_def
         wf_structure_def identity_strings_def slice_get_def Let_def nth_Cons' del: checked_add_Some)
qed

lemma system_walk_skips:
  assumes "\<forall>s \<in> set ss. wf_structure s \<and> st_kind s \<noteq> 1 \<and> st_kind s \<noteq> 127"
    and "length (pre @ concat (map encode_structure ss) @ rest) < usize_bound"
  shows "system_walk (pre @ concat (map encode_structure ss) @ rest) (length pre) =
    system_walk (pre @ concat (map encode_structure ss) @ rest) (length (pre @ concat (map encode_structure ss)))"
  using assms
proof (induction ss arbitrary: pre)
  case (Cons s ss)
  have "system_walk (pre @ encode_structure s @ (concat (map encode_structure ss) @ rest)) (length pre) =
      system_walk (pre @ encode_structure s @ (concat (map encode_structure ss) @ rest)) (length (pre @ encode_structure s))"
    using Cons.prems by (intro system_walk_skip) simp_all
  also have "\<dots> = system_walk ((pre @ encode_structure s) @ concat (map encode_structure ss) @ rest)
      (length ((pre @ encode_structure s) @ concat (map encode_structure ss)))"
    using Cons.IH [of "pre @ encode_structure s"] Cons.prems by simp
  finally show ?case by simp
qed simp

section \<open>Properties\<close>

text \<open>
  The firmware identity reads back.  In a table of structures laid out as the specification
  says, the reader skips every structure before the first System Information structure and returns
  the two strings that this one numbers: the empty text for number zero, and no answer for a number
  that names no string or for text that is not UTF-8.  What follows the structure takes no part.
\<close>

lemma smbios_identity_roundtrip:
  assumes "\<forall>s \<in> set ss. wf_structure s \<and> st_kind s \<noteq> 1 \<and> st_kind s \<noteq> 127"
    and "wf_structure t" and "st_kind t = 1" and "4 \<le> length (st_body t)" and "st_strings t \<noteq> []"
    and "length (concat (map encode_structure ss) @ encode_structure t @ rest) < 2 ^ 64"
  shows "system_information (concat (map encode_structure ss) @ encode_structure t @ rest) =
    Option.bind (numbered (st_strings t) (st_body t ! 2)) (\<lambda>m.
    Option.bind (numbered (st_strings t) (st_body t ! 3)) (\<lambda>p. Some \<lparr>sy_manufacturer = m, sy_product = p\<rparr>))"
proof -
  have l: "length (concat (map encode_structure ss) @ encode_structure t @ rest) < usize_bound"
    using assms(6) by (simp add: usize_bound_def)
  then show ?thesis
    using system_walk_skips [OF assms(1), of "[]" "encode_structure t @ rest"]
      system_walk_identity [OF assms(2) l assms(3-5)]
    by (simp add: system_information_def)
qed

lemma smbios_identity_roundtrip_example:
  "system_information (concat (map encode_structure [\<lparr>st_kind = 0, st_body = [0, 0], st_strings = []\<rparr>])
      @ encode_structure \<lparr>st_kind = 1, st_body = [0, 0, 1, 2], st_strings = [[0x51], [0x56, 0x4D]]\<rparr> @ [9]) =
   Some \<lparr>sy_manufacturer = ''Q'', sy_product = ''VM''\<rparr>"
proof -
  have "numbered [[0x51], [0x56, 0x4D]] 1 = Some ''Q''" "numbered [[0x51], [0x56, 0x4D]] 2 = Some ''VM''"
    by code_simp+
  then show ?thesis
    by (subst smbios_identity_roundtrip) (simp_all add: wf_structure_def encode_structure_def)
qed

end
