(* ===== verification/Fid_Linux.thy ===== *)
theory Fid_Linux
  imports Fid_Detect Fid_Loader Fid_Procfs Fid_Sha256 Fid_Smbios
begin

text \<open>
  The Linux probe (\<open>probe/fidelity-probe-linux\<close>) and the capabilities that it shares with the Android
  probe, which reads the same process filesystem.  What the operating system answers is a record of
  arguments: the files by path, the images that the loader lists, the memory, the measurement of the
  kernel.  The theorems compose the probe with the readers of \<open>fidelity-formats\<close> and with the
  detectors: what each detector records for what the system states.
\<close>

section \<open>The operating system\<close>

record io_error =
  io_not_found :: bool
  io_display :: string

type_synonym 'a io = "io_error + 'a"

text \<open>\<open>lx_measure\<close>: whether the file opens, and then the result of the call and the algorithm it wrote.\<close>

record linux_os =
  lx_read_to_string :: "string \<Rightarrow> string io"
  lx_read :: "string \<Rightarrow> bytes io"
  lx_read_dir :: "string \<Rightarrow> string list io"
  lx_measure :: "string \<Rightarrow> (int \<times> u16) option"
  lx_arch :: arch
  lx_images :: "phdr_info list"
  lx_memory :: memory

section \<open>The process filesystem, on both systems\<close>

definition STATUS_PATH :: string where "STATUS_PATH = ''/proc/self/status''"
definition MAPS_PATH :: string where "MAPS_PATH = ''/proc/self/maps''"

definition status_read :: "(string \<Rightarrow> string io) \<Rightarrow> string + string" where
  "status_read rd = (case rd STATUS_PATH of
     Inl _ \<Rightarrow> Inl ''the process status file did not open'' | Inr text \<Rightarrow> Inr text)"

definition maps_read :: "(string \<Rightarrow> string io) \<Rightarrow> string + string" where
  "maps_read rd = (case rd MAPS_PATH of
     Inl _ \<Rightarrow> Inl ''the process mapping table did not open'' | Inr text \<Rightarrow> Inr text)"

definition TRACED :: string where
  "TRACED = ''the kernel reports a TracerPid on this process''"

definition TRACER_UNREADABLE :: string where
  "TRACER_UNREADABLE = ''the process status file named no readable TracerPid''"

definition procfs_tracer_state :: "string + string \<Rightarrow> tracer_state observation" where
  "procfs_tracer_state status = (case status of
       Inl detail \<Rightarrow> ObsFailed (bounded_text_new detail)
     | Inr text \<Rightarrow> (case read_tracer_pid text of
           Some tracer_pid.TracerAbsent \<Rightarrow> Fact tracer_state.TracerAbsent
         | Some (TracerPresent _) \<Rightarrow> Fact (TracerHeld (bounded_text_new TRACED))
         | None \<Rightarrow> ObsFailed (bounded_text_new TRACER_UNREADABLE)))"

definition region_detail :: "string \<Rightarrow> region_count \<Rightarrow> string" where
  "region_detail what found =
     what @ dec (unat (rc_bytes found)) @ '' bytes, region count '' @ dec (unat (rc_regions found))"

definition procfs_code_origin :: "string + string \<Rightarrow> code_origin observation" where
  "procfs_code_origin maps = (case maps of
       Inl detail \<Rightarrow> ObsFailed (bounded_text_new detail)
     | Inr text \<Rightarrow>
         let found = unaccounted text in
         if region_is_empty found then Fact Accounted
         else Fact (Unaccounted (rc_regions found)
                (bounded_text_new (region_detail ''unaccounted executable memory: '' found))))"

definition no_executable_region :: string where
  "no_executable_region = ''the mapping table named no executable region''"

definition procfs_code_regions :: "string + string \<Rightarrow> code_regions observation" where
  "procfs_code_regions maps = (case maps of
       Inl detail \<Rightarrow> ObsFailed (bounded_text_new detail)
     | Inr text \<Rightarrow>
         let regions = map (\<lambda>m. region_new (mp_start m) (mp_end m) (mp_writable m)) (executable_mappings text) in
         if regions = [] then ObsFailed (bounded_text_new no_executable_region)
         else Fact (code_regions_new regions))"

definition procfs_image_catalog_state ::
  "string + string \<Rightarrow> string + (u64 \<times> u64) list \<Rightarrow> image_catalog_state observation" where
  "procfs_image_catalog_state maps catalog = (case maps of
       Inl detail \<Rightarrow> obs_failed detail
     | Inr text \<Rightarrow> (case catalog of
           Inl detail \<Rightarrow> obs_failed detail
         | Inr ranges \<Rightarrow>
             let found = outside_loader text ranges in
             if region_is_empty found then Fact CatalogAccounted
             else Fact (Unregistered (rc_regions found)
                    (bounded_text_new (region_detail ''unregistered executable image: '' found)))))"

definition no_dispatch_table :: string where
  "no_dispatch_table = ''the image of the host holds no dispatch table''"

text \<open>A slice that faults ends the process; it is kept as \<open>Panic\<close>, which no other path of the reader gives.\<close>

definition dispatch_observation :: "raw_targets access \<Rightarrow> dispatch_targets observation exec" where
  "dispatch_observation raw = (case raw of
       Fault \<Rightarrow> Panic
     | Absent \<Rightarrow> Returns (ObsUnsupported no_dispatch_table)
     | Got raw \<Rightarrow> Returns (Fact (dispatch_targets_new
         (map (\<lambda>t. target_new (rw_slot t) (rw_value t)) (rw_targets raw)) (rw_bound raw))))"

section \<open>Verity and identity\<close>

definition EXE_PATH :: string where "EXE_PATH = ''/proc/self/exe''"
definition HASH_SHA256 :: u16 where "HASH_SHA256 = 1"

datatype verity = Enabled bool | VerityAbsent string

definition verity_measure :: "linux_os \<Rightarrow> string \<Rightarrow> verity" where
  "verity_measure os path = (case lx_measure os path of
       None \<Rightarrow> VerityAbsent ''the running image did not open, so no verity state answers''
     | Some (result, algorithm) \<Rightarrow>
         if result \<noteq> 0 then VerityAbsent ''the kernel reports no fs-verity for the running image''
         else Enabled (algorithm = HASH_SHA256))"

definition NO_VERITY :: string where
  "NO_VERITY = ''Linux anchors no signer for a running image, and this deployment enables no fs-verity''"

definition OTHER_HASH :: string where
  "OTHER_HASH = ''fs-verity is enabled with a hash that this probe does not read''"

definition linux_accepted_gap :: string where
  "linux_accepted_gap = ''the host accepted no identity check on Linux''"

definition linux_no_host_value :: string where
  "linux_no_host_value = ''the host stated no identity value for Linux''"

definition ANOTHER_IMAGE :: string where
  "ANOTHER_IMAGE = ''the running image holds other content than the host pinned''"

definition linux_code_identity :: "linux_os \<Rightarrow> code_identity observation" where
  "linux_code_identity os =
     (let trust = (case verity_measure os EXE_PATH of
            Enabled is_sha256 \<Rightarrow> if is_sha256 then Accepted else Unavailable OTHER_HASH
          | VerityAbsent _ \<Rightarrow> Unavailable NO_VERITY)
      in Fact \<lparr>ci_trust = trust, ci_signer = None\<rparr>)"

definition linux_compare :: "bytes \<Rightarrow> bytes \<Rightarrow> identity_match" where
  "linux_compare found pinned =
     (if found = pinned then Same else Different (bounded_text_new ANOTHER_IMAGE))"

definition linux_digest :: "linux_os \<Rightarrow> string + bytes" where
  "linux_digest os = (case lx_read os EXE_PATH of
     Inl _ \<Rightarrow> Inl ''the running image did not open'' | Inr bs \<Rightarrow> Inr (sha256 bs))"

definition linux_identity_match :: "linux_os \<Rightarrow> expected_identity \<Rightarrow> identity_match observation" where
  "linux_identity_match os expected = (case ei_linux expected of
       Some (Value (ContentDigest pinned)) \<Rightarrow> (case linux_digest os of
           Inr found \<Rightarrow> Fact (linux_compare found pinned)
         | Inl reason \<Rightarrow> obs_failed reason)
     | Some AcceptUnsupported \<Rightarrow> ObsUnsupported linux_accepted_gap
     | None \<Rightarrow> ObsUnsupported linux_no_host_value)"

section \<open>The machine below the system\<close>

definition MANUFACTURER_PATH :: string where "MANUFACTURER_PATH = ''/sys/class/dmi/id/sys_vendor''"
definition PRODUCT_PATH :: string where "PRODUCT_PATH = ''/sys/class/dmi/id/product_name''"
definition VIRTIO_PATH :: string where "VIRTIO_PATH = ''/sys/bus/virtio/devices''"

definition read_field :: "linux_os \<Rightarrow> string \<Rightarrow> string option io" where
  "read_field os path = (case lx_read_to_string os path of
       Inr text \<Rightarrow> Inr (Some (trim text))
     | Inl e \<Rightarrow> if io_not_found e then Inr None else Inl e)"

text \<open>Both fields are read, in order, before either answer is looked at.\<close>

definition firmware_identity :: "linux_os \<Rightarrow> (string \<times> string) option io" where
  "firmware_identity os = (case read_field os MANUFACTURER_PATH of
       Inl e \<Rightarrow> Inl e
     | Inr m \<Rightarrow> (case read_field os PRODUCT_PATH of
           Inl e \<Rightarrow> Inl e
         | Inr p \<Rightarrow> (case (m, p) of
               (Some manufacturer, Some product) \<Rightarrow> Inr (Some (manufacturer, product))
             | _ \<Rightarrow> Inr None)))"

definition holds_a_paravirtual_device :: "linux_os \<Rightarrow> bool io" where
  "holds_a_paravirtual_device os = (case lx_read_dir os VIRTIO_PATH of
       Inr entries \<Rightarrow> Inr (entries \<noteq> [])
     | Inl e \<Rightarrow> if io_not_found e then Inr False else Inl e)"

definition named_monitor :: "linux_os \<Rightarrow> string option io" where
  "named_monitor os = (case firmware_identity os of
       Inl e \<Rightarrow> Inl e
     | Inr None \<Rightarrow> Inr None
     | Inr (Some (manufacturer, product)) \<Rightarrow> Inr (names_a_monitor manufacturer product))"

definition PARAVIRTUAL :: string where
  "PARAVIRTUAL = ''the kernel holds a virtio device, which needs a monitor to answer it''"

definition emulation_failed :: "io_error \<Rightarrow> machine_host observation" where
  "emulation_failed e = ObsFailed (bounded_text_new (''the firmware read failed: '' @ io_display e))"

definition linux_machine_host :: "linux_os \<Rightarrow> machine_host observation" where
  "linux_machine_host os = (case named_monitor os of
       Inr (Some field) \<Rightarrow> Fact (VirtualMachine (bounded_text_new (''the firmware names the machine '' @ field)))
     | Inl e \<Rightarrow> emulation_failed e
     | Inr None \<Rightarrow> (case holds_a_paravirtual_device os of
           Inr True \<Rightarrow> Fact (VirtualMachine (bounded_text_new PARAVIRTUAL))
         | Inl e \<Rightarrow> emulation_failed e
         | Inr False \<Rightarrow> Fact Hardware))"

section \<open>The environment\<close>

definition linux_tracer_state :: "linux_os \<Rightarrow> tracer_state observation" where
  "linux_tracer_state os = procfs_tracer_state (status_read (lx_read_to_string os))"

definition linux_code_origin :: "linux_os \<Rightarrow> code_origin observation" where
  "linux_code_origin os = procfs_code_origin (maps_read (lx_read_to_string os))"

definition linux_code_regions :: "linux_os \<Rightarrow> code_regions observation" where
  "linux_code_regions os = procfs_code_regions (maps_read (lx_read_to_string os))"

definition linux_image_catalog_state :: "linux_os \<Rightarrow> image_catalog_state observation" where
  "linux_image_catalog_state os =
     procfs_image_catalog_state (maps_read (lx_read_to_string os)) (catalog_read (lx_images os))"

definition linux_dispatch_targets :: "linux_os \<Rightarrow> dispatch_targets observation exec" where
  "linux_dispatch_targets os =
     dispatch_observation (linux_dispatch_read (lx_arch os) (lx_memory os) (lx_images os))"

lemmas linux_procfs_defs = linux_tracer_state_def linux_code_origin_def linux_image_catalog_state_def

definition linux_environment :: "linux_os \<Rightarrow> local_agent_state observation exec \<Rightarrow> environment" where
  "linux_environment os agent =
     (default_environment Linux agent)
      \<lparr>en_code_identity := Returns (linux_code_identity os),
       en_identity_match := (\<lambda>expected. Returns (linux_identity_match os expected)),
       en_code_regions := Returns (linux_code_regions os),
       en_tracer_state := Returns (linux_tracer_state os),
       en_code_origin := Returns (linux_code_origin os),
       en_dispatch_targets := linux_dispatch_targets os,
       en_image_catalog_state := Returns (linux_image_catalog_state os),
       en_machine_host := Returns (linux_machine_host os)\<rparr>"

section \<open>Clean facts\<close>

text \<open>A file that was read, or that the kernel did not write.\<close>

definition answered :: "'a io \<Rightarrow> bool" where
  "answered r = (case r of Inr _ \<Rightarrow> True | Inl e \<Rightarrow> io_not_found e)"

text \<open>A status file whose first tracer field is the number zero.\<close>

definition names_no_tracer :: "string \<Rightarrow> bool" where
  "names_no_tracer text \<longleftrightarrow> (\<exists>before field after. lines text = before @ (''TracerPid:'' @ field) # after
     \<and> list_all (\<lambda>l. \<not> starts_with l ''TracerPid:'') before \<and> from_str_radix 32 10 (trim field) = Some 0)"

lemma read_tracer_absent: "read_tracer_pid text = Some tracer_pid.TracerAbsent \<longleftrightarrow> names_no_tracer text"
proof -
  have "read_tracer_pid text = Some tracer_pid.TracerAbsent \<longleftrightarrow>
      (\<exists>field. find_map (\<lambda>line. strip_prefix line TRACER_FIELD) (lines text) = Some field
        \<and> from_str_radix 32 10 (trim field) = Some 0)"
    by (auto simp: read_tracer_pid_def bind_eq_Some_conv split: option.splits if_splits)
  also have "\<dots> \<longleftrightarrow> names_no_tracer text"
  proof -
    have none: "strip_prefix z ''TracerPid:'' = None \<longleftrightarrow> \<not> starts_with z ''TracerPid:''" for z
      by (simp only: strip_prefix_def split: if_splits) blast
    show ?thesis
      unfolding find_map_Some names_no_tracer_def TRACER_FIELD_def strip_prefix_Some none list_all_iff by blast
  qed
  finally show ?thesis .
qed

lemma procfs_tracer_clean:
  "procfs_tracer_state (status_read rd) = Fact tracer_state.TracerAbsent \<longleftrightarrow>
     (\<exists>text. rd STATUS_PATH = Inr text \<and> names_no_tracer text)"
  unfolding read_tracer_absent [symmetric]
  by (auto simp: procfs_tracer_state_def status_read_def split: sum.splits option.splits tracer_pid.splits)

text \<open>
  What the mapping table shows: a live file or a name of the kernel behind every executable mapping;
  one loaded range around every executable mapping of a file, also of a deleted one.
\<close>

definition file_backed :: "string \<Rightarrow> bool" where
  "file_backed text \<longleftrightarrow>
     (\<forall>m \<in> set (executable_mappings text). \<exists>name. mp_origin m = File name \<or> mp_origin m = Named name)"

definition in_loaded_ranges :: "string \<Rightarrow> (u64 \<times> u64) list \<Rightarrow> bool" where
  "in_loaded_ranges text ranges \<longleftrightarrow>
     (\<forall>m \<in> set (executable_mappings text). (\<exists>name. mp_origin m = File name \<or> mp_origin m = Deleted name) \<longrightarrow>
        (\<exists>(low, high) \<in> set ranges. low \<le> mp_start m \<and> mp_end m \<le> high))"

lemma file_backed_iff: "list_all (\<lambda>m. \<not> has_no_file m) (executable_mappings text) \<longleftrightarrow> file_backed text"
proof -
  have "\<not> has_no_file m \<longleftrightarrow> (\<exists>name. mp_origin m = File name \<or> mp_origin m = Named name)" for m
    by (cases "mp_origin m") (simp_all add: has_no_file_def)
  then show ?thesis by (simp add: file_backed_def list_all_iff)
qed

lemma in_loaded_ranges_iff:
  "list_all (loader_accounts ranges) (filter is_file_mapping (executable_mappings text)) \<longleftrightarrow> in_loaded_ranges text ranges"
proof -
  have "is_file_mapping m \<longleftrightarrow> (\<exists>name. mp_origin m = File name \<or> mp_origin m = Deleted name)" for m
    by (cases "mp_origin m") (simp_all add: is_file_mapping_def)
  then show ?thesis unfolding in_loaded_ranges_def loader_accounts_def list_all_iff list_ex_iff by auto
qed

lemma procfs_origin_clean:
  "procfs_code_origin (maps_read rd) = Fact Accounted \<longleftrightarrow> (\<exists>text. rd MAPS_PATH = Inr text \<and> file_backed text)"
  unfolding file_backed_iff [symmetric]
  by (auto simp: procfs_code_origin_def maps_read_def Let_def unaccounted_empty split: sum.splits)

lemma procfs_catalog_clean:
  "procfs_image_catalog_state (maps_read rd) (catalog_read images) = Fact CatalogAccounted \<longleftrightarrow>
     (\<exists>text ranges. rd MAPS_PATH = Inr text \<and> catalog_read images = Inr ranges \<and> in_loaded_ranges text ranges)"
  unfolding in_loaded_ranges_iff [symmetric]
  by (auto simp: procfs_image_catalog_state_def maps_read_def obs_failed_def Let_def outside_loader_empty
      list_all_iff split: sum.splits)

text \<open>
  The machine that the probe takes for hardware.  The firmware is looked at only when both files are
  there: with one of them absent the other one names nothing, whatever it holds.
\<close>

definition bare_machine :: "linux_os \<Rightarrow> bool" where
  "bare_machine os \<longleftrightarrow>
     answered (lx_read_to_string os MANUFACTURER_PATH) \<and> answered (lx_read_to_string os PRODUCT_PATH)
     \<and> answered (lx_read_dir os VIRTIO_PATH)
     \<and> (case (lx_read_to_string os MANUFACTURER_PATH, lx_read_to_string os PRODUCT_PATH) of
          (Inr manufacturer, Inr product) \<Rightarrow>
            list_all (\<lambda>field. list_all (\<lambda>name. \<not> starts_with field name) MONITORS) [trim manufacturer, trim product]
        | _ \<Rightarrow> True)
     \<and> (case lx_read_dir os VIRTIO_PATH of Inr entries \<Rightarrow> entries = [] | Inl _ \<Rightarrow> True)"

lemma names_a_monitor_None:
  "names_a_monitor m p = None \<longleftrightarrow> list_all (\<lambda>field. list_all (\<lambda>name. \<not> starts_with field name) MONITORS) [m, p]"
  by (auto simp: names_a_monitor_def find_None_iff list_ex_iff list_all_iff)

lemma linux_machine_clean: "linux_machine_host os = Fact Hardware \<longleftrightarrow> bare_machine os"
proof -
  have field: "read_field os path = Inr f \<longleftrightarrow> answered (lx_read_to_string os path)
      \<and> f = (case lx_read_to_string os path of Inr t \<Rightarrow> Some (trim t) | Inl _ \<Rightarrow> None)" for path f
    by (auto simp: read_field_def answered_def split: sum.splits)
  have bus: "holds_a_paravirtual_device os = Inr False \<longleftrightarrow> answered (lx_read_dir os VIRTIO_PATH)
      \<and> (case lx_read_dir os VIRTIO_PATH of Inr entries \<Rightarrow> entries = [] | Inl _ \<Rightarrow> True)"
    by (auto simp: holds_a_paravirtual_device_def answered_def split: sum.splits)
  have "linux_machine_host os = Fact Hardware \<longleftrightarrow>
      named_monitor os = Inr None \<and> holds_a_paravirtual_device os = Inr False"
    by (auto simp: linux_machine_host_def emulation_failed_def split: sum.splits option.splits bool.splits)
  moreover have "named_monitor os = Inr None \<longleftrightarrow>
      (\<exists>m p. read_field os MANUFACTURER_PATH = Inr m \<and> read_field os PRODUCT_PATH = Inr p
        \<and> (case (m, p) of (Some m, Some p) \<Rightarrow> names_a_monitor m p = None | _ \<Rightarrow> True))"
    by (auto simp: named_monitor_def firmware_identity_def split: sum.splits option.splits)
  ultimately show ?thesis
    by (auto simp: field bus bare_machine_def names_a_monitor_None split: sum.splits)
qed

text \<open>
  C29.  What a clean answer of a Linux process means.  The tracer detector is clean exactly when the
  status file was read and its first \<open>TracerPid\<close> field is zero; the code detector exactly when the
  mapping table was read and a live file or a name of the kernel is behind every executable mapping;
  the catalog detector exactly when the table and the loader were both read and every executable
  mapping of a file lies in one loaded range.  The machine detector is clean exactly when each of the
  two firmware files and the device list was read or is absent, no device is listed, and, if both
  firmware files are there, neither names a monitor.  With one of the two absent the other is not
  looked at, so a manufacturer that names a monitor is then clean, against the documentation of
  \<open>firmware_identity\<close>.  The expected identity is clean exactly when the digest of the image is the one
  the host pinned, and platform trust exactly when the kernel measures the image with a SHA-256 tree;
  no signature takes part in that, against the documentation of the module.  The build and the boot
  are never clean.  So no failed read is ever recorded as clean.
\<close>

theorem linux_clean_exact:
  "(tracer_present (linux_environment os agent) now = Returns Clean \<longleftrightarrow>
      (\<exists>text. lx_read_to_string os STATUS_PATH = Inr text \<and> names_no_tracer text))
   \<and> (unaccounted_code (linux_environment os agent) now = Returns Clean \<longleftrightarrow>
      (\<exists>text. lx_read_to_string os MAPS_PATH = Inr text \<and> file_backed text))
   \<and> (image_catalog (linux_environment os agent) now = Returns Clean \<longleftrightarrow>
      (\<exists>text ranges. lx_read_to_string os MAPS_PATH = Inr text \<and> catalog_read (lx_images os) = Inr ranges
         \<and> in_loaded_ranges text ranges))
   \<and> (machine_host_detector (linux_environment os agent) now = Returns Clean \<longleftrightarrow> bare_machine os)
   \<and> (expected_identity_detector (linux_environment os agent) (Some expected) now = Returns Clean \<longleftrightarrow>
      (\<exists>bs. lx_read os EXE_PATH = Inr bs \<and> ei_linux expected = Some (Value (ContentDigest (sha256 bs)))))
   \<and> (platform_trust_detector (linux_environment os agent) now = Returns Clean \<longleftrightarrow>
      lx_measure os EXE_PATH = Some (0, 1))
   \<and> system_build_detector (linux_environment os agent) now \<noteq> Returns Clean
   \<and> verified_boot (linux_environment os agent) now \<noteq> Returns Clean"
proof -
  have identity: "linux_identity_match os expected = Fact Same \<longleftrightarrow>
      (\<exists>bs. lx_read os EXE_PATH = Inr bs \<and> ei_linux expected = Some (Value (ContentDigest (sha256 bs))))"
    by (auto simp: linux_identity_match_def linux_digest_def linux_compare_def obs_failed_def
        split: option.splits choice.splits content_digest.splits sum.splits if_splits)
  have trust: "(\<exists>i. linux_code_identity os = Fact i \<and> ci_trust i = Accepted) \<longleftrightarrow>
      lx_measure os EXE_PATH = Some (0, 1)"
    by (auto simp: linux_code_identity_def verity_measure_def HASH_SHA256_def Let_def
        split: option.splits if_splits)
  show ?thesis
    by (simp add: detector_clean linux_environment_def linux_procfs_defs procfs_tracer_clean procfs_origin_clean
        procfs_catalog_clean linux_machine_clean identity trust default_environment_def)
qed

text \<open>The case that the documentation does not name: a manufacturer that names a monitor and no product file.\<close>

lemma half_named_machine_is_bare:
  assumes "lx_read_to_string os MANUFACTURER_PATH = Inr ''QEMU''"
    and "lx_read_to_string os PRODUCT_PATH = Inl absent" and "io_not_found absent"
    and "lx_read_dir os VIRTIO_PATH = Inr []"
  shows "bare_machine os"
  using assms by (simp add: bare_machine_def answered_def)

end
