(* ===== verification/Fid_Apk.thy ===== *)
theory Fid_Apk
  imports Fid_Prelude
begin

text \<open>
  The readers of a signed Android archive: the search for the end record
  (\<open>fidelity-formats/src/apk/zip.rs\<close>) and the walk over the signing block
  (\<open>apk/signing.rs\<close>).  The walk is a function with a termination proof.
\<close>

section \<open>The end record\<close>

definition END_MAGIC :: bytes where "END_MAGIC = [0x50, 0x4b, 0x05, 0x06]"
definition END_SIZE :: nat where "END_SIZE = 22"
definition OFFSET_FIELD :: nat where "OFFSET_FIELD = 16"
definition COMMENT_FIELD :: nat where "COMMENT_FIELD = 20"
definition MAX_COMMENT :: nat where "MAX_COMMENT = 0xffff"
definition MAX_TAIL :: nat where "MAX_TAIL = MAX_COMMENT + END_SIZE"

lemmas zip_consts = END_SIZE_def OFFSET_FIELD_def COMMENT_FIELD_def

datatype 'a visit = Continue | Answer "'a option"

definition end_record :: "bytes \<Rightarrow> nat \<Rightarrow> nat visit" where
  "end_record tail at =
     (case checked_add at 4 of None \<Rightarrow> Answer None | Some magic_end \<Rightarrow>
      if slice_range tail at magic_end \<noteq> Some END_MAGIC then Continue
      else case checked_add at COMMENT_FIELD of None \<Rightarrow> Answer None | Some comment_at \<Rightarrow>
      (case read_le 2 tail comment_at of None \<Rightarrow> Continue | Some comment \<Rightarrow>
      (case Option.bind (checked_add at END_SIZE) (\<lambda>after. checked_add after comment) of None \<Rightarrow> Continue | Some ends \<Rightarrow>
      if ends \<noteq> length tail then Continue
      else Answer (Option.bind (checked_add at OFFSET_FIELD) (read_le 4 tail)))))"

fun first_answer :: "('a \<Rightarrow> 'b visit) \<Rightarrow> 'a list \<Rightarrow> 'b option" where
  "first_answer f [] = None"
| "first_answer f (x # xs) = (case f x of Continue \<Rightarrow> first_answer f xs | Answer r \<Rightarrow> r)"

definition central_directory_offset :: "bytes \<Rightarrow> nat option" where
  "central_directory_offset tail =
     Option.bind (checked_sub (length tail) END_SIZE) (\<lambda>last_at.
       first_answer (end_record tail) (rev [0..<last_at + 1]))"

section \<open>The signing block\<close>

definition BLOCK_MAGIC :: bytes where
  "BLOCK_MAGIC = [0x41, 0x50, 0x4b, 0x20, 0x53, 0x69, 0x67, 0x20, 0x42, 0x6c, 0x6f, 0x63, 0x6b, 0x20, 0x34, 0x32]"

definition FOOTER :: nat where "FOOTER = 24"
definition SCHEME_V2 :: nat where "SCHEME_V2 = 0x7109871a"
definition SCHEME_V3 :: nat where "SCHEME_V3 = 0xf05368c0"
definition SCHEME_V31 :: nat where "SCHEME_V31 = 0x1b93ad61"
definition MAX_BLOCK :: nat where "MAX_BLOCK = 4 * 1024 * 1024"

definition block_length :: "bytes \<Rightarrow> nat option" where
  "block_length footer =
     Option.bind (checked_sub (length footer) FOOTER) (\<lambda>at.
     Option.bind (checked_add at 8) (\<lambda>magic_at.
     if slice_range footer magic_at (length footer) \<noteq> Some BLOCK_MAGIC then None else
     Option.bind (read_le 8 footer at) (\<lambda>size.
     if MAX_BLOCK < size then None else checked_add size 8)))"

definition element :: "bytes \<Rightarrow> nat \<Rightarrow> bytes option" where
  "element bs at =
     Option.bind (read_le 4 bs at) (\<lambda>len.
     Option.bind (checked_add at 4) (\<lambda>start.
     Option.bind (checked_add start len) (\<lambda>fin. slice_range bs start fin)))"

definition first_element :: "bytes \<Rightarrow> bytes option" where
  "first_element bs = element bs 0"

definition certificate :: "bytes \<Rightarrow> bytes option" where
  "certificate scheme =
     Option.bind (first_element scheme) (\<lambda>signers.
     Option.bind (first_element signers) (\<lambda>signer.
     Option.bind (first_element signer) (\<lambda>signed_data.
     Option.bind (element signed_data 0) (\<lambda>digests.
     Option.bind (checked_add 4 (length digests)) (\<lambda>after.
     Option.bind (element signed_data after) (\<lambda>certificates.
       first_element certificates))))))"

record schemes =
  sc_v31 :: "bytes option"
  sc_v3 :: "bytes option"
  sc_v2 :: "bytes option"

definition no_schemes :: schemes where
  "no_schemes = \<lparr>sc_v31 = None, sc_v3 = None, sc_v2 = None\<rparr>"

definition take_scheme :: "nat \<Rightarrow> bytes \<Rightarrow> schemes \<Rightarrow> schemes" where
  "take_scheme identifier v sc =
     (if identifier = SCHEME_V31 \<and> sc_v31 sc = None then sc\<lparr>sc_v31 := certificate v\<rparr>
      else if identifier = SCHEME_V3 \<and> sc_v3 sc = None then sc\<lparr>sc_v3 := certificate v\<rparr>
      else if identifier = SCHEME_V2 \<and> sc_v2 sc = None then sc\<lparr>sc_v2 := certificate v\<rparr>
      else sc)"

definition pair_at :: "bytes \<Rightarrow> nat \<Rightarrow> (nat \<times> bytes \<times> nat) option" where
  "pair_at block at =
     Option.bind (read_le 8 block at) (\<lambda>len.
     Option.bind (checked_add at 8) (\<lambda>id_at.
     Option.bind (read_le 4 block id_at) (\<lambda>identifier.
     Option.bind (checked_add at 12) (\<lambda>start.
     Option.bind (checked_add id_at len) (\<lambda>fin.
     Option.bind (slice_range block start fin) (\<lambda>v. Some (identifier, v, fin)))))))"

lemma pair_at_progress: "pair_at block at = Some (i, v, fin) \<Longrightarrow> at + 12 \<le> fin \<and> fin \<le> length block"
  by (auto simp: pair_at_def bind_eq_Some_conv slice_range_Some)

function pair_walk :: "bytes \<Rightarrow> nat \<Rightarrow> nat \<Rightarrow> schemes \<Rightarrow> schemes option" where
  "pair_walk block trailing at sc =
     (if at < trailing
      then (case pair_at block at of
              None \<Rightarrow> None
            | Some (identifier, v, fin) \<Rightarrow> pair_walk block trailing fin (take_scheme identifier v sc))
      else Some sc)"
  by pat_completeness auto
termination
  by (relation "measure (\<lambda>(block, trailing, at, sc). trailing - at)") (auto dest: pair_at_progress)

declare pair_walk.simps [simp del]

fun or_else :: "'a option \<Rightarrow> 'a option \<Rightarrow> 'a option" where
  "or_else (Some x) b = Some x"
| "or_else None b = b"

definition signer_certificate :: "bytes \<Rightarrow> bytes option" where
  "signer_certificate block =
     (if MAX_BLOCK < length block then None
      else Option.bind (checked_sub (length block) FOOTER) (\<lambda>trailing.
           Option.bind (read_le 8 block 0) (\<lambda>leading_size.
           Option.bind (read_le 8 block trailing) (\<lambda>trailing_size.
           if leading_size \<noteq> trailing_size then None
           else Option.bind (pair_walk block trailing 8 no_schemes) (\<lambda>sc.
             or_else (or_else (sc_v31 sc) (sc_v3 sc)) (sc_v2 sc))))))"

section \<open>Lemmas on the end record\<close>

text \<open>A record that its own comment length carries to the end of the file.\<close>

definition is_end_record :: "bytes \<Rightarrow> nat \<Rightarrow> bool" where
  "is_end_record tail at \<longleftrightarrow> at + 22 \<le> length tail \<and> take 4 (drop at tail) = END_MAGIC
     \<and> at + 22 + le_nat (take 2 (drop (at + 20) tail)) = length tail"

lemma end_record_exact:
  assumes "length tail < usize_bound" and "at + 22 \<le> length tail"
  shows "end_record tail at = (if is_end_record tail at then Answer (Some (le_nat (take 4 (drop (at + 16) tail)))) else Continue)"
proof -
  have c: "checked_add at n = Some (at + n)" if "n \<le> 22" for n using assms that by simp
  have s: "slice_range tail at (at + 4) = Some (take 4 (drop at tail))" using assms(2) by (simp add: slice_range_def)
  have r: "read_le 2 tail (at + 20) = Some (le_nat (take 2 (drop (at + 20) tail)))"
    "read_le 4 tail (at + 16) = Some (le_nat (take 4 (drop (at + 16) tail)))"
    using assms by (simp_all add: read_le_Some)
  have e: "checked_add (at + 22) n = (if at + 22 + n < usize_bound then Some (at + 22 + n) else None)" for n
    by (simp add: checked_add_def)
  show ?thesis
    using assms by (auto simp: end_record_def zip_consts c s r e is_end_record_def simp del: checked_add_Some)
qed

lemma first_answer_exact:
  assumes "\<And>x. x \<in> set xs \<Longrightarrow> f x = (if P x then Answer (Some (g x)) else Continue)"
  shows "first_answer f xs = map_option g (find P xs)"
  using assms by (induction xs) auto

lemma find_rev_upt:
  "find P (rev [0..<n]) = Some a \<longleftrightarrow> a < n \<and> P a \<and> (\<forall>b. a < b \<and> b < n \<longrightarrow> \<not> P b)"
proof (induction n)
  case (Suc n)
  show ?case
  proof (cases "P n")
    case True
    then show ?thesis by (auto simp: less_Suc_eq)
  next
    case False
    with Suc show ?thesis by (auto simp: less_Suc_eq)
  qed
qed simp

lemma central_directory_find:
  assumes "length tail < usize_bound"
  shows "central_directory_offset tail =
    map_option (\<lambda>at. le_nat (take 4 (drop (at + 16) tail))) (find (is_end_record tail) (rev [0..<length tail - 21]))"
proof (cases "22 \<le> length tail")
  case True
  then have "length tail - 22 + 1 = length tail - 21" by simp
  moreover have "first_answer (end_record tail) (rev [0..<length tail - 21]) =
    map_option (\<lambda>at. le_nat (take 4 (drop (at + 16) tail))) (find (is_end_record tail) (rev [0..<length tail - 21]))"
    using True by (intro first_answer_exact end_record_exact [OF assms]) auto
  ultimately show ?thesis
    using True by (simp add: central_directory_offset_def END_SIZE_def checked_sub_def del: upt_Suc)
next
  case False
  then show ?thesis by (simp add: central_directory_offset_def END_SIZE_def checked_sub_def)
qed

section \<open>Lemmas on the signing block\<close>

text \<open>How the format writes an element, a pair and the whole block.\<close>

definition write_element :: "bytes \<Rightarrow> bytes" where
  "write_element x = to_le 4 (length x) @ x"

definition write_pair :: "nat \<times> bytes \<Rightarrow> bytes" where
  "write_pair p = to_le 8 (length (snd p) + 4) @ to_le 4 (fst p) @ snd p"

definition write_block :: "nat \<Rightarrow> (nat \<times> bytes) list \<Rightarrow> bytes \<Rightarrow> bytes" where
  "write_block sz pairs magic = to_le 8 sz @ concat (map write_pair pairs) @ to_le 8 sz @ magic"

lemma element_written:
  assumes "length x < 2 ^ 32" and "length (pre @ write_element x @ post) < usize_bound"
  shows "element (pre @ write_element x @ post) (length pre) = Some x"
proof -
  have "read_le 4 (pre @ to_le 4 (length x) @ x @ post) (length pre) = Some (length x)"
    using assms by (intro read_field_at) (simp_all add: write_element_def)
  then show ?thesis
    using assms(2) by (simp add: element_def write_element_def checked_add_def slice_range_def)
qed

lemmas first_element_written = element_written [of _ "[]", simplified, folded first_element_def]

text \<open>
  One scheme value: the first signer's signed data holds the digests and then the certificates,
  and anything may follow at each level.
\<close>

definition write_scheme :: "bytes \<Rightarrow> bytes \<Rightarrow> bytes \<Rightarrow> bytes \<Rightarrow> bytes \<Rightarrow> bytes \<Rightarrow> bytes" where
  "write_scheme digests cert more_certs after_certs after_data after_signer =
     (let certs = write_element (write_element cert @ more_certs);
          data = write_element (write_element digests @ certs @ after_certs)
      in write_element (write_element (data @ after_data) @ after_signer))"

lemma certificate_written:
  assumes "length (write_scheme digests cert mc ac ad sg) < 2 ^ 32"
  shows "certificate (write_scheme digests cert mc ac ad sg) = Some cert"
proof -
  let ?certs = "write_element cert @ mc"
  let ?data = "write_element digests @ write_element ?certs @ ac"
  let ?signer = "write_element ?data @ ad"
  let ?signers = "write_element ?signer @ sg"
  have e: "write_scheme digests cert mc ac ad sg = write_element ?signers"
    by (simp add: write_scheme_def Let_def)
  have l: "length (write_element x) = length x + 4" for x by (simp add: write_element_def)
  have b: "length ?signers < 2 ^ 32" using assms unfolding e by (simp add: l)
  then have u: "length ?signers + 8 < usize_bound" by (simp add: usize_bound_def)
  have 1: "first_element (write_element ?signers) = Some ?signers"
    using first_element_written [of ?signers "[]"] b u by (simp add: l)
  have 2: "first_element ?signers = Some ?signer"
    using first_element_written [of ?signer sg] b u by (simp add: l)
  have 3: "first_element ?signer = Some ?data"
    using first_element_written [of ?data ad] b u by (simp add: l)
  have 4: "element ?data 0 = Some digests"
    using element_written [of digests "[]" "write_element ?certs @ ac"] b u by (simp add: l)
  have 5: "element ?data (4 + length digests) = Some ?certs"
    using element_written [of ?certs "write_element digests" ac] b u by (simp add: l add.commute)
  have 6: "first_element ?certs = Some cert"
    using first_element_written [of cert mc] b u by (simp add: l)
  show ?thesis
    unfolding e certificate_def 1 Option.bind.simps 2 3 4
    using 5 6 u by (simp add: checked_add_def l)
qed

lemma pair_written:
  assumes "fst p < 2 ^ 32" and "length (pre @ write_pair p @ post) < usize_bound"
  shows "pair_at (pre @ write_pair p @ post) (length pre) = Some (fst p, snd p, length (pre @ write_pair p))"
proof -
  let ?b = "pre @ write_pair p @ post"
  have len: "length (snd p) + 4 < 2 ^ 64" using assms(2) by (simp add: write_pair_def usize_bound_def)
  have 1: "read_le 8 ?b (length pre) = Some (length (snd p) + 4)"
    using read_field_at [of "length (snd p) + 4" 8 pre "to_le 4 (fst p) @ snd p @ post" "length pre"] len assms(2)
    by (simp add: write_pair_def)
  have 2: "read_le 4 ?b (length pre + 8) = Some (fst p)"
    using read_field_at [of "fst p" 4 "pre @ to_le 8 (length (snd p) + 4)" "snd p @ post" "length pre + 8"] assms
    by (simp add: write_pair_def)
  have 3: "slice_range ?b (length pre + 12) (length pre + 8 + (length (snd p) + 4)) = Some (snd p)"
    by (simp add: slice_range_def write_pair_def)
  have c: "checked_add (length pre) 8 = Some (length pre + 8)" "checked_add (length pre) 12 = Some (length pre + 12)"
    "checked_add (length pre + 8) (length (snd p) + 4) = Some (length pre + 8 + (length (snd p) + 4))"
    using assms(2) by (simp_all add: write_pair_def)
  show ?thesis
    unfolding pair_at_def 1 c Option.bind.simps 2 3 by (simp add: write_pair_def)
qed

lemma pair_walk_written:
  assumes "\<forall>p \<in> set pairs. fst p < 2 ^ 32"
    and "length (pre @ concat (map write_pair pairs) @ post) < usize_bound"
    and "trailing = length (pre @ concat (map write_pair pairs))"
  shows "pair_walk (pre @ concat (map write_pair pairs) @ post) trailing (length pre) sc =
    Some (foldl (\<lambda>sc p. take_scheme (fst p) (snd p) sc) sc pairs)"
  using assms
proof (induction pairs arbitrary: pre sc)
  case Nil
  then show ?case by (simp add: pair_walk.simps)
next
  case (Cons p pairs)
  let ?b = "pre @ write_pair p @ (concat (map write_pair pairs) @ post)"
  have "pair_at ?b (length pre) = Some (fst p, snd p, length (pre @ write_pair p))"
    using Cons.prems by (intro pair_written) simp_all
  moreover have "length pre < trailing" using Cons.prems(3) by (simp add: write_pair_def)
  ultimately have "pair_walk ?b trailing (length pre) sc =
      pair_walk ?b trailing (length (pre @ write_pair p)) (take_scheme (fst p) (snd p) sc)"
    by (subst pair_walk.simps) simp
  then show ?case
    using Cons.IH [of "pre @ write_pair p" "take_scheme (fst p) (snd p) sc"] Cons.prems by simp
qed

text \<open>The first usable certificate of one scheme among the pairs.\<close>

definition scheme_certificate :: "nat \<Rightarrow> (nat \<times> bytes) list \<Rightarrow> bytes option" where
  "scheme_certificate identifier pairs =
     (case List.map_filter (\<lambda>p. if fst p = identifier then certificate (snd p) else None) pairs of
        [] \<Rightarrow> None | c # _ \<Rightarrow> Some c)"

lemma scheme_certificate_Cons:
  "scheme_certificate i (p # pairs) = or_else (if fst p = i then certificate (snd p) else None) (scheme_certificate i pairs)"
  by (simp add: scheme_certificate_def List.map_filter_simps split: option.splits)

lemma take_schemes:
  "foldl (\<lambda>sc p. take_scheme (fst p) (snd p) sc) sc pairs =
    \<lparr>sc_v31 = or_else (sc_v31 sc) (scheme_certificate SCHEME_V31 pairs),
     sc_v3 = or_else (sc_v3 sc) (scheme_certificate SCHEME_V3 pairs),
     sc_v2 = or_else (sc_v2 sc) (scheme_certificate SCHEME_V2 pairs)\<rparr>"
proof (induction pairs arbitrary: sc)
  case Nil
  have "or_else x None = x" for x :: "bytes option" by (cases x) auto
  then show ?case by (cases sc) (simp add: scheme_certificate_def List.map_filter_simps)
next
  case (Cons p pairs)
  have "SCHEME_V31 \<noteq> SCHEME_V3" "SCHEME_V31 \<noteq> SCHEME_V2" "SCHEME_V3 \<noteq> SCHEME_V2"
    by (simp_all add: SCHEME_V31_def SCHEME_V3_def SCHEME_V2_def)
  then show ?case
    unfolding foldl.simps Cons.IH by (cases sc) (auto simp: take_scheme_def scheme_certificate_Cons)
qed

lemma central_directory_selected:
  assumes "length tail < usize_bound"
  shows "central_directory_offset tail = Some off \<longleftrightarrow>
      (\<exists>at. is_end_record tail at \<and> (\<forall>later > at. \<not> is_end_record tail later) \<and> off = le_nat (take 4 (drop (at + 16) tail)))"
proof -
  have "is_end_record tail at \<Longrightarrow> at < length tail - 21" for at by (auto simp: is_end_record_def)
  then show ?thesis by (auto simp: central_directory_find [OF assms] find_rev_upt)
qed

lemma signer_certificate_written:
  assumes "\<forall>p \<in> set pairs. fst p < 2 ^ 32" and "length magic = 16" and "sz < 2 ^ 64"
    and "length (write_block sz pairs magic) \<le> MAX_BLOCK"
  shows "signer_certificate (write_block sz pairs magic) =
      or_else (or_else (scheme_certificate SCHEME_V31 pairs) (scheme_certificate SCHEME_V3 pairs))
        (scheme_certificate SCHEME_V2 pairs)"
proof -
  let ?body = "concat (map write_pair pairs)" and ?b = "write_block sz pairs magic"
  let ?t = "8 + length ?body"
  have u: "length ?b < usize_bound" using assms(4) by (simp add: MAX_BLOCK_def usize_bound_def)
  have lb: "length ?b = ?t + 24" using assms(2) by (simp add: write_block_def)
  have 1: "read_le 8 ?b 0 = Some sz"
    using read_field_at [of sz 8 "[]" "?body @ to_le 8 sz @ magic" 0] assms(3) u by (simp add: write_block_def)
  have 2: "read_le 8 ?b ?t = Some sz"
    using read_field_at [of sz 8 "to_le 8 sz @ ?body" magic ?t] assms(3) u by (simp add: write_block_def)
  have "pair_walk (to_le 8 sz @ ?body @ (to_le 8 sz @ magic)) ?t (length (to_le 8 sz)) no_schemes =
      Some (foldl (\<lambda>sc p. take_scheme (fst p) (snd p) sc) no_schemes pairs)"
    using assms(1) u by (intro pair_walk_written) (simp_all add: write_block_def)
  then have 3: "pair_walk ?b ?t 8 no_schemes = Some (foldl (\<lambda>sc p. take_scheme (fst p) (snd p) sc) no_schemes pairs)"
    by (simp add: write_block_def)
  have "checked_sub (length ?b) FOOTER = Some ?t" using lb by (simp add: FOOTER_def checked_sub_def)
  then show ?thesis
    using assms(4) 1 2 3
    by (simp add: signer_certificate_def take_schemes no_schemes_def del: checked_sub_Some)
qed

section \<open>Properties\<close>

text \<open>
  The end record that the search selects.  The answer is the offset field of the last position
  whose magic number is right and whose comment length reaches exactly the end of the bytes, and
  there is no answer when no position is such a record.  A magic number with any other comment
  length, as a decoy in a comment has, is never selected.
\<close>

lemma end_record_selected:
  assumes "length tail < 2 ^ 64"
  shows "central_directory_offset tail = Some off \<longleftrightarrow>
    (\<exists>at. at + 22 \<le> length tail \<and> take 4 (drop at tail) = [0x50, 0x4b, 0x05, 0x06]
       \<and> at + 22 + le_nat (take 2 (drop (at + 20) tail)) = length tail
       \<and> off = le_nat (take 4 (drop (at + 16) tail))
       \<and> (\<forall>later > at. \<not> is_end_record tail later))"
  using assms by (auto simp: central_directory_selected usize_bound_def is_end_record_def END_MAGIC_def)

lemma end_record_selected_example:
  "central_directory_offset ([0x50, 0x4b, 0x05, 0x06] @ replicate 12 0 @ to_le 4 77 @ to_le 2 0) = Some 77"
proof -
  let ?t = "[0x50, 0x4b, 0x05, 0x06] @ replicate 12 0 @ to_le 4 77 @ to_le 2 0 :: bytes"
  have l: "length ?t = 22" by simp
  then have "\<not> is_end_record ?t later" if "0 < later" for later
    using that unfolding is_end_record_def by linarith
  moreover have "take 4 (drop 0 ?t) = [0x50, 0x4b, 0x05, 0x06]" by simp
  moreover have "le_nat (take 2 (drop 20 ?t)) = 0" "le_nat (take 4 (drop 16 ?t)) = 77"
    by (simp_all add: le_nat_to_le del: to_le.simps)
  ultimately show ?thesis
    using end_record_selected [of ?t 77] l by (auto intro!: exI [of _ 0])
qed

text \<open>
  The signer certificate.  In a block whose two sizes agree, the reader walks every pair in any
  order and returns the first usable certificate of scheme 3.1, else of scheme 3, else of scheme 2;
  a scheme value written as the format lays it out gives its first certificate.  A block whose two
  sizes disagree, or that is longer than the bound, gives none.
\<close>

lemma signer_certificate_exact:
  assumes "\<forall>p \<in> set pairs. fst p < 2 ^ 32" and "length magic = 16" and "sz < 2 ^ 64"
    and "length (write_block sz pairs magic) \<le> MAX_BLOCK"
    and "length (write_scheme digests cert mc ac ad sg) < 2 ^ 32"
  shows "signer_certificate (write_block sz pairs magic) =
      or_else (or_else (scheme_certificate SCHEME_V31 pairs) (scheme_certificate SCHEME_V3 pairs))
        (scheme_certificate SCHEME_V2 pairs)
    \<and> certificate (write_scheme digests cert mc ac ad sg) = Some cert"
  by (rule conjI [OF signer_certificate_written [OF assms(1-4)] certificate_written [OF assms(5)]])

lemma signer_certificate_exact_example:
  "signer_certificate (write_block 9 [(0x7109871a, write_scheme [] [1, 2] [] [] [] [])] (replicate 16 0)) = Some [1, 2]"
proof -
  let ?v = "write_scheme [] [1, 2] [] [] [] []" and ?p = "(0x7109871a :: nat, write_scheme [] [1, 2] [] [] [] [])"
  have lv: "length ?v = 26" by (simp add: write_scheme_def write_element_def Let_def)
  have 1: "signer_certificate (write_block 9 [?p] (replicate 16 0)) =
      or_else (or_else (scheme_certificate SCHEME_V31 [?p]) (scheme_certificate SCHEME_V3 [?p])) (scheme_certificate SCHEME_V2 [?p])
    \<and> certificate ?v = Some [1, 2]"
    using lv by (intro signer_certificate_exact) (simp_all add: write_block_def write_pair_def MAX_BLOCK_def)
  then show ?thesis
    by (simp add: scheme_certificate_def List.map_filter_simps SCHEME_V31_def SCHEME_V3_def SCHEME_V2_def)
qed

text \<open>
  The two bounds disagree at the edge: \<open>block_length\<close> bounds the size field, which leaves out eight
  bytes of the block, and \<open>signer_certificate\<close> bounds the whole block.
\<close>

lemma block_bounds_disagree:
  "block_length (to_le 8 MAX_BLOCK @ BLOCK_MAGIC) = Some (MAX_BLOCK + 8)
   \<and> (length block = MAX_BLOCK + 8 \<longrightarrow> signer_certificate block = None)"
proof -
  have "read_le 8 (to_le 8 MAX_BLOCK @ BLOCK_MAGIC) 0 = Some MAX_BLOCK"
    using read_field_at [of MAX_BLOCK 8 "[]" BLOCK_MAGIC 0] by (simp add: MAX_BLOCK_def BLOCK_MAGIC_def usize_bound_def)
  moreover have "slice_range (to_le 8 MAX_BLOCK @ BLOCK_MAGIC) 8 24 = Some BLOCK_MAGIC"
    by (simp add: slice_range_def BLOCK_MAGIC_def del: to_le.simps)
  moreover have "length BLOCK_MAGIC = 16" by (simp add: BLOCK_MAGIC_def)
  ultimately show ?thesis
    by (simp add: block_length_def signer_certificate_def FOOTER_def checked_sub_def checked_add_def MAX_BLOCK_def usize_bound_def del: to_le.simps)
qed

end
