(* ===== verification/Fid_Android.thy ===== *)
theory Fid_Android
  imports Fid_Linux Fid_Apk
begin

text \<open>
  The Android probe (\<open>probe/fidelity-probe-android\<close>).  The property store, the files, the loader,
  the memory and the virtual machine are arguments.  The judgments on the properties are the plain
  functions of the source; the theorems state for each detector what a clean answer means, and that
  the certificate of an archive laid out by the format is the one that the identity check compares.
\<close>

section \<open>The operating system\<close>

text \<open>An open file: its length, and a seek followed by an exact read.\<close>

record archive_file =
  af_length :: "nat option"
  af_read :: "nat \<Rightarrow> nat \<Rightarrow> bytes option"

text \<open>
  \<open>an_property\<close>: the length that the interface returns and the buffer that it filled.
  \<open>an_created\<close>: the result, the count and the machine of \<open>JNI_GetCreatedJavaVMs\<close>.
  \<open>an_interface\<close>: for the machine at an address, no table, or the results of its two calls.
\<close>

record android_os =
  an_java_vm :: u64
  an_property :: "string \<Rightarrow> int \<times> bytes"
  an_read_to_string :: "string \<Rightarrow> string io"
  an_open :: "string \<Rightarrow> archive_file option"
  an_arch :: arch
  an_anchor :: u64
  an_images :: "phdr_info list"
  an_memory :: memory
  an_created :: "int \<times> int \<times> u64"
  an_interface :: "u64 \<Rightarrow> (int \<times> int) option"

section \<open>Properties\<close>

definition property_read :: "android_os \<Rightarrow> string \<Rightarrow> string option" where
  "property_read os name = (case an_property os name of (written, buffer) \<Rightarrow>
     if written < 0 then None
     else Option.bind (slice_range buffer 0 (nat written)) (\<lambda>t.
       if t = [] then None else text_of t))"

section \<open>Verified boot\<close>

datatype boot_state = Green | Yellow | Orange | Red
datatype lock_state = Locked | Unlocked

definition VERIFIED_BOOT_STATE :: string where "VERIFIED_BOOT_STATE = ''ro.boot.verifiedbootstate''"
definition VBMETA_DEVICE_STATE :: string where "VBMETA_DEVICE_STATE = ''ro.boot.vbmeta.device_state''"
definition FLASH_LOCKED :: string where "FLASH_LOCKED = ''ro.boot.flash.locked''"

definition NO_BOOT_STATE :: string where
  "NO_BOOT_STATE = ''the property store did not state ro.boot.verifiedbootstate''"
definition NO_LOCK_STATE :: string where
  "NO_LOCK_STATE = ''the property store did not state a bootloader lock''"
definition UNKNOWN_BOOT_STATE :: string where
  "UNKNOWN_BOOT_STATE = ''the property store stated an unknown verified-boot value''"
definition UNKNOWN_LOCK_STATE :: string where
  "UNKNOWN_LOCK_STATE = ''the property store stated an unknown bootloader lock value''"
definition LOCK_SOURCES_CONFLICT :: string where
  "LOCK_SOURCES_CONFLICT = ''the two bootloader lock properties disagree''"
definition BOOT_AND_LOCK_CONFLICT :: string where
  "BOOT_AND_LOCK_CONFLICT = ''the boot result and the bootloader lock disagree''"
definition YELLOW_BOOT :: string where
  "YELLOW_BOOT = ''Android reports verifiedbootstate=yellow, so another root of trust signed the system''"
definition ORANGE_BOOT :: string where
  "ORANGE_BOOT = ''Android reports verifiedbootstate=orange and an unlocked bootloader''"
definition RED_BOOT :: string where
  "RED_BOOT = ''Android reports verifiedbootstate=red, so boot verification failed''"

definition parse_boot :: "string option \<Rightarrow> string + boot_state" where
  "parse_boot v = (case v of
       None \<Rightarrow> Inl NO_BOOT_STATE
     | Some s \<Rightarrow>
         if s = ''green'' then Inr Green
         else if s = ''yellow'' then Inr Yellow
         else if s = ''orange'' then Inr Orange
         else if s = ''red'' then Inr Red
         else Inl UNKNOWN_BOOT_STATE)"

definition parse_lock :: "string option \<Rightarrow> string \<Rightarrow> string \<Rightarrow> string + lock_state option" where
  "parse_lock v locked unlocked = (case v of
       None \<Rightarrow> Inr None
     | Some s \<Rightarrow>
         if s = locked then Inr (Some Locked)
         else if s = unlocked then Inr (Some Unlocked)
         else Inl UNKNOWN_LOCK_STATE)"

definition read_lock :: "string option \<Rightarrow> string option \<Rightarrow> string + lock_state" where
  "read_lock vbmeta flash = (case parse_lock vbmeta ''locked'' ''unlocked'' of
       Inl e \<Rightarrow> Inl e
     | Inr primary \<Rightarrow> (case parse_lock flash ''1'' ''0'' of
           Inl e \<Rightarrow> Inl e
         | Inr compatibility \<Rightarrow> (case (primary, compatibility) of
               (Some left, Some right) \<Rightarrow> if left \<noteq> right then Inl LOCK_SOURCES_CONFLICT else Inr left
             | (Some state, None) \<Rightarrow> Inr state
             | (None, Some state) \<Rightarrow> Inr state
             | (None, None) \<Rightarrow> Inl NO_LOCK_STATE)))"

definition judge_boot :: "string option \<Rightarrow> string option \<Rightarrow> string option \<Rightarrow> string + boot_verification" where
  "judge_boot boot vbmeta flash = (case parse_boot boot of
       Inl e \<Rightarrow> Inl e
     | Inr b \<Rightarrow> (case read_lock vbmeta flash of
           Inl e \<Rightarrow> Inl e
         | Inr lock \<Rightarrow> (case (b, lock) of
               (Green, Locked) \<Rightarrow> Inr Verified
             | (Orange, Unlocked) \<Rightarrow> Inr (Unverified (bounded_text_new ORANGE_BOOT))
             | (Yellow, _) \<Rightarrow> Inr (Unverified (bounded_text_new YELLOW_BOOT))
             | (Red, _) \<Rightarrow> Inr (Unverified (bounded_text_new RED_BOOT))
             | (Green, Unlocked) \<Rightarrow> Inl BOOT_AND_LOCK_CONFLICT
             | (Orange, Locked) \<Rightarrow> Inl BOOT_AND_LOCK_CONFLICT)))"

definition judged :: "string + 'a \<Rightarrow> 'a observation" where
  "judged r = (case r of Inr x \<Rightarrow> Fact x | Inl reason \<Rightarrow> obs_failed reason)"

definition android_boot_verification :: "android_os \<Rightarrow> boot_verification observation" where
  "android_boot_verification os = judged (judge_boot (property_read os VERIFIED_BOOT_STATE)
     (property_read os VBMETA_DEVICE_STATE) (property_read os FLASH_LOCKED))"

section \<open>The system build\<close>

definition DEBUGGABLE :: string where "DEBUGGABLE = ''ro.debuggable''"
definition TAGS :: string where "TAGS = ''ro.build.tags''"
definition DEBUGGABLE_OPEN :: string where "DEBUGGABLE_OPEN = ''1''"
definition DEVELOPMENT_KEYS :: "string list" where "DEVELOPMENT_KEYS = [''test-keys'', ''dev-keys'']"
definition DEBUGGER_ALLOWED :: string where
  "DEBUGGER_ALLOWED = ''the system reports ro.debuggable=1, so it allows a debugger on any application''"
definition NOT_A_RELEASE_KEY :: string where
  "NOT_A_RELEASE_KEY = ''the system reports ro.build.tags without a vendor release key''"
definition NO_BUILD_PROPERTY :: string where
  "NO_BUILD_PROPERTY = ''the property store did not state both ro.debuggable and ro.build.tags''"

definition names_a_development_key :: "string \<Rightarrow> bool" where
  "names_a_development_key tags = list_ex (\<lambda>marker. find_str tags marker \<noteq> None) DEVELOPMENT_KEYS"

definition judge_build :: "string option \<Rightarrow> string option \<Rightarrow> string + system_build" where
  "judge_build debuggable tags =
     (if debuggable = Some DEBUGGABLE_OPEN then Inr (Development (bounded_text_new DEBUGGER_ALLOWED))
      else if is_some_and names_a_development_key tags then Inr (Development (bounded_text_new NOT_A_RELEASE_KEY))
      else if debuggable = None \<or> tags = None then Inl NO_BUILD_PROPERTY
      else Inr Released)"

definition android_system_build :: "android_os \<Rightarrow> system_build observation" where
  "android_system_build os = judged (judge_build (property_read os DEBUGGABLE) (property_read os TAGS))"

section \<open>The machine\<close>

definition BOOT :: string where "BOOT = ''ro.boot.qemu''"
definition CHARACTERISTICS :: string where "CHARACTERISTICS = ''ro.build.characteristics''"
definition BOARD :: string where "BOARD = ''ro.hardware''"
definition BOOTED_BY_AN_EMULATOR :: string where "BOOTED_BY_AN_EMULATOR = ''1''"
definition EMULATOR :: string where "EMULATOR = ''emulator''"
definition VIRTUAL_BOARDS :: "string list" where "VIRTUAL_BOARDS = [''goldfish'', ''ranchu'']"
definition BOOT_STATES_AN_EMULATOR :: string where
  "BOOT_STATES_AN_EMULATOR = ''the bootloader reports ro.boot.qemu=1''"
definition BUILD_STATES_AN_EMULATOR :: string where
  "BUILD_STATES_AN_EMULATOR = ''the build names ro.build.characteristics=emulator''"
definition BOARD_IS_VIRTUAL :: string where
  "BOARD_IS_VIRTUAL = ''the system names a board that only an emulator supplies''"
definition NO_BOARD_PROPERTY :: string where
  "NO_BOARD_PROPERTY = ''the property store did not state ro.hardware''"

definition names_an_emulator :: "string \<Rightarrow> bool" where
  "names_an_emulator characteristics = list_ex (\<lambda>shape. shape = EMULATOR) (split_char CHR '','' characteristics)"

definition judge_machine :: "string option \<Rightarrow> string option \<Rightarrow> string option \<Rightarrow> string + machine_host" where
  "judge_machine boot characteristics board =
     (if boot = Some BOOTED_BY_AN_EMULATOR then Inr (Simulated (bounded_text_new BOOT_STATES_AN_EMULATOR))
      else if is_some_and names_an_emulator characteristics
        then Inr (Simulated (bounded_text_new BUILD_STATES_AN_EMULATOR))
      else if is_some_and (\<lambda>name. name \<in> set VIRTUAL_BOARDS) board
        then Inr (Simulated (bounded_text_new BOARD_IS_VIRTUAL))
      else if board = None then Inl NO_BOARD_PROPERTY
      else Inr Hardware)"

definition android_machine_host :: "android_os \<Rightarrow> machine_host observation" where
  "android_machine_host os = judged (judge_machine (property_read os BOOT)
     (property_read os CHARACTERISTICS) (property_read os BOARD))"

section \<open>The archive\<close>

definition NO_IMAGE :: string where "NO_IMAGE = ''the loader names no image that holds Fidelity''"
definition NO_ARCHIVE :: string where "NO_ARCHIVE = ''this process maps no application archive''"
definition NO_MAPPINGS :: string where "NO_MAPPINGS = ''the process mapping table could not be read''"
definition ARCHIVE_UNREADABLE :: string where "ARCHIVE_UNREADABLE = ''the application archive could not be read''"
definition NO_DIRECTORY :: string where "NO_DIRECTORY = ''the application archive names no central directory''"
definition NO_BLOCK :: string where "NO_BLOCK = ''the application archive carries no signing block''"
definition NO_CERTIFICATE :: string where "NO_CERTIFICATE = ''the signing block names no certificate this probe reads''"

definition read_at :: "archive_file \<Rightarrow> nat \<Rightarrow> nat \<Rightarrow> string + bytes" where
  "read_at archive at sz =
     (if MAX_BLOCK < sz then Inl ARCHIVE_UNREADABLE
      else case af_read archive at sz of None \<Rightarrow> Inl ARCHIVE_UNREADABLE | Some bs \<Rightarrow> Inr bs)"

definition archive_certificate :: "archive_file \<Rightarrow> string + bytes" where
  "archive_certificate archive = (case af_length archive of
       None \<Rightarrow> Inl ARCHIVE_UNREADABLE
     | Some len \<Rightarrow>
         let tail_size = min len MAX_TAIL in
         (case read_at archive (len - tail_size) tail_size of Inl e \<Rightarrow> Inl e | Inr tail \<Rightarrow>
         (case central_directory_offset tail of None \<Rightarrow> Inl NO_DIRECTORY | Some directory \<Rightarrow>
         (case checked_sub directory 24 of None \<Rightarrow> Inl NO_BLOCK | Some footer_at \<Rightarrow>
         (case read_at archive footer_at 24 of Inl e \<Rightarrow> Inl e | Inr footer \<Rightarrow>
         (case block_length footer of None \<Rightarrow> Inl NO_BLOCK | Some sz \<Rightarrow>
         (case checked_sub directory sz of None \<Rightarrow> Inl NO_BLOCK | Some block_at \<Rightarrow>
         (case read_at archive block_at sz of Inl e \<Rightarrow> Inl e | Inr block \<Rightarrow>
         (case signer_certificate block of None \<Rightarrow> Inl NO_CERTIFICATE | Some cert \<Rightarrow> Inr cert)))))))))"

definition os_signer_certificate :: "android_os \<Rightarrow> string + bytes" where
  "os_signer_certificate os = (case image_path (an_anchor os) (an_images os) of
       None \<Rightarrow> Inl NO_IMAGE
     | Some img \<Rightarrow> (case an_read_to_string os MAPS_PATH of
           Inl _ \<Rightarrow> Inl NO_MAPPINGS
         | Inr text \<Rightarrow> (case package_archive_for_image text img of
               None \<Rightarrow> Inl NO_ARCHIVE
             | Some path \<Rightarrow> (case an_open os path of
                   None \<Rightarrow> Inl ARCHIVE_UNREADABLE
                 | Some archive \<Rightarrow> archive_certificate archive))))"

section \<open>Identity\<close>

definition ANY_CERTIFICATE_IS_VALID :: string where
  "ANY_CERTIFICATE_IS_VALID = ''Android accepts any self-signed certificate, so the platform anchors no signer and states no trust''"
definition android_accepted_gap :: string where
  "android_accepted_gap = ''the host accepted no identity check on Android''"
definition android_no_host_value :: string where
  "android_no_host_value = ''the host stated no identity value for Android''"
definition ANOTHER_CERTIFICATE :: string where
  "ANOTHER_CERTIFICATE = ''the archive that this process runs from carries another signing certificate''"

definition android_digest :: "android_os \<Rightarrow> string + bytes" where
  "android_digest os = map_sum id sha256 (os_signer_certificate os)"

definition certificate_label :: "string \<Rightarrow> string" where
  "certificate_label h = ''certificate sha256 '' @ (case str_get h 0 8 of None \<Rightarrow> h | Some t \<Rightarrow> t)"

definition android_compare :: "bytes \<Rightarrow> bytes \<Rightarrow> identity_match" where
  "android_compare found pinned =
     (if found = pinned then Same else Different (bounded_text_new ANOTHER_CERTIFICATE))"

definition android_code_identity :: "android_os \<Rightarrow> code_identity observation" where
  "android_code_identity os =
     Fact \<lparr>ci_trust = Unavailable ANY_CERTIFICATE_IS_VALID,
           ci_signer = (case android_digest os of
               Inr digest \<Rightarrow> Some (signer_new (as_bytes (hex digest)) (certificate_label (hex digest)))
             | Inl _ \<Rightarrow> None)\<rparr>"

definition android_identity_match :: "android_os \<Rightarrow> expected_identity \<Rightarrow> identity_match observation" where
  "android_identity_match os expected = (case ei_android expected of
       Some (Value (CertificateSha256 pinned)) \<Rightarrow> (case android_digest os of
           Inr found \<Rightarrow> Fact (android_compare found pinned)
         | Inl reason \<Rightarrow> obs_failed reason)
     | Some AcceptUnsupported \<Rightarrow> ObsUnsupported android_accepted_gap
     | None \<Rightarrow> ObsUnsupported android_no_host_value)"

section \<open>The virtual machine\<close>

definition JNI_OK :: int where "JNI_OK = 0"
definition JNI_EDETACHED :: int where "JNI_EDETACHED = - 2"

datatype attached = Already | AsDaemon | AttachFailed string

definition jvm_running :: "android_os \<Rightarrow> u64 option" where
  "jvm_running os = (case an_created os of (result, found, machine) \<Rightarrow>
     if result \<noteq> JNI_OK \<or> found < 1 \<or> machine = 0 then None else Some machine)"

definition attach_as_daemon :: "android_os \<Rightarrow> u64 \<Rightarrow> attached" where
  "attach_as_daemon os address =
     (if address = 0 then AttachFailed ''the host supplied no virtual machine''
      else case an_interface os address of
        None \<Rightarrow> AttachFailed ''the virtual machine exposed no interface table''
      | Some (present, result) \<Rightarrow>
          if present = JNI_OK then Already
          else if present \<noteq> JNI_EDETACHED then AttachFailed ''the virtual machine refused the requested JNI version''
          else if result = JNI_OK then AsDaemon
          else AttachFailed ''the virtual machine refused the attachment'')"

definition ATTACHED :: string where "ATTACHED = ''the worker thread joined the virtual machine as a daemon''"
definition ALREADY :: string where "ALREADY = ''the worker thread already belonged to the virtual machine''"
definition NO_HANDLE :: string where "NO_HANDLE = ''this process runs no virtual machine, so no Java interface answers''"

definition android_prepare_worker :: "android_os \<Rightarrow> worker_setup" where
  "android_prepare_worker os =
     (let address = (if an_java_vm os = 0 then (case jvm_running os of None \<Rightarrow> 0 | Some a \<Rightarrow> a) else an_java_vm os)
      in if address = 0 then SetupFailed (bounded_text_new NO_HANDLE)
         else case attach_as_daemon os address of
           AsDaemon \<Rightarrow> Prepared (bounded_text_new ATTACHED)
         | Already \<Rightarrow> Prepared (bounded_text_new ALREADY)
         | AttachFailed detail \<Rightarrow> SetupFailed (bounded_text_new detail))"

section \<open>The environment\<close>

definition android_tracer_state :: "android_os \<Rightarrow> tracer_state observation" where
  "android_tracer_state os = procfs_tracer_state (status_read (an_read_to_string os))"

definition android_code_origin :: "android_os \<Rightarrow> code_origin observation" where
  "android_code_origin os = procfs_code_origin (maps_read (an_read_to_string os))"

definition android_code_regions :: "android_os \<Rightarrow> code_regions observation" where
  "android_code_regions os = procfs_code_regions (maps_read (an_read_to_string os))"

definition android_image_catalog_state :: "android_os \<Rightarrow> image_catalog_state observation" where
  "android_image_catalog_state os =
     procfs_image_catalog_state (maps_read (an_read_to_string os)) (catalog_read (an_images os))"

definition android_dispatch_targets :: "android_os \<Rightarrow> dispatch_targets observation exec" where
  "android_dispatch_targets os =
     dispatch_observation (android_dispatch_read (an_arch os) (an_anchor os) (an_memory os) (an_images os))"

definition android_environment :: "android_os \<Rightarrow> local_agent_state observation exec \<Rightarrow> environment" where
  "android_environment os agent =
     (default_environment Android agent)
      \<lparr>en_code_identity := Returns (android_code_identity os),
       en_identity_match := (\<lambda>expected. Returns (android_identity_match os expected)),
       en_code_regions := Returns (android_code_regions os),
       en_tracer_state := Returns (android_tracer_state os),
       en_code_origin := Returns (android_code_origin os),
       en_dispatch_targets := android_dispatch_targets os,
       en_image_catalog_state := Returns (android_image_catalog_state os),
       en_system_build := Returns (android_system_build os),
       en_boot_verification := Returns (android_boot_verification os),
       en_machine_host := Returns (android_machine_host os),
       en_prepare_worker := Returns (android_prepare_worker os)\<rparr>"

section \<open>Clean facts\<close>

lemma judged_Fact [simp]: "judged r = Fact x \<longleftrightarrow> r = Inr x"
  by (auto simp: judged_def obs_failed_def split: sum.splits)

lemma read_lock_Locked:
  "read_lock vbmeta flash = Inr Locked \<longleftrightarrow>
     (vbmeta, flash) \<in> {(Some ''locked'', Some ''1''), (Some ''locked'', None), (None, Some ''1'')}"
  by (auto simp: read_lock_def parse_lock_def split: option.splits if_splits)

lemma judge_boot_Verified:
  "judge_boot boot vbmeta flash = Inr Verified \<longleftrightarrow> boot = Some ''green'' \<and> read_lock vbmeta flash = Inr Locked"
  by (auto simp: judge_boot_def parse_boot_def split: sum.splits option.splits if_splits boot_state.splits lock_state.splits)

lemma judge_build_Released:
  "judge_build debuggable tags = Inr Released \<longleftrightarrow>
     (\<exists>d t. debuggable = Some d \<and> d \<noteq> ''1'' \<and> tags = Some t \<and> \<not> names_a_development_key t)"
  by (auto simp: judge_build_def DEBUGGABLE_OPEN_def is_some_and_def split: option.splits)

lemma names_a_development_key_iff:
  "names_a_development_key t \<longleftrightarrow> (\<exists>u v. t = u @ ''test-keys'' @ v \<or> t = u @ ''dev-keys'' @ v)"
  by (auto simp: names_a_development_key_def DEVELOPMENT_KEYS_def find_str_iff)

lemma judge_machine_Hardware:
  "judge_machine boot characteristics board = Inr Hardware \<longleftrightarrow>
     boot \<noteq> Some ''1'' \<and> (case characteristics of None \<Rightarrow> True | Some c \<Rightarrow> ''emulator'' \<notin> set (split_char CHR '','' c))
     \<and> (\<exists>b. board = Some b \<and> b \<notin> {''goldfish'', ''ranchu''})"
  by (auto simp: judge_machine_def BOOTED_BY_AN_EMULATOR_def names_an_emulator_def EMULATOR_def VIRTUAL_BOARDS_def
      is_some_and_def list_ex_iff split: option.splits)

lemma android_identity_Same:
  "android_identity_match os expected = Fact Same \<longleftrightarrow>
     (\<exists>cert. os_signer_certificate os = Inr cert \<and> ei_android expected = Some (Value (CertificateSha256 (sha256 cert))))"
  by (cases "os_signer_certificate os")
    (auto simp: android_identity_match_def android_digest_def android_compare_def obs_failed_def
      split: option.splits choice.splits certificate_sha256.splits if_splits)

text \<open>A property that the store states: a length that is not negative, inside the buffer, and valid text.\<close>

definition states_property :: "android_os \<Rightarrow> string \<Rightarrow> string \<Rightarrow> bool" where
  "states_property os name v \<longleftrightarrow> (\<exists>written buffer. an_property os name = (int written, buffer)
     \<and> 0 < written \<and> written \<le> length buffer \<and> text_of (take written buffer) = Some v)"

lemma property_read_Some: "property_read os name = Some v \<longleftrightarrow> states_property os name v"
proof -
  obtain w buffer where p: "an_property os name = (w, buffer)" by fastforce
  show ?thesis
  proof (cases "w < 0")
    case True
    with p show ?thesis by (auto simp: property_read_def states_property_def)
  next
    case False
    then obtain n where "w = int n" by (metis nonneg_int_cases not_less)
    with p show ?thesis
      by (auto simp: property_read_def states_property_def slice_range_def split: if_splits)
  qed
qed

lemma property_read_case:
  "(case property_read os name of None \<Rightarrow> True | Some c \<Rightarrow> P c) \<longleftrightarrow> (\<forall>c. states_property os name c \<longrightarrow> P c)"
  unfolding property_read_Some [symmetric] by (cases "property_read os name") auto

lemma property_read_None: "property_read os name = None \<longleftrightarrow> (\<nexists>v. states_property os name v)"
  unfolding property_read_Some [symmetric] by auto

text \<open>At least one of the two lock properties is stated, and each that is stated says locked.\<close>

definition lock_stated :: "android_os \<Rightarrow> bool" where
  "lock_stated os \<longleftrightarrow>
     states_property os ''ro.boot.vbmeta.device_state'' ''locked''
       \<and> (states_property os ''ro.boot.flash.locked'' ''1'' \<or> (\<nexists>v. states_property os ''ro.boot.flash.locked'' v))
     \<or> (\<nexists>v. states_property os ''ro.boot.vbmeta.device_state'' v) \<and> states_property os ''ro.boot.flash.locked'' ''1''"

text \<open>The certificate of the archive that the image of this process was mapped from.\<close>

definition archive_signed_with :: "android_os \<Rightarrow> bytes \<Rightarrow> bool" where
  "archive_signed_with os cert \<longleftrightarrow> (\<exists>img text path archive. image_path (an_anchor os) (an_images os) = Some img
     \<and> an_read_to_string os MAPS_PATH = Inr text \<and> package_archive_for_image text img = Some path
     \<and> an_open os path = Some archive \<and> archive_certificate archive = Inr cert)"

lemma os_signer_certificate_Inr: "os_signer_certificate os = Inr cert \<longleftrightarrow> archive_signed_with os cert"
  by (auto simp: os_signer_certificate_def archive_signed_with_def split: option.splits sum.splits)

text \<open>
  C30.  What a clean answer of an Android process means.  A property counts as stated when the store
  returned a positive length inside its buffer and the text is valid.  Verified boot is clean exactly
  for the green state with a lock that at least one property states and none contradicts; the build
  exactly when both properties are stated, the debug setting is not open and no development key is
  named; the machine exactly when the board is stated, is not a virtual one, and no other property
  names an emulator; the expected identity exactly when the archive of the image was found and read
  and the digest of its certificate is the pinned one.  Platform trust is always the stated gap.  The
  three detectors on the process filesystem (tracer, code, catalog) are clean exactly as on Linux.
\<close>

theorem android_clean_exact:
  "(verified_boot (android_environment os agent) now = Returns Clean \<longleftrightarrow>
      states_property os ''ro.boot.verifiedbootstate'' ''green''
      \<and> lock_stated os)
   \<and> (system_build_detector (android_environment os agent) now = Returns Clean \<longleftrightarrow>
      (\<exists>d t. states_property os ''ro.debuggable'' d \<and> d \<noteq> ''1'' \<and> states_property os ''ro.build.tags'' t
        \<and> (\<nexists>u v. t = u @ ''test-keys'' @ v \<or> t = u @ ''dev-keys'' @ v)))
   \<and> (machine_host_detector (android_environment os agent) now = Returns Clean \<longleftrightarrow>
      \<not> states_property os ''ro.boot.qemu'' ''1''
      \<and> (\<nexists>c. states_property os ''ro.build.characteristics'' c \<and> ''emulator'' \<in> set (split_char CHR '','' c))
      \<and> (\<exists>b. states_property os ''ro.hardware'' b \<and> b \<notin> {''goldfish'', ''ranchu''}))
   \<and> (expected_identity_detector (android_environment os agent) (Some expected) now = Returns Clean \<longleftrightarrow>
      (\<exists>cert. archive_signed_with os cert \<and> ei_android expected = Some (Value (CertificateSha256 (sha256 cert)))))
   \<and> platform_trust_detector (android_environment os agent) now = Returns (Unsupported ANY_CERTIFICATE_IS_VALID)
   \<and> (tracer_present (android_environment os agent) now = Returns Clean \<longleftrightarrow>
      (\<exists>text. an_read_to_string os STATUS_PATH = Inr text \<and> names_no_tracer text))
   \<and> (unaccounted_code (android_environment os agent) now = Returns Clean \<longleftrightarrow>
      (\<exists>text. an_read_to_string os MAPS_PATH = Inr text \<and> file_backed text))
   \<and> (image_catalog (android_environment os agent) now = Returns Clean \<longleftrightarrow>
      (\<exists>text ranges. an_read_to_string os MAPS_PATH = Inr text \<and> catalog_read (an_images os) = Inr ranges
         \<and> in_loaded_ranges text ranges))"
proof -
  have boot: "android_boot_verification os = Fact Verified \<longleftrightarrow>
      states_property os ''ro.boot.verifiedbootstate'' ''green''
      \<and> lock_stated os"
    by (auto simp: android_boot_verification_def judge_boot_Verified read_lock_Locked property_read_Some
        property_read_None lock_stated_def VERIFIED_BOOT_STATE_def VBMETA_DEVICE_STATE_def FLASH_LOCKED_def)
  have build: "android_system_build os = Fact Released \<longleftrightarrow>
      (\<exists>d t. states_property os ''ro.debuggable'' d \<and> d \<noteq> ''1'' \<and> states_property os ''ro.build.tags'' t
        \<and> (\<nexists>u v. t = u @ ''test-keys'' @ v \<or> t = u @ ''dev-keys'' @ v))"
    by (simp add: android_system_build_def judge_build_Released property_read_Some names_a_development_key_iff
        DEBUGGABLE_def TAGS_def)
  have machine: "android_machine_host os = Fact Hardware \<longleftrightarrow>
      \<not> states_property os ''ro.boot.qemu'' ''1''
      \<and> (\<nexists>c. states_property os ''ro.build.characteristics'' c \<and> ''emulator'' \<in> set (split_char CHR '','' c))
      \<and> (\<exists>b. states_property os ''ro.hardware'' b \<and> b \<notin> {''goldfish'', ''ranchu''})"
    unfolding android_machine_host_def judged_Fact judge_machine_Hardware BOOT_def CHARACTERISTICS_def BOARD_def
      property_read_case property_read_Some by blast
  show ?thesis
    by (simp add: detector_clean android_environment_def boot build machine android_identity_Same
        os_signer_certificate_Inr android_tracer_state_def android_code_origin_def android_image_catalog_state_def
        procfs_tracer_clean procfs_origin_clean procfs_catalog_clean platform_trust_detector_def android_code_identity_def
        del: split_paired_Ex)
qed

section \<open>An archive laid out by the format\<close>

definition regular_file :: "bytes \<Rightarrow> archive_file" where
  "regular_file bs = \<lparr>af_length = Some (length bs),
     af_read = (\<lambda>at n. if n = 0 \<or> at + n \<le> length bs then Some (take n (drop at bs)) else None)\<rparr>"

text \<open>The end record: four counters that no reader here looks at, the offset, and the comment.\<close>

definition write_end :: "bytes \<Rightarrow> nat \<Rightarrow> bytes \<Rightarrow> bytes" where
  "write_end counters off comment =
     END_MAGIC @ counters @ to_le 4 off @ to_le 2 (length comment) @ comment"

definition signed_block :: "(nat \<times> bytes) list \<Rightarrow> bytes" where
  "signed_block pairs = write_block (length (concat (map write_pair pairs)) + 24) pairs BLOCK_MAGIC"

lemma signed_block_length: "length (signed_block pairs) = length (concat (map write_pair pairs)) + 32"
  by (simp add: signed_block_def write_block_def BLOCK_MAGIC_def)

lemma is_end_record_append: "is_end_record (p @ e) (length p + k) = is_end_record e k"
  by (auto simp: is_end_record_def)

lemma end_record_written:
  assumes "length counters = 12" and "off < 2 ^ 32" and "length comment \<le> MAX_COMMENT"
    and "\<forall>k > 0. \<not> is_end_record (write_end counters off comment) k"
    and "length (p @ write_end counters off comment) < usize_bound"
  shows "central_directory_offset (p @ write_end counters off comment) = Some off"
proof -
  let ?e = "write_end counters off comment"
  have fields: "take 4 ?e = END_MAGIC" "take 2 (drop 20 ?e) = to_le 2 (length comment)"
      "take 4 (drop 16 ?e) = to_le 4 off" "length ?e = 22 + length comment"
    using assms(1) by (simp_all add: write_end_def END_MAGIC_def)
  have "is_end_record ?e 0"
    using fields assms(3) by (simp add: is_end_record_def le_nat_to_le MAX_COMMENT_def)
  then have here: "is_end_record (p @ ?e) (length p)" using is_end_record_append [of p ?e 0] by simp
  have later: "\<not> is_end_record (p @ ?e) k" if "length p < k" for k
    using assms(4) is_end_record_append [of p ?e "k - length p"] that by simp
  have "le_nat (take 4 (drop (length p + 16) (p @ ?e))) = off"
    using fields(3) assms(2) by (simp add: le_nat_to_le)
  with here later show ?thesis unfolding central_directory_selected [OF assms(5)] by metis
qed

lemma block_length_written:
  assumes "sz \<le> MAX_BLOCK"
  shows "block_length (to_le 8 sz @ BLOCK_MAGIC) = Some (sz + 8)"
proof -
  have "read_le 8 (to_le 8 sz @ BLOCK_MAGIC) 0 = Some sz"
    using read_field_at [of sz 8 "[]" BLOCK_MAGIC 0] assms by (simp add: MAX_BLOCK_def BLOCK_MAGIC_def usize_bound_def)
  moreover have "slice_range (to_le 8 sz @ BLOCK_MAGIC) 8 24 = Some BLOCK_MAGIC"
    by (simp add: slice_range_def BLOCK_MAGIC_def del: to_le.simps)
  moreover have "length BLOCK_MAGIC = 16" by (simp add: BLOCK_MAGIC_def)
  ultimately show ?thesis
    using assms by (simp add: block_length_def FOOTER_def checked_sub_def checked_add_def MAX_BLOCK_def usize_bound_def del: to_le.simps)
qed

lemma read_at_regular:
  "n \<le> MAX_BLOCK \<Longrightarrow> bs = pre @ mid @ post \<Longrightarrow> at = length pre \<Longrightarrow> n = length mid \<Longrightarrow>
     read_at (regular_file bs) at n = Inr mid"
  by (simp add: read_at_def regular_file_def)

lemma read_at_tail:
  "n \<le> MAX_BLOCK \<Longrightarrow> n \<le> length bs \<Longrightarrow> read_at (regular_file bs) (length bs - n) n = Inr (drop (length bs - n) bs)"
  by (simp add: read_at_def regular_file_def)

lemma archive_certificate_written:
  assumes pairs: "\<forall>p \<in> set pairs. fst p < 2 ^ 32" and block: "length (signed_block pairs) \<le> MAX_BLOCK"
    and off: "off = length (contents @ signed_block pairs)" "off < 2 ^ 32"
    and rec: "length counters = 12" "length comment \<le> MAX_COMMENT"
      "\<forall>k > 0. \<not> is_end_record (write_end counters off comment) k"
    and len: "length (contents @ signed_block pairs @ directory @ write_end counters off comment) < usize_bound"
  shows "archive_certificate (regular_file (contents @ signed_block pairs @ directory @ write_end counters off comment)) =
    (case or_else (or_else (scheme_certificate SCHEME_V31 pairs) (scheme_certificate SCHEME_V3 pairs))
        (scheme_certificate SCHEME_V2 pairs) of
       None \<Rightarrow> Inl NO_CERTIFICATE | Some cert \<Rightarrow> Inr cert)"
proof -
  let ?b = "signed_block pairs" and ?e = "write_end counters off comment"
  let ?a = "contents @ ?b @ directory @ ?e"
  let ?body = "concat (map write_pair pairs)"
  let ?sz = "length ?body + 24"
  let ?ts = "min (length ?a) MAX_TAIL"
  have le: "length ?e = 22 + length comment" using rec(1) by (simp add: write_end_def END_MAGIC_def)
  have front: "length ?a - ?ts \<le> length (contents @ ?b @ directory)"
    using le rec(2) by (simp add: MAX_TAIL_def END_SIZE_def)
  let ?p = "drop (length ?a - ?ts) (contents @ ?b @ directory)"
  have tail: "drop (length ?a - ?ts) ?a = ?p @ ?e"
    using front by (metis append.assoc drop_append diff_is_0_eq drop_0)
  have ts: "?ts \<le> MAX_BLOCK" by (simp add: MAX_TAIL_def MAX_COMMENT_def END_SIZE_def MAX_BLOCK_def)
  have 1: "read_at (regular_file ?a) (length ?a - ?ts) ?ts = Inr (?p @ ?e)"
    unfolding tail [symmetric] by (rule read_at_tail [OF ts min.cobounded1])
  have 2: "central_directory_offset (?p @ ?e) = Some off"
  proof (rule end_record_written [OF rec(1) off(2) rec(2,3)])
    have "length (?p @ ?e) \<le> length ?a" unfolding tail [symmetric] length_drop by (rule diff_le_self)
    with len show "length (?p @ ?e) < usize_bound" by simp
  qed
  have lb: "length ?b = ?sz + 8" by (simp add: signed_block_length)
  have split: "?b = (to_le 8 ?sz @ ?body) @ (to_le 8 ?sz @ BLOCK_MAGIC)"
    by (simp add: signed_block_def write_block_def)
  have 3: "read_at (regular_file ?a) (off - 24) 24 = Inr (to_le 8 ?sz @ BLOCK_MAGIC)"
  proof (rule read_at_regular [where pre = "contents @ to_le 8 ?sz @ ?body" and post = "directory @ ?e"])
    show "?a = (contents @ to_le 8 ?sz @ ?body) @ (to_le 8 ?sz @ BLOCK_MAGIC) @ directory @ ?e"
      unfolding split by simp
    show "off - 24 = length (contents @ to_le 8 ?sz @ ?body)" using off(1) lb by simp
  qed (simp_all add: MAX_BLOCK_def BLOCK_MAGIC_def)
  have 4: "block_length (to_le 8 ?sz @ BLOCK_MAGIC) = Some (length ?b)"
    using block lb by (simp add: block_length_written)
  have 5: "read_at (regular_file ?a) (off - length ?b) (length ?b) = Inr ?b"
    by (rule read_at_regular [OF block, where pre = contents and post = "directory @ ?e"]) (simp_all add: off(1))
  have "length BLOCK_MAGIC = 16" by (simp add: BLOCK_MAGIC_def)
  moreover have "?sz < 2 ^ 64" using block lb by (simp add: MAX_BLOCK_def)
  ultimately have 6: "signer_certificate ?b = or_else (or_else (scheme_certificate SCHEME_V31 pairs) (scheme_certificate SCHEME_V3 pairs))
        (scheme_certificate SCHEME_V2 pairs)"
    using signer_certificate_written [OF pairs] block unfolding signed_block_def by blast
  have 7: "checked_sub off 24 = Some (off - 24)" "checked_sub off (length ?b) = Some (off - length ?b)"
    using off(1) lb by simp_all
  have 0: "af_length (regular_file ?a) = Some (length ?a)" by (simp add: regular_file_def)
  show ?thesis
    unfolding archive_certificate_def 0 option.case Let_def 1 2 3 4 5 6 7 sum.case ..
qed

text \<open>
  C28.  The identity of an installed archive, from the file to the answer.  For a process whose loader
  names the image, whose mapping table names an archive for it, and whose archive is a file laid out
  by the format (entries, a signing block, the directory, an end record whose comment holds no later
  end record), the check compares the digest of exactly the certificate that the scheme order
  selects, whatever its length, position, comment and other pairs; and the signer that \<open>guarded!\<close>
  binds to is the hexadecimal form of that digest.  An archive without a usable certificate is a
  failed read and never a difference.
\<close>

theorem archive_identity_exact:
  fixes contents directory counters comment :: bytes
  assumes "image_path (an_anchor os) (an_images os) = Some img" and "an_read_to_string os MAPS_PATH = Inr table"
    and "package_archive_for_image table img = Some path"
    and "off = length (contents @ signed_block pairs)" and "off < 2 ^ 32"
    and "an_open os path = Some (regular_file (contents @ signed_block pairs @ directory @ write_end counters off comment))"
    and "\<forall>p \<in> set pairs. fst p < 2 ^ 32" and "length (signed_block pairs) \<le> MAX_BLOCK"
    and "length counters = 12" and "length comment \<le> 0xffff"
    and "\<forall>k > 0. \<not> is_end_record (write_end counters off comment) k"
    and "length (contents @ signed_block pairs @ directory @ write_end counters off comment) < 2 ^ 64"
    and "ei_android expected = Some (Value (CertificateSha256 pinned))"
  shows "case or_else (or_else (scheme_certificate SCHEME_V31 pairs) (scheme_certificate SCHEME_V3 pairs))
      (scheme_certificate SCHEME_V2 pairs) of
     None \<Rightarrow> android_identity_match os expected = obs_failed NO_CERTIFICATE
       \<and> map_option ci_signer (obs_fact (android_code_identity os)) = Some None
   | Some cert \<Rightarrow>
       (android_identity_match os expected = Fact Same \<longleftrightarrow> sha256 cert = pinned)
       \<and> (android_identity_match os expected = Fact (Different (bounded_text_new ANOTHER_CERTIFICATE)) \<longleftrightarrow>
            sha256 cert \<noteq> pinned)
       \<and> map_option (map_option sg_material \<circ> ci_signer) (obs_fact (android_code_identity os))
         = Some (Some (as_bytes (hex (sha256 cert))))"
proof -
  have "length comment \<le> MAX_COMMENT"
    "length (contents @ signed_block pairs @ directory @ write_end counters off comment) < usize_bound"
    using assms(10,12) by (simp_all add: MAX_COMMENT_def usize_bound_def)
  note c = archive_certificate_written [OF assms(7,8,4,5,9) this(1) assms(11) this(2)]
  have "android_digest os = map_sum id sha256 (archive_certificate
      (regular_file (contents @ signed_block pairs @ directory @ write_end counters off comment)))"
    using assms(1-3,6) by (simp add: android_digest_def os_signer_certificate_def)
  then show ?thesis unfolding c using assms(13)
    by (auto simp: android_identity_match_def android_code_identity_def android_compare_def signer_new_def
        split: option.splits)
qed

definition sample_pairs :: "(nat \<times> bytes) list" where
  "sample_pairs = [(0x7109871a, write_scheme [] [1, 2] [] [] [] [])]"

definition sample_archive :: bytes where
  "sample_archive = [9] @ signed_block sample_pairs @ [7] @ write_end (replicate 12 0) 71 []"

definition sample_android :: android_os where
  "sample_android = \<lparr>an_java_vm = 0, an_property = (\<lambda>_. (0, [])),
     an_read_to_string = (\<lambda>_. Inr []),
     an_open = (\<lambda>_. Some (regular_file sample_archive)), an_arch = X86_64, an_anchor = 4100,
     an_images = [\<lparr>pi_base = 4096, pi_name = Some ''/a.apk!x'',
       pi_phdr = Some [\<lparr>ph_kind = 1, ph_vaddr = 0, ph_memsz = 96, ph_align = 4096\<rparr>]\<rparr>],
     an_memory = (\<lambda>_. None), an_created = (0, 0, 0), an_interface = (\<lambda>_. None)\<rparr>"

theorem archive_identity_exact_witness:
  "android_identity_match sample_android (with_android (Value (CertificateSha256 (sha256 [1, 2]))) expected_identity_new)
   = Fact Same"
proof -
  have lv: "length (write_scheme [] [1, 2] [] [] [] []) = 26" by (simp add: write_scheme_def write_element_def Let_def)
  have lp: "length (concat (map write_pair sample_pairs)) = 38" by (simp add: sample_pairs_def write_pair_def lv)
  have le: "length (write_end (replicate 12 0) 71 []) = 22" by (simp add: write_end_def END_MAGIC_def)
  have 1: "image_path (an_anchor sample_android) (an_images sample_android) = Some ''/a.apk!x''"
    unfolding image_path_def find_own_image_def sample_android_def
    by (simp add: take_own_image_def holds_def segment_range_def checked_add_word_def PT_LOAD_def utf8_valid_ascii is_ascii_def)
  have 3: "package_archive_for_image [] ''/a.apk!x'' = Some ''/a.apk''"
    by (simp add: package_archive_for_image_def inside_archive_def starts_with_def checked_add_def usize_bound_def
        str_get_def is_char_boundary_def is_cont_def slice_range_def)
  have later: "\<forall>k > 0. \<not> is_end_record (write_end (replicate 12 0) 71 []) k" by (simp add: is_end_record_def le)
  have cert: "certificate (write_scheme [] [1, 2] [] [] [] []) = Some [1, 2]"
    by (rule certificate_written) (simp add: lv)
  have pairs: "or_else (or_else (scheme_certificate SCHEME_V31 sample_pairs) (scheme_certificate SCHEME_V3 sample_pairs))
      (scheme_certificate SCHEME_V2 sample_pairs) = Some [1, 2]"
    using cert by (simp add: sample_pairs_def scheme_certificate_def List.map_filter_simps SCHEME_V31_def SCHEME_V3_def SCHEME_V2_def)
  have off: "71 = length ([9 :: u8] @ signed_block sample_pairs)" by (simp add: signed_block_length lp)
  show ?thesis
    using archive_identity_exact [OF 1 _ 3 off, where directory = "[7]" and counters = "replicate 12 0" and comment = "[]"
        and pinned = "sha256 [1, 2]"
        and expected = "with_android (Value (CertificateSha256 (sha256 [1, 2]))) expected_identity_new"] later lp pairs
    by (simp add: sample_android_def sample_archive_def signed_block_length le MAX_BLOCK_def with_android_def
        expected_identity_new_def sample_pairs_def)
qed

end
