(* ===== verification/Fid_Pe.thy ===== *)
theory Fid_Pe
  imports Fid_Prelude
begin

text \<open>
  The readers of a Portable Executable image (\<open>fidelity-formats/src/pe/mod.rs\<close>): the optional
  header, its data directories, the mapped import slots and the certificate table.  Both loops of
  the import reader are functions with a termination proof; an early return of the code is a value
  of \<open>import_exit\<close>.
\<close>

section \<open>Header and directories\<close>

definition DOS_SIGNATURE :: nat where "DOS_SIGNATURE = 0x5a4d"
definition NT_SIGNATURE :: nat where "NT_SIGNATURE = 0x4550"
definition OPTIONAL_MAGIC_64 :: nat where "OPTIONAL_MAGIC_64 = 0x20b"
definition E_LFANEW :: nat where "E_LFANEW = 60"
definition OPTIONAL_FROM_NT :: nat where "OPTIONAL_FROM_NT = 24"
definition OPTIONAL_SIZE_FROM_NT :: nat where "OPTIONAL_SIZE_FROM_NT = 20"
definition DATA_DIRECTORY :: nat where "DATA_DIRECTORY = 112"
definition DIRECTORY_COUNT :: nat where "DIRECTORY_COUNT = 108"
definition IMPORT_DIRECTORY :: nat where "IMPORT_DIRECTORY = 1"
definition CERTIFICATE_DIRECTORY :: nat where "CERTIFICATE_DIRECTORY = 4"
definition DIRECTORY_ENTRY :: nat where "DIRECTORY_ENTRY = 8"
definition IMPORT_DESCRIPTOR :: nat where "IMPORT_DESCRIPTOR = 20"

definition optional_header :: "bytes \<Rightarrow> bytes option" where
  "optional_header img =
     Option.bind (read_le 2 img 0) (\<lambda>dos.
     if dos \<noteq> DOS_SIGNATURE then None else
     Option.bind (read_le 4 img E_LFANEW) (\<lambda>nt.
     Option.bind (read_le 4 img nt) (\<lambda>signature.
     if signature \<noteq> NT_SIGNATURE then None else
     Option.bind (checked_add nt OPTIONAL_SIZE_FROM_NT) (\<lambda>size_offset.
     Option.bind (read_le 2 img size_offset) (\<lambda>size.
     Option.bind (checked_add nt OPTIONAL_FROM_NT) (\<lambda>start.
     Option.bind (checked_add start size) (\<lambda>last.
     Option.bind (slice_range img start last) (\<lambda>optional.
     Option.bind (read_le 2 optional 0) (\<lambda>magic.
     if magic \<noteq> OPTIONAL_MAGIC_64 then None else Some optional)))))))))"

definition directory :: "bytes \<Rightarrow> nat \<Rightarrow> (nat \<times> nat) option" where
  "directory optional index =
     Option.bind (read_le 4 optional DIRECTORY_COUNT) (\<lambda>count.
     if count \<le> index then None else
     Option.bind (checked_mul index DIRECTORY_ENTRY) (\<lambda>skip.
     Option.bind (checked_add DATA_DIRECTORY skip) (\<lambda>offset.
     Option.bind (read_le 4 optional offset) (\<lambda>address.
     Option.bind (checked_add offset 4) (\<lambda>size_at.
     Option.bind (read_le 4 optional size_at) (\<lambda>size.
     if address = 0 \<or> size = 0 then None else Some (address, size)))))))"

definition certificate_table :: "bytes \<Rightarrow> bytes option" where
  "certificate_table img =
     Option.bind (optional_header img) (\<lambda>optional.
     Option.bind (directory optional CERTIFICATE_DIRECTORY) (\<lambda>(offset, size).
     if offset = 0 \<or> size = 0 then None else
     Option.bind (checked_add offset size) (\<lambda>last. slice_range img offset last)))"

section \<open>Import slots\<close>

type_synonym import_slot = "nat \<times> nat"

datatype import_exit = Leave "import_slot list option" | Go_On "import_slot list"

text \<open>One thunk: its slot, or no thunk at the end of the table, or a failed read.\<close>

definition import_thunk :: "bytes \<Rightarrow> nat \<Rightarrow> nat \<Rightarrow> nat \<Rightarrow> nat \<Rightarrow> import_slot option option" where
  "import_thunk img base count_table address_table index =
     Option.bind (checked_mul index 8) (\<lambda>delta.
     Option.bind (checked_add count_table delta) (\<lambda>count_offset.
     Option.bind (read_le 8 img count_offset) (\<lambda>thunk.
     if thunk = 0 then Some None else
     Option.bind (checked_add address_table delta) (\<lambda>slot_offset.
     Option.bind (read_le 8 img slot_offset) (\<lambda>v.
     Option.bind (checked_add base slot_offset) (\<lambda>slot.
     Option.bind (checked_add index 1) (\<lambda>_. Some (Some (slot, v)))))))))"

function import_loop :: "bytes \<Rightarrow> nat \<Rightarrow> nat \<Rightarrow> nat \<Rightarrow> nat \<Rightarrow> nat \<Rightarrow> import_slot list \<Rightarrow> import_exit" where
  "import_loop img base most count_table address_table index slots =
     (if most \<le> length slots then Leave (Some slots)
      else case import_thunk img base count_table address_table index of
        None \<Rightarrow> Leave None
      | Some None \<Rightarrow> Go_On slots
      | Some (Some slot) \<Rightarrow> import_loop img base most count_table address_table (index + 1) (slots @ [slot]))"
  by pat_completeness auto
termination
  by (relation "measure (\<lambda>(img, base, most, ct, at, index, slots). most - length slots)") auto

declare import_loop.simps [simp del]

text \<open>The descriptor loop: the exit of one descriptor, and the flag that the terminator was found.\<close>

definition import_descriptor :: "bytes \<Rightarrow> nat \<Rightarrow> (nat \<times> nat \<times> nat) option" where
  "import_descriptor img descriptor =
     Option.bind (read_le 4 img descriptor) (\<lambda>lookup.
     Option.bind (checked_add descriptor 12) (\<lambda>name_at.
     Option.bind (read_le 4 img name_at) (\<lambda>name.
     Option.bind (checked_add descriptor 16) (\<lambda>table_at.
     Option.bind (read_le 4 img table_at) (\<lambda>address_table. Some (lookup, name, address_table))))))"

function descriptor_loop :: "bytes \<Rightarrow> nat \<Rightarrow> nat \<Rightarrow> nat \<Rightarrow> nat \<Rightarrow> import_slot list \<Rightarrow> import_slot list option" where
  "descriptor_loop img base most directory_end descriptor slots =
     (case checked_add descriptor IMPORT_DESCRIPTOR of
        None \<Rightarrow> None
      | Some next \<Rightarrow>
          if directory_end < next then None
          else case import_descriptor img descriptor of
            None \<Rightarrow> None
          | Some (lookup, name, address_table) \<Rightarrow>
              if name = 0 \<and> address_table = 0 then (if slots = [] then None else Some slots)
              else if address_table = 0 then None
              else case import_loop img base most (if lookup = 0 then address_table else lookup) address_table 0 slots of
                Leave r \<Rightarrow> r
              | Go_On slots' \<Rightarrow> descriptor_loop img base most directory_end next slots')"
  by pat_completeness auto
termination
  by (relation "measure (\<lambda>(img, base, most, last, descriptor, slots). last - descriptor)")
     (auto simp: IMPORT_DESCRIPTOR_def)

declare descriptor_loop.simps [simp del]

definition mapped_import_slots :: "bytes \<Rightarrow> u64 \<Rightarrow> nat \<Rightarrow> import_slot list option" where
  "mapped_import_slots img base_address most_slots =
     Option.bind (optional_header img) (\<lambda>optional.
     Option.bind (directory optional IMPORT_DIRECTORY) (\<lambda>(start, size).
     Option.bind (checked_add start size) (\<lambda>last.
     Option.bind (slice_range img start last) (\<lambda>_.
       descriptor_loop img (unat base_address) most_slots last start []))))"

section \<open>Lemmas\<close>

text \<open>A slot lies inside the image, its address does not wrap, and its value is the field there.\<close>

definition slot_in_image :: "bytes \<Rightarrow> nat \<Rightarrow> import_slot \<Rightarrow> bool" where
  "slot_in_image img base slot \<longleftrightarrow>
     (\<exists>off. off + 8 \<le> length img \<and> slot = (base + off, le_nat (take 8 (drop off img))) \<and> base + off < 2 ^ 64)"

lemma import_thunk_slot:
  "import_thunk img base ct at index = Some (Some slot) \<Longrightarrow> slot_in_image img base slot"
  by (auto simp: import_thunk_def bind_eq_Some_conv read_le_Some slot_in_image_def usize_bound_def
      split: if_splits)

lemma import_loop_sound:
  assumes "length slots \<le> most" and "\<forall>s \<in> set slots. slot_in_image img base s"
  shows "case import_loop img base most ct at index slots of
     Leave (Some r) \<Rightarrow> length r = most \<and> (\<forall>s \<in> set r. slot_in_image img base s) \<and> (\<exists>ys. r = slots @ ys)
   | Leave None \<Rightarrow> True
   | Go_On r \<Rightarrow> length r < most \<and> (\<forall>s \<in> set r. slot_in_image img base s) \<and> (\<exists>ys. r = slots @ ys)"
  using assms
proof (induction img base most ct at index slots rule: import_loop.induct)
  case (1 img base most ct at index slots)
  show ?case
  proof (cases "most \<le> length slots")
    case True
    with "1.prems" show ?thesis by (simp add: import_loop.simps)
  next
    case False
    show ?thesis
    proof (cases "import_thunk img base ct at index")
      case None
      with False show ?thesis by (simp add: import_loop.simps)
    next
      case (Some t)
      show ?thesis
      proof (cases t)
        case None
        with Some False "1.prems" show ?thesis by (simp add: import_loop.simps)
      next
        case (Some slot)
        with \<open>import_thunk img base ct at index = Some t\<close> have t: "import_thunk img base ct at index = Some (Some slot)" by simp
        with False "1.prems" have "case import_loop img base most ct at (index + 1) (slots @ [slot]) of
           Leave (Some r) \<Rightarrow> length r = most \<and> (\<forall>s \<in> set r. slot_in_image img base s) \<and> (\<exists>ys. r = (slots @ [slot]) @ ys)
         | Leave None \<Rightarrow> True
         | Go_On r \<Rightarrow> length r < most \<and> (\<forall>s \<in> set r. slot_in_image img base s) \<and> (\<exists>ys. r = (slots @ [slot]) @ ys)"
          using import_thunk_slot [OF t] by (intro "1.IH" [OF False t refl]) auto
        then show ?thesis
          using False t by (auto simp: import_loop.simps [of img base most ct at index slots] split: import_exit.splits option.splits)
      qed
    qed
  qed
qed

lemma descriptor_loop_sound:
  assumes "length slots \<le> most" and "\<forall>s \<in> set slots. slot_in_image img base s"
    and "descriptor_loop img base most fin descriptor slots = Some r"
  shows "length r \<le> most \<and> (\<forall>s \<in> set r. slot_in_image img base s) \<and> (r = [] \<longrightarrow> most = 0)"
  using assms
proof (induction img base most fin descriptor slots rule: descriptor_loop.induct)
  case (1 img base most fin descriptor slots)
  from "1.prems"(3) obtain "next" lookup name at where
    n: "checked_add descriptor IMPORT_DESCRIPTOR = Some next" "\<not> fin < next"
    and d: "import_descriptor img descriptor = Some (lookup, name, at)"
    by (auto simp: descriptor_loop.simps [of img base most fin descriptor slots] split: option.splits if_splits)
  show ?case
  proof (cases "at = 0")
    case True
    with n d "1.prems" show ?thesis
      by (auto simp: descriptor_loop.simps [of img base most fin descriptor slots] split: if_splits option.splits)
  next
    case False
    let ?ct = "if lookup = 0 then at else lookup"
    note sound = import_loop_sound [OF "1.prems"(1,2), of ?ct at 0]
    show ?thesis
    proof (cases "import_loop img base most ?ct at 0 slots")
      case (Leave x)
      with n d False "1.prems"(3) have "x = Some r"
        by (auto simp: descriptor_loop.simps [of img base most fin descriptor slots] split: option.splits)
      with Leave sound show ?thesis by auto
    next
      case (Go_On slots')
      with n d False "1.prems"(3) have "descriptor_loop img base most fin next slots' = Some r"
        by (auto simp: descriptor_loop.simps [of img base most fin descriptor slots] split: option.splits)
      moreover have "length slots' \<le> most" "\<forall>s \<in> set slots'. slot_in_image img base s" using Go_On sound by auto
      ultimately show ?thesis
        using "1.IH" [OF n(1,2) d refl refl, of slots'] False Go_On by auto
    qed
  qed
qed

lemma mapped_import_slots_sound:
  assumes "mapped_import_slots img base most = Some slots"
  shows "length slots \<le> most \<and> (\<forall>s \<in> set slots. slot_in_image img (unat base) s) \<and> (slots = [] \<longrightarrow> most = 0)"
proof -
  from assms obtain fin start where "descriptor_loop img (unat base) most fin start [] = Some slots"
    by (auto simp: mapped_import_slots_def bind_eq_Some_conv)
  then show ?thesis
    using descriptor_loop_sound [of "[]" most img "unat base" fin start slots] by simp
qed

section \<open>Properties\<close>

text \<open>
  The PE readers stay inside the image.  Every import slot that the reader returns lies in the
  image with its eight bytes, its address is the base plus that offset without a wrap-around, its
  value is the field stored there, and there are never more than the caller accepts, and at least
  one unless the caller accepts none.  The
  certificate table is a non-empty part of the file.
\<close>

lemma pe_readers_sound:
  "(mapped_import_slots img base most = Some slots \<longrightarrow>
      length slots \<le> most \<and> (slots = [] \<longrightarrow> most = 0)
      \<and> (\<forall>(address, v) \<in> set slots. \<exists>off. off + 8 \<le> length img \<and> address = unat base + off
           \<and> address < 2 ^ 64 \<and> v = le_nat (take 8 (drop off img))))
   \<and> (certificate_table img = Some table \<longrightarrow> table \<noteq> [] \<and> (\<exists>pre post. img = pre @ table @ post))"
proof (intro conjI impI)
  assume "mapped_import_slots img base most = Some slots"
  note s = mapped_import_slots_sound [OF this]
  then show "length slots \<le> most" and "slots = [] \<Longrightarrow> most = 0" by auto
  show "\<forall>(address, v) \<in> set slots. \<exists>off. off + 8 \<le> length img \<and> address = unat base + off
           \<and> address < 2 ^ 64 \<and> v = le_nat (take 8 (drop off img))"
    using s by (fastforce simp: slot_in_image_def)
next
  assume "certificate_table img = Some table"
  then obtain offset size where r: "slice_range img offset (offset + size) = Some table" and "0 < size"
    by (auto simp: certificate_table_def bind_eq_Some_conv split: if_splits)
  then show "table \<noteq> []" using slice_range_length [OF r] by auto
  show "\<exists>pre post. img = pre @ table @ post" using slice_range_decomp [OF r] by blast
qed

text \<open>A small image: one import descriptor with one slot, and a certificate table of eight bytes.\<close>

definition sample_image :: bytes where
  "sample_image =
     to_le 2 0x5a4d @ replicate 58 0 @ to_le 4 64
     @ to_le 4 0x4550 @ replicate 16 0 @ to_le 2 160 @ replicate 2 0
     @ to_le 2 0x20b @ replicate 106 0 @ to_le 4 5
     @ replicate 8 0 @ to_le 4 248 @ to_le 4 40 @ replicate 16 0 @ to_le 4 288 @ to_le 4 8 @ replicate 8 0
     @ replicate 12 0 @ to_le 4 1 @ to_le 4 288 @ replicate 20 0
     @ to_le 8 7 @ replicate 8 0"

lemma le_nat_zeros [simp]: "le_nat (replicate n 0) = 0"
  by (simp add: le_nat_zero_iff)

lemmas sample_simps = sample_image_def read_le_eval usize_bound_def checked_add_def checked_mul_def
  slice_range_def le_nat_to_le DOS_SIGNATURE_def NT_SIGNATURE_def OPTIONAL_MAGIC_64_def E_LFANEW_def
  OPTIONAL_FROM_NT_def OPTIONAL_SIZE_FROM_NT_def DATA_DIRECTORY_def DIRECTORY_COUNT_def
  IMPORT_DIRECTORY_def CERTIFICATE_DIRECTORY_def DIRECTORY_ENTRY_def IMPORT_DESCRIPTOR_def

definition sample_optional :: bytes where
  "sample_optional = to_le 2 0x20b @ replicate 106 0 @ to_le 4 5
     @ replicate 8 0 @ to_le 4 248 @ to_le 4 40 @ replicate 16 0 @ to_le 4 288 @ to_le 4 8 @ replicate 8 0"

lemma sample_header: "optional_header sample_image = Some sample_optional"
  by (simp add: optional_header_def sample_simps sample_optional_def del: to_le.simps)

lemma sample_directories:
  "directory sample_optional 1 = Some (248, 40)" "directory sample_optional 4 = Some (288, 8)"
  by (simp_all add: directory_def sample_optional_def sample_simps del: to_le.simps)

lemma sample_imports: "2 \<le> most \<Longrightarrow> mapped_import_slots sample_image 0x1000 most = Some [(0x1120, 7)]"
  unfolding mapped_import_slots_def sample_header IMPORT_DIRECTORY_def Option.bind.simps sample_directories prod.case
  by (simp add: descriptor_loop.simps import_loop.simps import_descriptor_def import_thunk_def sample_simps del: to_le.simps)

lemma sample_certificates: "certificate_table sample_image = Some (to_le 8 7)"
  unfolding certificate_table_def sample_header CERTIFICATE_DIRECTORY_def Option.bind.simps sample_directories prod.case
  by (simp add: sample_simps del: to_le.simps)

lemma pe_readers_sound_example:
  "mapped_import_slots sample_image 0x1000 4 = Some [(0x1120, 7)]
   \<and> (\<exists>off. off + 8 \<le> length sample_image \<and> 0x1120 = unat (0x1000 :: u64) + off \<and> 7 = le_nat (take 8 (drop off sample_image)))
   \<and> (\<exists>table. certificate_table sample_image = Some table \<and> table \<noteq> [])"
  using pe_readers_sound [of sample_image "0x1000" 4 "[(0x1120, 7)]" "to_le 8 7"]
  by (auto simp: sample_imports sample_certificates)

end
