(* ===== verification/Fid_Win_Memory.thy ===== *)
theory Fid_Win_Memory
  imports Fid_Loader
begin

text \<open>
  The virtual-memory boundary of the Windows probe (\<open>probe/fidelity-probe-windows/src/sys/memory.rs\<close>):
  the copy of one allocation and the walk over the executable regions.  What \<open>VirtualQuery\<close> answers
  is an argument, a function of the address: neither loop asks about one address twice, so a function
  covers answers that change while the loop runs.  The copy loop has no bound of its own, so it is a
  partial function, and that it returns for every behaviour of the system is a theorem.
\<close>

section \<open>What the system answers\<close>

record mbi =
  mb_base_address :: u64
  mb_allocation_base :: u64
  mb_region_size :: u64
  mb_state :: u32
  mb_protect :: u32
  mb_kind :: u32

text \<open>The number of bytes that the call wrote, and what it wrote.\<close>

type_synonym virtual_query = "u64 \<Rightarrow> nat \<times> mbi"

definition MBI_SIZE :: nat where "MBI_SIZE = 48"
definition EXECUTE :: u32 where "EXECUTE = 0xF0"
definition EXECUTE_WRITE :: u32 where "EXECUTE_WRITE = 0xC0"
definition MEM_COMMIT :: u32 where "MEM_COMMIT = 0x1000"
definition PAGE_NOACCESS :: u32 where "PAGE_NOACCESS = 0x01"
definition PAGE_GUARD :: u32 where "PAGE_GUARD = 0x100"
definition MEM_IMAGE :: u32 where "MEM_IMAGE = 0x1000000"
definition MEM_MAPPED :: u32 where "MEM_MAPPED = 0x40000"
definition MAX_PASSES :: nat where "MAX_PASSES = 100000"

definition readable :: "u32 \<Rightarrow> u32 \<Rightarrow> bool" where
  "readable state protection \<longleftrightarrow>
     state = MEM_COMMIT \<and> protection AND PAGE_GUARD = 0 \<and> protection AND 0xff \<noteq> PAGE_NOACCESS \<and> protection \<noteq> 0"

section \<open>The copy of one allocation\<close>

text \<open>The write through the pointer of the vector: outside the vector it is a fault.\<close>

definition write_at :: "bytes \<Rightarrow> u64 \<Rightarrow> bytes \<Rightarrow> bytes access" where
  "write_at copied output bs =
     (if unat output + length bs \<le> length copied
      then Got (take (unat output) copied @ bs @ drop (unat output + length bs) copied) else Fault)"

definition copy_run :: "memory \<Rightarrow> u64 \<Rightarrow> u64 \<Rightarrow> u64 \<Rightarrow> bytes \<Rightarrow> bytes access" where
  "copy_run mem base address copy_end copied =
     access_bind (or_absent (checked_sub_word address base)) (\<lambda>output.
     access_bind (or_absent (checked_sub_word copy_end address)) (\<lambda>len.
     access_bind (slice mem address (unat len)) (\<lambda>bs. write_at copied output bs)))"

definition usable :: "u64 \<Rightarrow> u64 \<Rightarrow> nat \<times> mbi \<Rightarrow> u64 option" where
  "usable base address answer = (case answer of (written, info) \<Rightarrow>
     if written \<noteq> MBI_SIZE \<or> mb_allocation_base info \<noteq> base \<or> mb_region_size info = 0 then None
     else Option.bind (checked_add_word (mb_base_address info) (mb_region_size info)) (\<lambda>region_end.
       if mb_base_address info > address \<or> region_end \<le> address then None else Some region_end))"

partial_function (option) copy_loop ::
  "virtual_query \<Rightarrow> memory \<Rightarrow> u64 \<Rightarrow> u64 \<Rightarrow> u64 \<Rightarrow> bytes \<Rightarrow> bytes access option" where
  "copy_loop query mem base end address copied =
     (if \<not> address < end then Some (Got copied)
      else case usable base address (query address) of
        None \<Rightarrow> Some Absent
      | Some region_end \<Rightarrow>
          let info = snd (query address); copy_end = min region_end end in
          if readable (mb_state info) (mb_protect info)
          then (case copy_run mem base address copy_end copied of
                  Fault \<Rightarrow> Some Fault
                | Absent \<Rightarrow> Some Absent
                | Got copied \<Rightarrow> copy_loop query mem base end copy_end copied)
          else copy_loop query mem base end copy_end copied)"

definition copy_readable_allocation ::
  "virtual_query \<Rightarrow> memory \<Rightarrow> u64 \<Rightarrow> u64 \<Rightarrow> u64 \<Rightarrow> bytes access option" where
  "copy_readable_allocation query mem base bytes limit =
     (if base = 0 \<or> bytes = 0 \<or> bytes > limit then Some Absent
      else case checked_add_word base bytes of
        None \<Rightarrow> Some Absent
      | Some end \<Rightarrow> copy_loop query mem base end base (replicate (unat bytes) 0))"

section \<open>The walk over the executable regions\<close>

record win_region =
  wr_start :: u64
  wr_end :: u64
  wr_allocation_base :: u64
  wr_writable :: bool
  wr_image :: bool
  wr_mapped :: bool

definition is_executable :: "mbi \<Rightarrow> bool" where
  "is_executable info \<longleftrightarrow> mb_state info = MEM_COMMIT \<and> mb_protect info AND EXECUTE \<noteq> 0"

definition region_at :: "u64 \<Rightarrow> mbi \<Rightarrow> win_region" where
  "region_at address info =
     \<lparr>wr_start = address, wr_end = saturating_add address (mb_region_size info),
      wr_allocation_base = mb_allocation_base info, wr_writable = (mb_protect info AND EXECUTE_WRITE \<noteq> 0),
      wr_image = (mb_kind info = MEM_IMAGE), wr_mapped = (mb_kind info = MEM_MAPPED)\<rparr>"

text \<open>The first argument is the number of passes that are left.\<close>

fun walk :: "nat \<Rightarrow> virtual_query \<Rightarrow> u64 \<Rightarrow> win_region list \<Rightarrow> win_region list" where
  "walk 0 query address found = found"
| "walk (Suc passes) query address found =
     (case query address of (written, info) \<Rightarrow>
        if written = 0 then found
        else if mb_region_size info = 0 then found
        else let found = (if is_executable info then found @ [region_at address info] else found) in
          case checked_add_word address (mb_region_size info) of
            None \<Rightarrow> found
          | Some next \<Rightarrow> walk passes query next found)"

definition no_executable :: string where
  "no_executable = ''the walk reported no executable region for this process''"

definition win_executable :: "virtual_query \<Rightarrow> string + win_region list" where
  "win_executable query =
     (let found = walk MAX_PASSES query 0 [] in if found = [] then Inl no_executable else Inr found)"

text \<open>\<open>K32GetMappedFileNameW\<close> is an argument: the number of code units it wrote for an address.\<close>

definition mapped_file :: "(u64 \<Rightarrow> u32) \<Rightarrow> u64 \<Rightarrow> bool" where
  "mapped_file name address \<longleftrightarrow> name address \<noteq> 0"

definition wr_accounted :: "(u64 \<Rightarrow> u32) \<Rightarrow> win_region \<Rightarrow> bool" where
  "wr_accounted name r = (if wr_image r then True else wr_mapped r \<and> mapped_file name (wr_start r))"

section \<open>The copy returns, and reads only what is there\<close>

text \<open>
  What Windows documents of a run: one answer covers pages that share every attribute, and a page
  that it reports as committed and accessible is in the memory.
\<close>

definition readable_at :: "virtual_query \<Rightarrow> u64 \<Rightarrow> bool" where
  "readable_at query x \<longleftrightarrow> readable (mb_state (snd (query x))) (mb_protect (snd (query x)))"

definition covered :: "virtual_query \<Rightarrow> u64 \<Rightarrow> u64 \<Rightarrow> bool" where
  "covered query base x \<longleftrightarrow> usable base x (query x) \<noteq> None"

definition runs_uniform :: "virtual_query \<Rightarrow> memory \<Rightarrow> u64 \<Rightarrow> bool" where
  "runs_uniform query mem base \<longleftrightarrow>
     (\<forall>a e x. usable base a (query a) = Some e \<and> a \<le> x \<and> x < e \<longrightarrow>
        covered query base x \<and> readable_at query x = readable_at query a
        \<and> (readable_at query x \<longrightarrow> mem x \<noteq> None))"

definition page_byte :: "virtual_query \<Rightarrow> memory \<Rightarrow> u64 \<Rightarrow> u8" where
  "page_byte query mem x = (if readable_at query x then the (mem x) else 0)"

definition allocation_image :: "virtual_query \<Rightarrow> memory \<Rightarrow> u64 \<Rightarrow> nat \<Rightarrow> bytes" where
  "allocation_image query mem base n = map (\<lambda>i. page_byte query mem (base + of_nat i)) [0..<n]"

lemma usable_beyond: "usable base a answer = Some e \<Longrightarrow> a < e"
  by (auto simp: usable_def bind_eq_Some_conv split: prod.splits if_splits)

lemma copy_loop_returns: "\<exists>r. copy_loop query mem base end address copied = Some r"
proof (induction "unat end - unat address" arbitrary: address copied rule: less_induct)
  case less
  show ?case
  proof (cases "address < end \<and> usable base address (query address) \<noteq> None")
    case True
    then obtain e where e: "usable base address (query address) = Some e" and lt: "address < end" by auto
    have "address < min e end" using lt usable_beyond [OF e] by simp
    then have "unat end - unat (min e end) < unat end - unat address"
      using lt by (simp add: word_less_nat_alt)
    then have "\<exists>r. copy_loop query mem base end (min e end) c = Some r" for c by (rule less)
    then show ?thesis
      using lt e by (subst copy_loop.simps) (auto simp: Let_def split: access.split)
  next
    case False
    then show ?thesis by (subst copy_loop.simps) auto
  qed
qed

lemma word_offset: "a + of_nat (unat x - unat a) = x" if "a \<le> x" for a x :: u64
  using that by (simp flip: unat_sub)

lemma unat_offset: "unat a + i < 2 ^ 64 \<Longrightarrow> unat (a + of_nat i) = unat a + i" for a :: u64
  by (simp add: unat_word_ariths unat_of_nat mod_add_right_eq)

lemma in_run:
  fixes a b :: u64
  assumes "a \<le> b" and "i < unat b - unat a"
  shows "a \<le> a + of_nat i" and "a + of_nat i < b"
proof -
  have "unat a + i < 2 ^ 64" using assms(2) unsigned_less [of b, where 'a = nat] by simp
  then have "unat (a + of_nat i) = unat a + i" by (rule unat_offset)
  then show "a \<le> a + of_nat i" and "a + of_nat i < b"
    using assms by (simp_all add: word_le_nat_alt word_less_nat_alt)
qed

lemma allocation_image_append:
  assumes "base \<le> a" and "a \<le> b"
  shows "allocation_image query mem base (unat b - unat base) =
    allocation_image query mem base (unat a - unat base) @
    map (\<lambda>i. page_byte query mem (a + of_nat i)) [0..<unat b - unat a]"
proof -
  define k m where "k = unat a - unat base" and "m = unat b - unat a"
  have n: "unat b - unat base = k + m" using assms by (simp add: k_def m_def word_le_nat_alt)
  have upt: "[0..<k + m] = [0..<k] @ map (\<lambda>i. i + k) [0..<m]"
    using upt_add_eq_append [of 0 k m] by (simp add: map_add_upt add.commute)
  have "base + of_nat k = a" unfolding k_def using assms(1) by (rule word_offset)
  then have shift: "base + (of_nat i + of_nat k) = a + of_nat i" for i by auto
  show ?thesis
    unfolding allocation_image_def n upt k_def [symmetric] m_def [symmetric] by (simp add: shift)
qed

lemma copy_run_exact:
  assumes "base \<noteq> 0" and "base \<le> a" and "a \<le> b"
    and "length xs = unat a - unat base" and "length ys = unat b - unat a"
    and "\<And>i. i < unat b - unat a \<Longrightarrow> mem (a + of_nat i) \<noteq> None"
  shows "copy_run mem base a b (xs @ ys @ zs) =
    Got (xs @ map (\<lambda>i. the (mem (a + of_nat i))) [0..<unat b - unat a] @ zs)"
proof -
  from assms(1,2) have "a \<noteq> 0" by auto
  then have "slice mem a (unat (b - a)) = Got (map (\<lambda>i. the (mem (a + of_nat i))) [0..<unat b - unat a])"
    using slice_mapped [of a "unat b - unat a" mem] assms(3,6) by (simp add: unat_sub)
  moreover have "unat (a - base) = length xs" using assms(2,4) by (simp add: unat_sub)
  ultimately show ?thesis
    using assms(2,3,5) by (simp add: copy_run_def checked_sub_word_def or_absent_def write_at_def)
qed

lemma copy_step:
  assumes uniform: "runs_uniform query mem base" and "base \<noteq> 0" and "base \<le> a"
    and "usable base a (query a) = Some e" and "a < end"
  defines "b \<equiv> min e end"
  shows "copy_loop query mem base end a
      (allocation_image query mem base (unat a - unat base) @ replicate (unat end - unat a) 0) =
    copy_loop query mem base end b
      (allocation_image query mem base (unat b - unat base) @ replicate (unat end - unat b) 0)"
proof -
  define m where "m = unat b - unat a"
  have ab: "a < b" "b \<le> end" using assms(5) usable_beyond [OF assms(4)] by (simp_all add: b_def)
  then have zeros: "replicate (unat end - unat a) (0 :: u8) = replicate m 0 @ replicate (unat end - unat b) 0"
    unfolding replicate_add [symmetric] by (simp add: m_def word_le_nat_alt word_less_nat_alt)
  have run: "readable_at query (a + of_nat i) = readable_at query a
      \<and> (readable_at query a \<longrightarrow> mem (a + of_nat i) \<noteq> None)" if "i < m" for i
    using uniform assms(4) in_run [of a b i] ab that
    unfolding runs_uniform_def b_def m_def by (metis less_imp_le min_less_iff_conj)
  have bytes: "map (\<lambda>i. page_byte query mem (a + of_nat i)) [0..<m] =
      (if readable_at query a then map (\<lambda>i. the (mem (a + of_nat i))) [0..<m] else replicate m 0)"
    by (rule nth_equalityI) (auto simp: page_byte_def run)
  have image: "allocation_image query mem base (unat b - unat base) =
      allocation_image query mem base (unat a - unat base) @ map (\<lambda>i. page_byte query mem (a + of_nat i)) [0..<m]"
    unfolding m_def using assms(3) ab(1) by (intro allocation_image_append) simp_all
  have copied: "copy_run mem base a b (xs @ replicate m 0 @ zs) = Got (xs @ map (\<lambda>i. the (mem (a + of_nat i))) [0..<m] @ zs)"
    if "readable_at query a" "length xs = unat a - unat base" for xs zs
    using copy_run_exact [of base a b xs "replicate m 0" mem zs] assms(2,3) ab(1) that run
    by (simp add: m_def)
  show ?thesis unfolding zeros image bytes
    using assms(4,5) copied
    by (subst copy_loop.simps) (simp add: Let_def readable_at_def allocation_image_def flip: b_def)
qed

lemma copy_loop_exact:
  assumes uniform: "runs_uniform query mem base" and "base \<noteq> 0" and "base \<le> a" and "a \<le> end"
  shows "copy_loop query mem base end a
      (allocation_image query mem base (unat a - unat base) @ replicate (unat end - unat a) 0) =
    Some (if \<forall>x. a \<le> x \<and> x < end \<longrightarrow> covered query base x
          then Got (allocation_image query mem base (unat end - unat base)) else Absent)"
  using assms(3,4)
proof (induction "unat end - unat a" arbitrary: a rule: less_induct)
  case less
  consider (fin) "a = end" | (stuck) "a < end" "usable base a (query a) = None"
    | (run) e where "a < end" "usable base a (query a) = Some e"
    using less.prems(2) by (cases "usable base a (query a)") (auto simp: le_less)
  then show ?case
  proof cases
    case fin
    then show ?thesis by (subst copy_loop.simps) auto
  next
    case stuck
    then have "\<not> covered query base a" by (simp add: covered_def)
    with stuck show ?thesis by (subst copy_loop.simps) auto
  next
    case (run e)
    let ?b = "min e end"
    have ab: "a < ?b" "?b \<le> end" using run usable_beyond [OF run(2)] by simp_all
    have "covered query base x" if "a \<le> x" "x < ?b" for x
      using uniform run(2) that unfolding runs_uniform_def by (metis min_less_iff_conj)
    then have "(\<forall>x. a \<le> x \<and> x < end \<longrightarrow> covered query base x) \<longleftrightarrow>
        (\<forall>x. ?b \<le> x \<and> x < end \<longrightarrow> covered query base x)"
      using ab by (meson leI less_imp_le order.trans)
    moreover have "unat end - unat ?b < unat end - unat a" using ab run(1) by (simp add: word_less_nat_alt)
    moreover have "base \<le> ?b" using less.prems(1) ab(1) by (meson less_imp_le order.trans)
    ultimately show ?thesis
      using less.hyps [of ?b] ab(2) copy_step [OF uniform assms(2) less.prems(1) run(2,1)] by simp
  qed
qed

definition covered_from :: "virtual_query \<Rightarrow> u64 \<Rightarrow> nat \<Rightarrow> bool" where
  "covered_from query base n \<longleftrightarrow> (\<forall>i < n. covered query base (base + of_nat i))"

lemma covered_from_range:
  assumes "base \<le> end"
  shows "covered_from query base (unat end - unat base) \<longleftrightarrow> (\<forall>x. base \<le> x \<and> x < end \<longrightarrow> covered query base x)"
proof
  assume from_base: "covered_from query base (unat end - unat base)"
  show "\<forall>x. base \<le> x \<and> x < end \<longrightarrow> covered query base x"
  proof (intro allI impI)
    fix x assume "base \<le> x \<and> x < end"
    then have "unat x - unat base < unat end - unat base" and "base + of_nat (unat x - unat base) = x"
      by (auto simp: word_le_nat_alt word_less_nat_alt word_offset intro: word_offset)
    with from_base show "covered query base x" unfolding covered_from_def by metis
  qed
qed (use in_run [OF assms] in \<open>auto simp: covered_from_def\<close>)

lemma copy_exact:
  assumes uniform: "runs_uniform query mem base"
  shows "copy_readable_allocation query mem base n limit =
      Some (if base \<noteq> 0 \<and> n \<noteq> 0 \<and> n \<le> limit \<and> unat base + unat n < 2 ^ 64 \<and> covered_from query base (unat n)
            then Got (allocation_image query mem base (unat n)) else Absent)"
proof (cases "base \<noteq> 0 \<and> n \<noteq> 0 \<and> n \<le> limit \<and> unat base + unat n < 2 ^ 64")
  case True
  then have e: "checked_add_word base n = Some (base + n)" and u: "unat (base + n) = unat base + unat n"
    by (simp_all add: checked_add_word_def checked_add_word_Some unat_word_ariths)
  then have "unat (base + n) - unat base = unat n" and le: "base \<le> base + n" by (simp_all add: word_le_nat_alt)
  then show ?thesis
    using True e copy_loop_exact [OF uniform, of base "base + n"] covered_from_range [OF le, of query]
    by (simp add: copy_readable_allocation_def allocation_image_def leD)
next
  case False
  then show ?thesis by (auto simp: copy_readable_allocation_def checked_add_word_def)
qed

text \<open>
  C33.  The copy of an allocation.  Whatever \<open>VirtualQuery\<close> answers, the loop, which carries no bound,
  returns.  When the answers describe uniform runs and a page that they call readable is in the
  memory, no read and no write leaves its range, and the result is known: a copy exactly when the
  request is within its bounds and every byte of it belongs to the allocation, and then each byte is
  the byte of the memory, or zero on a page that may not be read.
\<close>

theorem copy_returns_exactly:
  "(\<exists>r. copy_readable_allocation query mem base n limit = Some r)
   \<and> (runs_uniform query mem base \<longrightarrow>
        copy_readable_allocation query mem base n limit =
          Some (if base \<noteq> 0 \<and> n \<noteq> 0 \<and> n \<le> limit \<and> unat base + unat n < 2 ^ 64 \<and> covered_from query base (unat n)
                then Got (allocation_image query mem base (unat n)) else Absent))"
proof -
  have "\<exists>r. copy_readable_allocation query mem base n limit = Some r"
    using copy_loop_returns by (auto simp: copy_readable_allocation_def split: option.splits)
  then show ?thesis using copy_exact by blast
qed

text \<open>An allocation of three bytes at 4096: two that may be read, then one that may not.\<close>

definition sample_query :: virtual_query where
  "sample_query x =
     (if x = 4096 \<or> x = 4097
      then (48, \<lparr>mb_base_address = 4096, mb_allocation_base = 4096, mb_region_size = 2,
                 mb_state = 0x1000, mb_protect = 0x20, mb_kind = 0x1000000\<rparr>)
      else if x = 4098
      then (48, \<lparr>mb_base_address = 4098, mb_allocation_base = 4096, mb_region_size = 1,
                 mb_state = 0x1000, mb_protect = 1, mb_kind = 0x1000000\<rparr>)
      else (0, \<lparr>mb_base_address = 0, mb_allocation_base = 0, mb_region_size = 0,
                 mb_state = 0, mb_protect = 0, mb_kind = 0\<rparr>))"

definition sample_bytes :: memory where
  "sample_bytes x = (if x = 4096 then Some 7 else if x = 4097 then Some 9 else None)"

lemma sample_runs: "runs_uniform sample_query sample_bytes 4096"
proof -
  have below: "x = 4096 \<or> x = 4097" if "4096 \<le> x" "x < 4098" for x :: u64
    using that by unat_arith
  have second: "x = 4097" if "4097 \<le> x" "x < 4098" for x :: u64
    using that by unat_arith
  have last: "x = 4098" if "4098 \<le> x" "x < 4099" for x :: u64
    using that by unat_arith
  show ?thesis
    unfolding runs_uniform_def covered_def readable_at_def
    by (auto simp: sample_query_def sample_bytes_def usable_def readable_def MBI_SIZE_def MEM_COMMIT_def
        PAGE_GUARD_def PAGE_NOACCESS_def checked_add_word_def split: if_splits dest: below second last)
qed

theorem copy_returns_exactly_witness:
  "runs_uniform sample_query sample_bytes 4096
   \<and> copy_readable_allocation sample_query sample_bytes 4096 3 16 = Some (Got [7, 9, 0])
   \<and> copy_readable_allocation sample_query sample_bytes 4096 4 16 = Some Absent
   \<and> copy_readable_allocation sample_query sample_bytes 4096 3 2 = Some Absent"
proof -
  note defs = sample_query_def sample_bytes_def usable_def readable_def MBI_SIZE_def MEM_COMMIT_def
    PAGE_GUARD_def PAGE_NOACCESS_def checked_add_word_def readable_at_def covered_def
  have upt: "[0..<3] = [0, 1, 2 :: nat]" by (simp add: upt_rec)
  have image: "allocation_image sample_query sample_bytes 4096 3 = [7, 9, 0]"
    by (simp add: allocation_image_def upt page_byte_def defs)
  have "covered_from sample_query 4096 3"
    by (auto simp: covered_from_def less_Suc_eq numeral_3_eq_3 defs)
  moreover have "\<not> covered_from sample_query 4096 4"
    by (auto simp: covered_from_def defs intro!: exI [of _ 3])
  ultimately show ?thesis
    using sample_runs image copy_returns_exactly [of sample_query sample_bytes 4096] by simp
qed

section \<open>The walk finds the executable pages\<close>

text \<open>The walk without its accumulator.\<close>

fun walk_regions :: "nat \<Rightarrow> virtual_query \<Rightarrow> u64 \<Rightarrow> win_region list" where
  "walk_regions 0 query a = []"
| "walk_regions (Suc n) query a =
     (let info = snd (query a) in
      if fst (query a) = 0 \<or> mb_region_size info = 0 then []
      else (if is_executable info then [region_at a info] else []) @
        (case checked_add_word a (mb_region_size info) of None \<Rightarrow> [] | Some b \<Rightarrow> walk_regions n query b))"

lemma walk_eq: "walk n query a found = found @ walk_regions n query a"
  by (induction n arbitrary: a found) (auto simp: Let_def split: prod.splits option.splits)

definition executable_at :: "virtual_query \<Rightarrow> u64 \<Rightarrow> bool" where
  "executable_at query x \<longleftrightarrow> fst (query x) \<noteq> 0 \<and> is_executable (snd (query x))"

definition pages_alike :: "virtual_query \<Rightarrow> bool" where
  "pages_alike query \<longleftrightarrow>
     (\<forall>a x. fst (query a) \<noteq> 0 \<and> mb_base_address (snd (query a)) = a \<and> a \<le> x
        \<and> unat x < unat a + unat (mb_region_size (snd (query a))) \<longrightarrow>
        executable_at query x = is_executable (snd (query a)))"

text \<open>A walk that reaches, within its passes, the address above which the system answers nothing.\<close>

fun walk_whole :: "nat \<Rightarrow> virtual_query \<Rightarrow> u64 \<Rightarrow> bool" where
  "walk_whole 0 query a \<longleftrightarrow> False"
| "walk_whole (Suc n) query a \<longleftrightarrow>
     (if fst (query a) = 0 then (\<forall>x. a \<le> x \<longrightarrow> fst (query x) = 0)
      else mb_region_size (snd (query a)) \<noteq> 0 \<and> mb_base_address (snd (query a)) = a
        \<and> (case checked_add_word a (mb_region_size (snd (query a))) of
             None \<Rightarrow> False | Some b \<Rightarrow> walk_whole n query b))"

definition holds_address :: "win_region \<Rightarrow> u64 \<Rightarrow> bool" where
  "holds_address r x \<longleftrightarrow> wr_start r \<le> x \<and> x < wr_end r"

definition run_region :: "virtual_query \<Rightarrow> win_region \<Rightarrow> bool" where
  "run_region query r \<longleftrightarrow> executable_at query (wr_start r) \<and> r = region_at (wr_start r) (snd (query (wr_start r)))
     \<and> (wr_start r < wr_end r \<or> wr_start r = - 1)"

lemma region_at_simps [simp]:
  "wr_start (region_at a info) = a" "wr_end (region_at a info) = saturating_add a (mb_region_size info)"
  by (simp_all add: region_at_def)

lemma saturating_beyond: "n \<noteq> 0 \<Longrightarrow> a < saturating_add a n \<or> a = - 1" for a n :: u64
proof -
  assume "n \<noteq> 0"
  then have "0 < unat n" by (simp add: unat_gt_0)
  moreover have "a = - 1 \<longleftrightarrow> unat a = 2 ^ 64 - 1"
    by (simp add: word_unat_eq_iff unsigned_minus_1_eq_mask mask_eq_exp_minus_1)
  ultimately show ?thesis
    using unsigned_less [of a, where 'a = nat] by (auto simp: word_less_nat_alt unat_saturating_add min_def)
qed

lemma checked_add_step:
  "checked_add_word a n = Some b \<Longrightarrow> saturating_add a n = b \<and> unat b = unat a + unat n" for a b n :: u64
  using unsigned_less [of b, where 'a = nat] by (auto simp: checked_add_word_Some saturating_add_def)

lemma walk_regions_sound:
  "sorted_wrt (\<lambda>r s. wr_end r \<le> wr_start s) (walk_regions n query a)
   \<and> list_all (\<lambda>r. run_region query r \<and> a \<le> wr_start r) (walk_regions n query a)"
proof (induction n arbitrary: a)
  case (Suc n)
  let ?info = "snd (query a)"
  show ?case
  proof (cases "fst (query a) = 0 \<or> mb_region_size ?info = 0")
    case False
    then have here: "is_executable ?info \<Longrightarrow> run_region query (region_at a ?info)"
      using saturating_beyond by (auto simp: run_region_def executable_at_def)
    show ?thesis
    proof (cases "checked_add_word a (mb_region_size ?info)")
      case None
      then show ?thesis using False here by (auto simp: Let_def)
    next
      case (Some b)
      then have "saturating_add a (mb_region_size ?info) = b" and "a \<le> b"
        by (auto dest!: checked_add_step simp: word_le_nat_alt)
      then show ?thesis using Suc.IH [of b] False here Some by (auto simp: Let_def list_all_iff)
    qed
  qed simp
qed simp

text \<open>Each region of the walk is what the system answered at its start.\<close>

lemma win_executable_at:
  "win_executable query = Inr rs \<Longrightarrow> r \<in> set rs \<Longrightarrow> r = region_at (wr_start r) (snd (query (wr_start r)))"
  using walk_regions_sound [of MAX_PASSES query 0]
  by (auto simp: win_executable_def walk_eq Let_def list_all_iff run_region_def split: if_splits)

lemma walk_regions_whole:
  assumes "pages_alike query" and "walk_whole n query a" and "a \<le> x"
  shows "executable_at query x \<longleftrightarrow> list_ex (\<lambda>r. holds_address r x) (walk_regions n query a)"
  using assms(2,3)
proof (induction n arbitrary: a)
  case (Suc n)
  let ?info = "snd (query a)"
  show ?case
  proof (cases "fst (query a) = 0")
    case True
    then show ?thesis using Suc.prems by (auto simp: executable_at_def Let_def)
  next
    case False
    with Suc.prems(1) obtain b where b: "checked_add_word a (mb_region_size ?info) = Some b"
      "walk_whole n query b" "mb_region_size ?info \<noteq> 0" "mb_base_address ?info = a"
      by (auto split: option.splits)
    have u: "unat b = unat a + unat (mb_region_size ?info)" "saturating_add a (mb_region_size ?info) = b"
      using checked_add_step [OF b(1)] by simp_all
    have rest: "list_all (\<lambda>r. b \<le> wr_start r) (walk_regions n query b)"
      using walk_regions_sound [of n query b] by (simp add: list_all_iff)
    show ?thesis
    proof (cases "x < b")
      case True
      then have "executable_at query x = is_executable ?info"
        using assms(1) False b(4) Suc.prems(2) u(1) unfolding pages_alike_def by (auto simp: word_less_nat_alt)
      moreover have "\<not> list_ex (\<lambda>r. holds_address r x) (walk_regions n query b)"
        using rest True by (auto simp: list_ex_iff list_all_iff holds_address_def)
      ultimately show ?thesis using False b Suc.prems(2) True u(2) by (auto simp: Let_def holds_address_def)
    next
      case ge: False
      then show ?thesis
        using Suc.IH [OF b(2)] False b u(2) by (auto simp: Let_def holds_address_def)
    qed
  qed
qed simp

text \<open>
  C34.  The walk over the executable regions.  What it returns is in address order without overlap, and
  each region is one run that the system called committed and executable, with its attributes.  When
  the answers describe uniform runs and the walk is not cut, by its bound or by a run without a size,
  an address is in a region exactly when its page is executable, and the walk fails exactly when no
  page is.
\<close>

theorem windows_walk_exact:
  "(\<forall>regions. win_executable query = Inr regions \<longrightarrow>
      regions \<noteq> [] \<and> sorted_wrt (\<lambda>r s. wr_end r \<le> wr_start s) regions \<and> list_all (run_region query) regions)
   \<and> (pages_alike query \<and> walk_whole MAX_PASSES query 0 \<longrightarrow>
        (\<forall>x. executable_at query x \<longleftrightarrow>
           (\<exists>regions. win_executable query = Inr regions \<and> list_ex (\<lambda>r. holds_address r x) regions)))"
proof (intro conjI allI impI)
  fix regions assume "win_executable query = Inr regions"
  then have "regions = walk_regions MAX_PASSES query 0" "regions \<noteq> []"
    by (auto simp: win_executable_def Let_def walk_eq split: if_splits)
  then show "regions \<noteq> []" "sorted_wrt (\<lambda>r s. wr_end r \<le> wr_start s) regions" "list_all (run_region query) regions"
    using walk_regions_sound [of MAX_PASSES query 0] by (simp_all add: list_all_iff)
next
  fix x assume "pages_alike query \<and> walk_whole MAX_PASSES query 0"
  then have "executable_at query x \<longleftrightarrow> list_ex (\<lambda>r. holds_address r x) (walk_regions MAX_PASSES query 0)"
    using walk_regions_whole [of query MAX_PASSES 0 x] by simp
  then show "executable_at query x \<longleftrightarrow>
      (\<exists>regions. win_executable query = Inr regions \<and> list_ex (\<lambda>r. holds_address r x) regions)"
    by (auto simp: win_executable_def Let_def walk_eq)
qed

text \<open>A process of three bytes: one run of code below an address where the system answers nothing.\<close>

definition sample_process :: virtual_query where
  "sample_process x =
     (if x < 3
      then (48, \<lparr>mb_base_address = 0, mb_allocation_base = 0, mb_region_size = 3,
                 mb_state = 0x1000, mb_protect = 0x20, mb_kind = 0x1000000\<rparr>)
      else (0, \<lparr>mb_base_address = 0, mb_allocation_base = 0, mb_region_size = 0,
                 mb_state = 0, mb_protect = 0, mb_kind = 0\<rparr>))"

lemma MAX_PASSES_Suc: "\<exists>n. MAX_PASSES = Suc (Suc n)"
  by (rule exI [of _ 99998]) (simp add: MAX_PASSES_def)

theorem windows_walk_exact_witness:
  "win_executable sample_process = Inr
     [\<lparr>wr_start = 0, wr_end = 3, wr_allocation_base = 0, wr_writable = False, wr_image = True, wr_mapped = False\<rparr>]
   \<and> pages_alike sample_process \<and> walk_whole MAX_PASSES sample_process 0
   \<and> executable_at sample_process 2 \<and> \<not> executable_at sample_process 3"
proof -
  obtain n where passes: "MAX_PASSES = Suc (Suc n)" using MAX_PASSES_Suc by blast
  have result: "win_executable sample_process = Inr
     [\<lparr>wr_start = 0, wr_end = 3, wr_allocation_base = 0, wr_writable = False, wr_image = True, wr_mapped = False\<rparr>]"
    by (simp add: win_executable_def passes sample_process_def is_executable_def MEM_COMMIT_def EXECUTE_def
        EXECUTE_WRITE_def MEM_IMAGE_def MEM_MAPPED_def region_at_def saturating_add_def checked_add_word_def Let_def)
  have alike: "pages_alike sample_process"
    by (auto simp: pages_alike_def executable_at_def sample_process_def is_executable_def word_less_nat_alt)
  have whole: "walk_whole MAX_PASSES sample_process 0"
    by (auto simp: passes sample_process_def checked_add_word_def)
  show ?thesis
    using windows_walk_exact [of sample_process] result alike whole by (auto simp: holds_address_def)
qed

text \<open>
  A walk that its bound cuts is returned as a whole one: with runs of one byte the pages above the
  bound are not reported, and the result is still a success.
\<close>

definition scattered :: virtual_query where
  "scattered x =
     (48, \<lparr>mb_base_address = x, mb_allocation_base = 0, mb_region_size = 1,
           mb_state = 0x1000, mb_protect = (if x = 0 \<or> x = 200000 then 0x40 else 0x02), mb_kind = 0x20000\<rparr>)"

lemma walk_regions_cut:
  assumes "\<And>x. mb_region_size (snd (query x)) = 1" and "r \<in> set (walk_regions n query a)"
  shows "unat (wr_start r) < unat a + n"
  using assms(2)
proof (induction n arbitrary: a)
  case (Suc n)
  then consider "r = region_at a (snd (query a))"
    | b where "checked_add_word a 1 = Some b" "r \<in> set (walk_regions n query b)"
    by (cases "checked_add_word a 1") (auto simp: Let_def assms(1) split: if_splits)
  then show ?case
  proof cases
    case 2
    then have "unat b = unat a + 1" using checked_add_step [of a 1 b] by simp
    with Suc.IH [OF 2(2)] show ?thesis by simp
  qed simp
qed simp

lemma cut_walk_is_a_success:
  "\<exists>regions. win_executable scattered = Inr regions \<and> pages_alike scattered \<and> executable_at scattered 200000
     \<and> \<not> list_ex (\<lambda>r. holds_address r 200000) regions"
proof -
  let ?regions = "walk_regions MAX_PASSES scattered 0"
  have size: "mb_region_size (snd (scattered x)) = 1" for x by (simp add: scattered_def)
  obtain n where passes: "MAX_PASSES = Suc (Suc n)" using MAX_PASSES_Suc by blast
  have "?regions \<noteq> []"
    by (simp add: passes scattered_def is_executable_def MEM_COMMIT_def EXECUTE_def)
  then have "win_executable scattered = Inr ?regions" by (simp add: win_executable_def walk_eq)
  moreover have "executable_at scattered 200000"
    by (simp add: executable_at_def scattered_def is_executable_def MEM_COMMIT_def EXECUTE_def)
  moreover have "pages_alike scattered"
    unfolding pages_alike_def executable_at_def by (auto simp: scattered_def is_executable_def word_le_nat_alt word_unat_eq_iff)
  moreover have "\<not> holds_address r 200000" if r: "r \<in> set ?regions" for r
  proof -
    from walk_regions_cut [OF size r] have "unat (wr_start r) < 100000" by (simp add: MAX_PASSES_def)
    moreover from r have "wr_end r = saturating_add (wr_start r) 1"
      using walk_regions_sound [of MAX_PASSES scattered 0]
      by (metis (no_types, lifting) list_all_iff region_at_simps(2) run_region_def size)
    ultimately show ?thesis by (simp add: holds_address_def word_less_nat_alt unat_saturating_add)
  qed
  ultimately show ?thesis by (auto simp: list_ex_iff)
qed

end
