(* ===== verification/Fid_Windows.thy ===== *)
theory Fid_Windows
  imports Fid_Linux Fid_Pe Fid_Win_Memory
begin

text \<open>
  The Windows probe (\<open>probe/fidelity-probe-windows\<close>): the Win32 boundaries under \<open>sys/\<close> and the
  capabilities over them.  What each call answers is a field of a record: the value it returns and
  what it writes.  The certificate walk keeps a log of the handles it releases, and the trust check a
  log of its calls.  The theorems say what a clean detector means on Windows, and that the boundary
  releases what it takes.
\<close>

section \<open>The operating system\<close>

text \<open>What one call of \<open>WinVerifyTrust\<close> is given (\<open>WINTRUST_DATA\<close> and its \<open>WINTRUST_FILE_INFO\<close>).\<close>

record trust_data =
  td_file_path :: "u16 list"
  td_ui_choice :: u32
  td_revocation_checks :: u32
  td_union_choice :: u32
  td_state_action :: u32
  td_prov_flags :: u32

text \<open>The encoded bytes of a certificate context; a null pointer is \<open>None\<close>.\<close>

record cert_context =
  cc_encoded :: "bytes option"

text \<open>
  A handle is an address, and zero is the null handle.  A call that writes into a buffer gives what it
  writes from the start of the buffer; the rest keeps the zeros that the code put there.
\<close>

record windows_os =
  wn_query :: virtual_query
  wn_memory :: memory
  wn_mapped_file :: "u64 \<Rightarrow> u32"
  wn_modules :: "int \<times> u32 \<times> u64 list"
  wn_debugger :: "int \<times> int"
  wn_module :: u64
  wn_module_info :: "u64 \<Rightarrow> int \<times> u64 \<times> u32"
  wn_table_size :: u32
  wn_table_read :: "u32 \<Rightarrow> u32 \<times> bytes"
  wn_module_name :: "u32 \<times> u16 list"
  wn_verify :: "trust_data \<Rightarrow> int"
  wn_crypt_query :: "u16 list \<Rightarrow> int \<times> u64 \<times> u64"
  wn_param_size :: "u64 \<Rightarrow> int \<times> u32"
  wn_param_read :: "u64 \<Rightarrow> u32 \<Rightarrow> int \<times> bytes"
  wn_find_certificate :: "u64 \<Rightarrow> bytes \<Rightarrow> u64"
  wn_context :: "u64 \<Rightarrow> cert_context"

section \<open>The boundaries\<close>

subsection \<open>The modules (\<open>sys/catalog.rs\<close>)\<close>

definition MAX_MODULES :: nat where "MAX_MODULES = 4096"

text \<open>The buffer holds \<open>4096 * 8\<close> bytes, which a \<open>u32\<close> holds, so its conversion never fails.\<close>

definition module_bases :: "windows_os \<Rightarrow> string + u64 list" where
  "module_bases os = (case wn_modules os of (ok, needed, written) \<Rightarrow>
     let bytes = MAX_MODULES * 8;
         modules = filled MAX_MODULES 0 written in
     if ok = 0 then Inl ''the module-catalog read failed''
     else if unat needed > bytes then Inl ''the module catalog reached its bound''
     else let modules = take (unat needed div 8) modules in
       if modules = [] \<or> list_ex (\<lambda>m. m = 0) modules
       then Inl ''the module catalog reported an invalid base address''
       else Inr modules)"

subsection \<open>The debugger (\<open>sys/debug.rs\<close>)\<close>

definition debugger_present :: "windows_os \<Rightarrow> string + bool" where
  "debugger_present os = (case wn_debugger os of (ok, present) \<Rightarrow>
     if ok = 0 then Inl ''CheckRemoteDebuggerPresent failed on this process'' else Inr (present \<noteq> 0))"

subsection \<open>The import table (\<open>sys/dispatch.rs\<close>)\<close>

definition MAX_IMAGE_BYTES :: u64 where "MAX_IMAGE_BYTES = 256 * 1024 * 1024"

definition win_read_targets :: "windows_os \<Rightarrow> raw_targets access option" where
  "win_read_targets os =
     (let module = wn_module os in
      if module = 0 then Some Absent
      else case wn_module_info os module of (reported, base, image_size) \<Rightarrow>
        if reported = 0 \<or> base \<noteq> module \<or> image_size = 0 then Some Absent
        else map_option (\<lambda>copied. access_bind copied (\<lambda>img.
               access_bind (or_absent (mapped_import_slots img base max_targets)) (\<lambda>slots.
                 Got \<lparr>rw_targets = map (\<lambda>(slot, value). \<lparr>rw_slot = of_nat slot, rw_value = of_nat value\<rparr>) slots, rw_bound = True\<rparr>)))
             (copy_readable_allocation (wn_query os) (wn_memory os) base (ucast image_size) MAX_IMAGE_BYTES))"

subsection \<open>The firmware table (\<open>sys/firmware.rs\<close>)\<close>

definition TABLE_HEADER_BYTES :: nat where "TABLE_HEADER_BYTES = 8"
definition MOST_BYTES :: u32 where "MOST_BYTES = 0x100000"

definition smbios_table :: "windows_os \<Rightarrow> string + bytes" where
  "smbios_table os =
     (let sz = wn_table_size os in
      if sz = 0 then Inl ''the firmware of this machine supplies no SMBIOS table''
      else if sz > MOST_BYTES then Inl ''the firmware reported an SMBIOS table above the limit that a probe reads''
      else case wn_table_read os sz of (written, content) \<Rightarrow>
        if written = 0 \<or> written > sz then Inl ''the firmware table did not fit the size that the call reported''
        else let buffer = take (unat written) (filled (unat sz) 0 content) in
          if length buffer \<le> TABLE_HEADER_BYTES then Inl ''the firmware table holds a header and no structure''
          else Inr (drop TABLE_HEADER_BYTES buffer))"

subsection \<open>The running image (\<open>sys/image.rs\<close>)\<close>

definition MAX_PATH_UNITS :: u32 where "MAX_PATH_UNITS = 32768"

definition win_image_path :: "windows_os \<Rightarrow> string + u16 list" where
  "win_image_path os = (case wn_module_name os of (written, content) \<Rightarrow>
     if written = 0 then Inl ''the operating system named no path for the running image''
     else if written \<ge> MAX_PATH_UNITS then Inl ''the path of the running image did not fit''
     else Inr (take (unat written + 1) (filled (unat MAX_PATH_UNITS) 0 content)))"

subsection \<open>The trust in the image (\<open>sys/wintrust.rs\<close>)\<close>

definition UI_NONE :: u32 where "UI_NONE = 2"
definition REVOKE_NONE :: u32 where "REVOKE_NONE = 0"
definition CHOICE_FILE :: u32 where "CHOICE_FILE = 1"
definition STATE_VERIFY :: u32 where "STATE_VERIFY = 1"
definition STATE_CLOSE :: u32 where "STATE_CLOSE = 2"
definition CACHE_ONLY :: u32 where "CACHE_ONLY = 0x1000"
definition TRUST_E_NOSIGNATURE :: int where "TRUST_E_NOSIGNATURE = - 0x7FF4FF00"

datatype trust = TrustAccepted | TrustUnsigned | TrustRejected

definition trust_request :: "u16 list \<Rightarrow> trust_data" where
  "trust_request path =
     \<lparr>td_file_path = path, td_ui_choice = UI_NONE, td_revocation_checks = REVOKE_NONE,
      td_union_choice = CHOICE_FILE, td_state_action = STATE_VERIFY, td_prov_flags = CACHE_ONLY\<rparr>"

text \<open>The verdict, and the calls in their order.\<close>

definition wintrust_verify :: "windows_os \<Rightarrow> u16 list \<Rightarrow> trust \<times> trust_data list" where
  "wintrust_verify os path =
     (let data = trust_request path;
          result = wn_verify os data;
          closing = data\<lparr>td_state_action := STATE_CLOSE\<rparr>
      in (if result = 0 then TrustAccepted
          else if result = TRUST_E_NOSIGNATURE then TrustUnsigned
          else TrustRejected, [data, closing]))"

subsection \<open>The certificate of the signer (\<open>sys/crypt.rs\<close>)\<close>

datatype release = CertFreeCertificateContext u64 | CryptMsgClose u64 | CertCloseStore u64

definition read_signer :: "windows_os \<Rightarrow> u64 \<Rightarrow> u64 \<Rightarrow> (string + bytes) \<times> release list" where
  "read_signer os store message = (case wn_param_size os message of (sized, sz) \<Rightarrow>
     if sized = 0 \<or> sz = 0 then (Inl ''the signature names no signer'', [])
     else case wn_param_read os message sz of (done, content) \<Rightarrow>
       if done = 0 then (Inl ''the signer of the signature did not read'', [])
       else let context = wn_find_certificate os store (filled (unat sz) 0 content) in
         if context = 0 then (Inl ''the store holds no certificate for the signer'', [])
         else (case cc_encoded (wn_context os context) of
                 None \<Rightarrow> Inl ''the certificate of the signer holds no bytes''
               | Some encoded \<Rightarrow>
                   if encoded = [] then Inl ''the certificate of the signer holds no bytes'' else Inr encoded,
               [CertFreeCertificateContext context]))"

definition win_signer_certificate :: "windows_os \<Rightarrow> u16 list \<Rightarrow> (string + bytes) \<times> release list" where
  "win_signer_certificate os path = (case wn_crypt_query os path of (queried, store, message) \<Rightarrow>
     if queried = 0 then (Inl ''the running image carries no embedded signature'', [])
     else case read_signer os store message of (found, released) \<Rightarrow>
       (found, released @ (if message \<noteq> 0 then [CryptMsgClose message] else [])
                        @ (if store \<noteq> 0 then [CertCloseStore store] else [])))"

section \<open>The capabilities\<close>

definition WIN_TRACED :: string where
  "WIN_TRACED = ''the kernel reports a debugger on this process''"

definition win_tracer_state :: "windows_os \<Rightarrow> tracer_state observation" where
  "win_tracer_state os = (case debugger_present os of
       Inr False \<Rightarrow> Fact tracer_state.TracerAbsent
     | Inr True \<Rightarrow> Fact (TracerHeld (bounded_text_new WIN_TRACED))
     | Inl detail \<Rightarrow> ObsFailed (bounded_text_new detail))"

definition win_code_regions :: "windows_os \<Rightarrow> code_regions observation" where
  "win_code_regions os = (case win_executable (wn_query os) of
       Inl detail \<Rightarrow> ObsFailed (bounded_text_new detail)
     | Inr walked \<Rightarrow> Fact (code_regions_new (map (\<lambda>r. region_new (wr_start r) (wr_end r) (wr_writable r)) walked)))"

definition count_win_region :: "region_count \<Rightarrow> win_region \<Rightarrow> region_count" where
  "count_win_region c r =
     \<lparr>rc_regions = saturating_add (rc_regions c) 1,
      rc_bytes = saturating_add (rc_bytes c) (saturating_sub (wr_end r) (wr_start r))\<rparr>"

definition win_code_origin :: "windows_os \<Rightarrow> code_origin observation" where
  "win_code_origin os = (case win_executable (wn_query os) of
       Inl detail \<Rightarrow> ObsFailed (bounded_text_new detail)
     | Inr walked \<Rightarrow>
         let found = foldl count_win_region region_default
               (filter (\<lambda>r. \<not> wr_accounted (wn_mapped_file os) r) walked) in
         if rc_regions found = 0 then Fact Accounted
         else Fact (Unaccounted (rc_regions found)
                (bounded_text_new (region_detail ''unaccounted executable memory: '' found))))"

definition win_image_catalog_state :: "windows_os \<Rightarrow> image_catalog_state observation" where
  "win_image_catalog_state os = (case win_executable (wn_query os) of
       Inl detail \<Rightarrow> obs_failed detail
     | Inr regions \<Rightarrow> (case module_bases os of
           Inl detail \<Rightarrow> obs_failed detail
         | Inr bases \<Rightarrow>
             let found = foldl (\<lambda>c r. if wr_allocation_base r \<in> set bases then c else count_win_region c r)
                   region_default (filter wr_image regions) in
             if rc_regions found = 0 then Fact CatalogAccounted
             else Fact (Unregistered (rc_regions found)
                    (bounded_text_new (region_detail ''unregistered executable image: '' found)))))"

definition no_import_table :: string where
  "no_import_table = ''the image of the host holds no import table''"

text \<open>
  A read that faults ends the process and one that never returns blocks the scan; both are kept as
  \<open>Panic\<close>; the theorems on the copy and on the snapshot show that neither happens.
\<close>

definition win_dispatch_targets :: "windows_os \<Rightarrow> dispatch_targets observation exec" where
  "win_dispatch_targets os = (case win_read_targets os of
       None \<Rightarrow> Panic
     | Some Fault \<Rightarrow> Panic
     | Some Absent \<Rightarrow> Returns (ObsUnsupported no_import_table)
     | Some (Got raw) \<Rightarrow> Returns (Fact (dispatch_targets_new
         (map (\<lambda>t. target_new (rw_slot t) (rw_value t)) (rw_targets raw)) (rw_bound raw))))"

definition SMBIOS_UNREADABLE :: string where
  "SMBIOS_UNREADABLE = ''the firmware table stated no System Information structure''"

definition win_machine_host :: "windows_os \<Rightarrow> machine_host observation" where
  "win_machine_host os = (case smbios_table os of
       Inl detail \<Rightarrow> ObsFailed (bounded_text_new detail)
     | Inr table \<Rightarrow> (case system_information table of
           None \<Rightarrow> ObsFailed (bounded_text_new SMBIOS_UNREADABLE)
         | Some identity \<Rightarrow> (case names_a_monitor (sy_manufacturer identity) (sy_product identity) of
               Some field \<Rightarrow> Fact (VirtualMachine (bounded_text_new (''the firmware names the machine '' @ field)))
             | None \<Rightarrow> Fact Hardware)))"

definition UNSIGNED :: string where
  "UNSIGNED = ''the running image carries no Authenticode signature''"
definition NOT_TRUSTED :: string where
  "NOT_TRUSTED = ''the Authenticode signature of the running image did not validate''"
definition win_accepted_gap :: string where
  "win_accepted_gap = ''the host accepted no identity check on Windows''"
definition win_no_host_value :: string where
  "win_no_host_value = ''the host stated no identity value for Windows''"
definition ANOTHER_SIGNER :: string where
  "ANOTHER_SIGNER = ''the running image carries another signing certificate''"
definition no_image_path :: string where
  "no_image_path = ''the running image named no path''"

definition win_digest :: "windows_os \<Rightarrow> u16 list \<Rightarrow> string + bytes" where
  "win_digest os path = map_sum id sha256 (fst (win_signer_certificate os path))"

definition win_compare :: "bytes \<Rightarrow> bytes \<Rightarrow> identity_match" where
  "win_compare found pinned =
     (if found = pinned then Same else Different (bounded_text_new ANOTHER_SIGNER))"

definition win_label :: "string \<Rightarrow> string" where
  "win_label h = ''certificate sha256 '' @ (case str_get h 0 8 of None \<Rightarrow> h | Some t \<Rightarrow> t)"

definition win_code_identity :: "windows_os \<Rightarrow> code_identity observation" where
  "win_code_identity os = (case win_image_path os of
       Inl _ \<Rightarrow> obs_failed no_image_path
     | Inr path \<Rightarrow>
         let trust = (case fst (wintrust_verify os path) of
               TrustAccepted \<Rightarrow> Accepted
             | TrustUnsigned \<Rightarrow> Rejected (bounded_text_new UNSIGNED)
             | TrustRejected \<Rightarrow> Rejected (bounded_text_new NOT_TRUSTED));
             signer = (case win_digest os path of
               Inr found \<Rightarrow> Some (signer_new (as_bytes (hex found)) (win_label (hex found)))
             | Inl _ \<Rightarrow> None)
         in Fact \<lparr>ci_trust = trust, ci_signer = signer\<rparr>)"

definition win_identity_match :: "windows_os \<Rightarrow> expected_identity \<Rightarrow> identity_match observation" where
  "win_identity_match os expected = (case ei_windows expected of
       Some (Value (AuthenticodeThumbprint pinned)) \<Rightarrow> (case win_image_path os of
           Inl _ \<Rightarrow> obs_failed no_image_path
         | Inr path \<Rightarrow> (case win_digest os path of
               Inr found \<Rightarrow> Fact (win_compare found pinned)
             | Inl reason \<Rightarrow> obs_failed reason))
     | Some AcceptUnsupported \<Rightarrow> ObsUnsupported win_accepted_gap
     | None \<Rightarrow> ObsUnsupported win_no_host_value)"

definition windows_environment :: "windows_os \<Rightarrow> local_agent_state observation exec \<Rightarrow> environment" where
  "windows_environment os agent =
     (default_environment Windows agent)
      \<lparr>en_code_identity := Returns (win_code_identity os),
       en_identity_match := (\<lambda>expected. Returns (win_identity_match os expected)),
       en_code_regions := Returns (win_code_regions os),
       en_tracer_state := Returns (win_tracer_state os),
       en_code_origin := Returns (win_code_origin os),
       en_dispatch_targets := win_dispatch_targets os,
       en_image_catalog_state := Returns (win_image_catalog_state os),
       en_machine_host := Returns (win_machine_host os)\<rparr>"

section \<open>What the boundary releases\<close>

text \<open>The handles that the certificate walk is given, in the order it is given them.\<close>

definition context_taken :: "windows_os \<Rightarrow> u64 \<Rightarrow> u64 \<Rightarrow> u64" where
  "context_taken os store message = (case wn_param_size os message of (sized, sz) \<Rightarrow>
     if sized = 0 \<or> sz = 0 then 0
     else case wn_param_read os message sz of (ok, content) \<Rightarrow>
       if ok = 0 then 0 else wn_find_certificate os store (filled (unat sz) 0 content))"

definition handles_taken :: "windows_os \<Rightarrow> u16 list \<Rightarrow> release list" where
  "handles_taken os path = (case wn_crypt_query os path of (queried, store, message) \<Rightarrow>
     if queried = 0 then []
     else (if store \<noteq> 0 then [CertCloseStore store] else []) @ (if message \<noteq> 0 then [CryptMsgClose message] else [])
        @ map CertFreeCertificateContext (filter (\<lambda>c. c \<noteq> 0) [context_taken os store message]))"

lemma read_signer_releases:
  "snd (read_signer os store message)
     = map CertFreeCertificateContext (filter (\<lambda>c. c \<noteq> 0) [context_taken os store message])"
  by (auto simp: read_signer_def context_taken_def Let_def split: prod.splits)

text \<open>On every path, each handle is released once, with its own call, the last taken first.\<close>

lemma signer_handles_released: "snd (win_signer_certificate os path) = rev (handles_taken os path)"
proof -
  obtain queried store message where q: "wn_crypt_query os path = (queried, store, message)" by (metis prod_cases3)
  obtain found released where r: "read_signer os store message = (found, released)" by fastforce
  with read_signer_releases [of os store message] q show ?thesis
    by (auto simp: win_signer_certificate_def handles_taken_def)
qed

text \<open>
  The trust check closes the state that it opens, for the same file, and neither call reaches the
  network or shows anything.
\<close>

lemma trust_calls_offline:
  "map td_state_action (snd (wintrust_verify os path)) = [STATE_VERIFY, STATE_CLOSE]
   \<and> list_all (\<lambda>d. td_file_path d = path \<and> td_revocation_checks d = REVOKE_NONE \<and> td_prov_flags d = CACHE_ONLY
        \<and> td_ui_choice d = UI_NONE) (snd (wintrust_verify os path))"
  by (simp add: wintrust_verify_def trust_request_def Let_def)

section \<open>Clean facts\<close>

lemma count_win_region_pos: "0 < unat (rc_regions (count_win_region c r))"
  by (simp add: count_win_region_def unat_saturating_add)

lemma fold_count_win:
  "rc_regions (foldl (\<lambda>c r. if P r then c else count_win_region c r) c rs) = 0 \<longleftrightarrow> rc_regions c = 0 \<and> list_all P rs"
proof (induction rs arbitrary: c)
  case (Cons r rs)
  have "rc_regions (count_win_region c r) \<noteq> 0" using count_win_region_pos [of c r] by auto
  with Cons show ?case by auto
qed simp

lemma foldl_filter_count:
  "foldl count_win_region c (filter (\<lambda>r. \<not> P r) rs) = foldl (\<lambda>c r. if P r then c else count_win_region c r) c rs"
  by (induction rs arbitrary: c) auto

text \<open>
  The answers of the system that a clean detector rests on, written with the numbers of the Win32
  headers: what is behind the page run at an address; the bases that a complete module list states;
  the firmware table behind its eight bytes of header; the path of the image that fits with its
  terminator; the certificate that the embedded signature leads to.
\<close>

definition file_behind :: "windows_os \<Rightarrow> u64 \<Rightarrow> bool" where
  "file_behind os a \<longleftrightarrow> mb_kind (snd (wn_query os a)) = 0x1000000
     \<or> mb_kind (snd (wn_query os a)) = 0x40000 \<and> wn_mapped_file os a \<noteq> 0"

definition image_listed :: "windows_os \<Rightarrow> u64 list \<Rightarrow> u64 \<Rightarrow> bool" where
  "image_listed os bases a \<longleftrightarrow>
     (mb_kind (snd (wn_query os a)) = 0x1000000 \<longrightarrow> mb_allocation_base (snd (wn_query os a)) \<in> set bases)"

definition modules_stated :: "windows_os \<Rightarrow> u64 list \<Rightarrow> bool" where
  "modules_stated os bases \<longleftrightarrow> (\<exists>ok needed written. wn_modules os = (ok, needed, written) \<and> ok \<noteq> 0
     \<and> unat needed \<le> 4096 * 8 \<and> bases = take (unat needed div 8) (written @ replicate 4096 0)
     \<and> bases \<noteq> [] \<and> 0 \<notin> set bases)"

definition firmware_stated :: "windows_os \<Rightarrow> bytes \<Rightarrow> bool" where
  "firmware_stated os table \<longleftrightarrow> (\<exists>written content. wn_table_read os (wn_table_size os) = (written, content)
     \<and> wn_table_size os \<le> 0x100000 \<and> 8 < unat written \<and> written \<le> wn_table_size os
     \<and> table = drop 8 (take (unat written) (content @ replicate (unat (wn_table_size os)) 0)))"

definition path_stated :: "windows_os \<Rightarrow> u16 list \<Rightarrow> bool" where
  "path_stated os path \<longleftrightarrow> (\<exists>written content. wn_module_name os = (written, content)
     \<and> 0 < unat written \<and> unat written < 32768 \<and> path = take (unat written + 1) (content @ replicate 32768 0))"

definition trusted :: "windows_os \<Rightarrow> u16 list \<Rightarrow> bool" where
  "trusted os path \<longleftrightarrow> wn_verify os
     \<lparr>td_file_path = path, td_ui_choice = 2, td_revocation_checks = 0,
      td_union_choice = 1, td_state_action = 1, td_prov_flags = 0x1000\<rparr> = 0"

definition signed_with :: "windows_os \<Rightarrow> u16 list \<Rightarrow> bytes \<Rightarrow> bool" where
  "signed_with os path cert \<longleftrightarrow> (\<exists>queried store message sized sz ok content context.
     wn_crypt_query os path = (queried, store, message) \<and> queried \<noteq> 0
     \<and> wn_param_size os message = (sized, sz) \<and> sized \<noteq> 0 \<and> sz \<noteq> 0
     \<and> wn_param_read os message sz = (ok, content) \<and> ok \<noteq> 0
     \<and> wn_find_certificate os store (take (unat sz) (content @ replicate (unat sz) 0)) = context \<and> context \<noteq> 0
     \<and> cc_encoded (wn_context os context) = Some cert \<and> cert \<noteq> [])"

lemma accounted_iff:
  assumes "win_executable (wn_query os) = Inr rs" and "r \<in> set rs"
  shows "wr_accounted (wn_mapped_file os) r \<longleftrightarrow> file_behind os (wr_start r)"
    and "(wr_image r \<longrightarrow> wr_allocation_base r \<in> set bases) \<longleftrightarrow> image_listed os bases (wr_start r)"
proof -
  have "wr_image r \<longleftrightarrow> mb_kind (snd (wn_query os (wr_start r))) = 0x1000000"
    "wr_mapped r \<longleftrightarrow> mb_kind (snd (wn_query os (wr_start r))) = 0x40000"
    "wr_allocation_base r = mb_allocation_base (snd (wn_query os (wr_start r)))"
    by (subst win_executable_at [OF assms], simp add: region_at_def MEM_IMAGE_def MEM_MAPPED_def)+
  then show "wr_accounted (wn_mapped_file os) r \<longleftrightarrow> file_behind os (wr_start r)"
    and "(wr_image r \<longrightarrow> wr_allocation_base r \<in> set bases) \<longleftrightarrow> image_listed os bases (wr_start r)"
    by (auto simp: wr_accounted_def mapped_file_def file_behind_def image_listed_def)
qed

lemma module_bases_iff: "module_bases os = Inr bases \<longleftrightarrow> modules_stated os bases"
proof -
  obtain ok needed written where m: "wn_modules os = (ok, needed, written)" by (metis prod_cases3)
  have "take (unat needed div 8) (filled 4096 0 written) = take (unat needed div 8) (written @ replicate 4096 0)"
    if "unat needed \<le> 4096 * 8" using that by (auto simp: filled_def min_def)
  then show ?thesis
    by (auto simp: module_bases_def modules_stated_def m MAX_MODULES_def Let_def list_ex_iff)
qed

lemma smbios_table_iff: "smbios_table os = Inr table \<longleftrightarrow> firmware_stated os table"
proof -
  obtain written content where r: "wn_table_read os (wn_table_size os) = (written, content)" by fastforce
  have "take (unat written) (filled (unat (wn_table_size os)) 0 content)
      = take (unat written) (content @ replicate (unat (wn_table_size os)) 0)"
    and "length (take (unat written) (content @ replicate (unat (wn_table_size os)) 0)) = unat written"
    if "written \<le> wn_table_size os" using that by (auto simp: filled_def min_def word_le_nat_alt)
  then show ?thesis
    unfolding smbios_table_def firmware_stated_def Let_def r MOST_BYTES_def TABLE_HEADER_BYTES_def
    by (auto simp: not_le not_less word_le_nat_alt word_less_nat_alt unat_eq_0)
qed

lemma win_image_path_iff: "win_image_path os = Inr path \<longleftrightarrow> path_stated os path"
proof -
  obtain written content where n: "wn_module_name os = (written, content)" by fastforce
  have "take (unat written + 1) (filled 32768 0 content) = take (unat written + 1) (content @ replicate 32768 0)"
    if "unat written < 32768" using that by (auto simp: filled_def min_def)
  then show ?thesis
    by (auto simp: win_image_path_def path_stated_def n MAX_PATH_UNITS_def word_le_nat_alt unat_gt_0)
qed

lemma win_signer_certificate_iff: "fst (win_signer_certificate os path) = Inr cert \<longleftrightarrow> signed_with os path cert"
proof -
  obtain queried store message where q: "wn_crypt_query os path = (queried, store, message)" by (metis prod_cases3)
  obtain sized sz where s: "wn_param_size os message = (sized, sz)" by fastforce
  obtain ok content where p: "wn_param_read os message sz = (ok, content)" by fastforce
  show ?thesis
    by (auto simp: win_signer_certificate_def read_signer_def signed_with_def q s p filled_def Let_def
        split: option.splits prod.splits)
qed

lemma win_origin_clean:
  "win_code_origin os = Fact Accounted \<longleftrightarrow>
     (\<exists>rs. win_executable (wn_query os) = Inr rs \<and> list_all (\<lambda>r. file_behind os (wr_start r)) rs)"
proof -
  have "win_code_origin os = Fact Accounted \<longleftrightarrow>
      (\<exists>rs. win_executable (wn_query os) = Inr rs \<and> list_all (wr_accounted (wn_mapped_file os)) rs)"
    by (auto simp: win_code_origin_def Let_def foldl_filter_count fold_count_win region_default_def split: sum.splits)
  then show ?thesis by (auto simp: list_all_iff accounted_iff)
qed

lemma win_catalog_clean:
  "win_image_catalog_state os = Fact CatalogAccounted \<longleftrightarrow>
     (\<exists>rs bases. win_executable (wn_query os) = Inr rs \<and> modules_stated os bases
        \<and> list_all (\<lambda>r. image_listed os bases (wr_start r)) rs)"
proof -
  have "win_image_catalog_state os = Fact CatalogAccounted \<longleftrightarrow>
      (\<exists>rs bases. win_executable (wn_query os) = Inr rs \<and> modules_stated os bases
         \<and> list_all (\<lambda>r. wr_image r \<longrightarrow> wr_allocation_base r \<in> set bases) rs)"
    unfolding module_bases_iff [symmetric]
    by (auto simp: win_image_catalog_state_def Let_def fold_count_win region_default_def obs_failed_def list_all_iff
        split: sum.splits)
  then show ?thesis using accounted_iff(2) [of os] by (auto simp: list_all_iff)
qed

lemma win_machine_clean:
  "win_machine_host os = Fact Hardware \<longleftrightarrow>
     (\<exists>table identity. firmware_stated os table \<and> system_information table = Some identity
        \<and> list_all (\<lambda>field. list_all (\<lambda>name. \<not> starts_with field name) MONITORS)
            [sy_manufacturer identity, sy_product identity])"
  unfolding names_a_monitor_None [symmetric] smbios_table_iff [symmetric]
  by (auto simp: win_machine_host_def split: sum.splits option.splits)

lemma win_tracer_clean:
  "win_tracer_state os = Fact tracer_state.TracerAbsent \<longleftrightarrow> fst (wn_debugger os) \<noteq> 0 \<and> snd (wn_debugger os) = 0"
  by (auto simp: win_tracer_state_def debugger_present_def split: prod.splits sum.splits bool.splits)

lemma win_identity_clean:
  "win_identity_match os expected = Fact Same \<longleftrightarrow>
     (\<exists>path cert. path_stated os path \<and> signed_with os path cert
        \<and> ei_windows expected = Some (Value (AuthenticodeThumbprint (sha256 cert))))"
  unfolding win_image_path_iff [symmetric] win_signer_certificate_iff [symmetric]
  by (auto simp: win_identity_match_def win_digest_def win_compare_def obs_failed_def map_sum_def
      split: option.splits choice.splits authenticode_thumbprint.splits sum.splits if_splits)

lemma win_trust_clean:
  "(\<exists>i. win_code_identity os = Fact i \<and> ci_trust i = Accepted) \<longleftrightarrow> (\<exists>path. path_stated os path \<and> trusted os path)"
proof -
  have "trusted os path \<longleftrightarrow> wn_verify os (trust_request path) = 0" for path
    by (simp add: trusted_def trust_request_def UI_NONE_def REVOKE_NONE_def CHOICE_FILE_def STATE_VERIFY_def CACHE_ONLY_def)
  then show ?thesis
    unfolding win_image_path_iff [symmetric]
    by (auto simp: win_code_identity_def wintrust_verify_def Let_def obs_failed_def split: sum.splits trust.splits if_splits)
qed

text \<open>
  C36.  What a clean answer of a Windows process means, in the answers of the system.  The tracer
  detector is clean exactly when the kernel answered and named no debugger; the code detector exactly
  when the walk found executable regions and the system reports at the start of each an image, or a
  mapped section whose file it names; the catalog detector exactly when the walk succeeded, the module
  call succeeded within its bound and stated at least one base and no null base, and each executable
  image has the base of a stated module; the machine detector exactly when the firmware table was read
  whole within its limit, holds a system structure and names no monitor.  The trust detector is clean
  exactly when the path of the image was read untruncated and the offline trust provider answered
  zero for it; the identity detector exactly when the embedded signature of that file led to a
  certificate with the pinned digest.  The build and the boot, which Windows does not report, are
  never clean.
\<close>

theorem windows_clean_exact:
  "(tracer_present (windows_environment os agent) now = Returns Clean \<longleftrightarrow>
      fst (wn_debugger os) \<noteq> 0 \<and> snd (wn_debugger os) = 0)
   \<and> (unaccounted_code (windows_environment os agent) now = Returns Clean \<longleftrightarrow>
      (\<exists>rs. win_executable (wn_query os) = Inr rs \<and> list_all (\<lambda>r. file_behind os (wr_start r)) rs))
   \<and> (image_catalog (windows_environment os agent) now = Returns Clean \<longleftrightarrow>
      (\<exists>rs bases. win_executable (wn_query os) = Inr rs \<and> modules_stated os bases
         \<and> list_all (\<lambda>r. image_listed os bases (wr_start r)) rs))
   \<and> (machine_host_detector (windows_environment os agent) now = Returns Clean \<longleftrightarrow>
      (\<exists>table identity. firmware_stated os table \<and> system_information table = Some identity
         \<and> list_all (\<lambda>field. list_all (\<lambda>name. \<not> starts_with field name) MONITORS)
             [sy_manufacturer identity, sy_product identity]))
   \<and> (expected_identity_detector (windows_environment os agent) (Some expected) now = Returns Clean \<longleftrightarrow>
      (\<exists>path cert. path_stated os path \<and> signed_with os path cert
         \<and> ei_windows expected = Some (Value (AuthenticodeThumbprint (sha256 cert)))))
   \<and> (platform_trust_detector (windows_environment os agent) now = Returns Clean \<longleftrightarrow>
      (\<exists>path. path_stated os path \<and> trusted os path))
   \<and> system_build_detector (windows_environment os agent) now \<noteq> Returns Clean
   \<and> verified_boot (windows_environment os agent) now \<noteq> Returns Clean"
  by (simp add: detector_clean windows_environment_def win_tracer_clean win_origin_clean win_catalog_clean
      win_machine_clean win_identity_clean win_trust_clean default_environment_def)

section \<open>The import table of the process\<close>

text \<open>The eight bytes that the process holds at a slot of the module.\<close>

definition held_value :: "windows_os \<Rightarrow> u64 \<Rightarrow> u64" where
  "held_value os slot = of_nat (le_nat (map (\<lambda>i. page_byte (wn_query os) (wn_memory os) (slot + of_nat i)) [0..<8]))"

definition slot_of_module :: "windows_os \<Rightarrow> target \<Rightarrow> bool" where
  "slot_of_module os t \<longleftrightarrow>
     wn_module os \<le> tg_slot t
     \<and> unat (tg_slot t) + 8 \<le> unat (wn_module os) + unat (snd (snd (wn_module_info os (wn_module os))))
     \<and> tg_value t = held_value os (tg_slot t)"

lemma image_field:
  "off + k \<le> n \<Longrightarrow> take k (drop off (allocation_image query mem base n)) =
     map (\<lambda>i. page_byte query mem (base + of_nat off + of_nat i)) [0..<k]"
  by (rule nth_equalityI) (auto simp: allocation_image_def add.assoc)

lemma slot_in_allocation:
  assumes "slot_in_image (allocation_image (wn_query os) (wn_memory os) (wn_module os) n) (unat (wn_module os)) (s, v)"
    and "n = unat (snd (snd (wn_module_info os (wn_module os))))"
  shows "slot_of_module os (target_new (of_nat s) (of_nat v))"
proof -
  from assms(1) obtain off where off: "off + 8 \<le> n" "s = unat (wn_module os) + off"
      "v = le_nat (take 8 (drop off (allocation_image (wn_query os) (wn_memory os) (wn_module os) n)))" "s < 2 ^ 64"
    by (auto simp: slot_in_image_def allocation_image_def)
  have slot: "(of_nat s :: u64) = wn_module os + of_nat off" using off(2) by simp
  have "unat (wn_module os + of_nat off) = unat (wn_module os) + off" using off(2,4) by (simp add: unat_offset)
  then show ?thesis
    using slot off assms(2) image_field [OF off(1), of "wn_query os" "wn_memory os" "wn_module os"]
    by (simp add: slot_of_module_def target_new_def held_value_def word_le_nat_alt)
qed

lemma win_read_targets_sound:
  assumes "runs_uniform (wn_query os) (wn_memory os) (wn_module os)"
  shows "\<exists>r. win_read_targets os = Some r \<and> r \<noteq> Fault \<and> (\<forall>raw. r = Got raw \<longrightarrow>
    rw_bound raw \<and> rw_targets raw \<noteq> [] \<and> length (rw_targets raw) \<le> max_targets
    \<and> list_all (\<lambda>t. slot_of_module os (target_new (rw_slot t) (rw_value t))) (rw_targets raw))"
proof -
  obtain reported base sz where info: "wn_module_info os (wn_module os) = (reported, base, sz)"
    by (cases "wn_module_info os (wn_module os)") auto
  show ?thesis
  proof (cases "wn_module os = 0 \<or> reported = 0 \<or> base \<noteq> wn_module os \<or> sz = 0")
    case True
    then show ?thesis by (auto simp: win_read_targets_def info Let_def)
  next
    case False
    let ?img = "allocation_image (wn_query os) (wn_memory os) (wn_module os) (unat sz)"
    have "unat (ucast sz :: u64) = unat sz" 
      using unsigned_less [of sz, where 'a = nat] by (simp add: unsigned_ucast_eq take_bit_nat_eq_self_iff)
    then have copied: "copy_readable_allocation (wn_query os) (wn_memory os) base (ucast sz) MAX_IMAGE_BYTES
        \<in> {Some Absent, Some (Got ?img)}"
      using copy_exact [OF assms] False by simp
    have "list_all (\<lambda>t. slot_of_module os (target_new (rw_slot t) (rw_value t)))
        (map (\<lambda>(slot, value). \<lparr>rw_slot = of_nat slot, rw_value = of_nat value\<rparr>) slots)
        \<and> slots \<noteq> [] \<and> length slots \<le> max_targets"
      if "mapped_import_slots ?img base max_targets = Some slots" for slots
      using mapped_import_slots_sound [OF that] slot_in_allocation [of os "unat sz"] False info
      by (fastforce simp: list_all_iff max_targets_def)
    then show ?thesis
      using copied False by (auto simp: win_read_targets_def info Let_def or_absent_def split: option.splits)
  qed
qed

text \<open>
  C35.  The dispatch snapshot of a Windows process.  When the system describes uniform runs and a page
  that it calls readable is in the memory, the probe answers without a fault, whatever the image
  holds.  A snapshot lists at least one target; each slot lies with its eight bytes inside the module
  that the loader reported, and its value is what the process holds there.  The snapshot is bound and
  is never marked as truncated, also when the table has more slots than it keeps.
\<close>

theorem windows_dispatch_sound:
  assumes "runs_uniform (wn_query os) (wn_memory os) (wn_module os)"
  shows "\<exists>obs. win_dispatch_targets os = Returns obs
    \<and> (case obs of
         Fact ts \<Rightarrow> dt_targets ts \<noteq> [] \<and> list_all (slot_of_module os) (dt_targets ts)
           \<and> dispatch_targets.dt_bound ts \<and> \<not> dt_truncated ts
       | ObsUnsupported reason \<Rightarrow> reason = no_import_table
       | ObsFailed _ \<Rightarrow> False)"
proof -
  from win_read_targets_sound [OF assms] obtain r where r: "win_read_targets os = Some r" "r \<noteq> Fault"
    and got: "\<And>raw. r = Got raw \<Longrightarrow> rw_bound raw \<and> rw_targets raw \<noteq> [] \<and> length (rw_targets raw) \<le> max_targets
      \<and> list_all (\<lambda>t. slot_of_module os (target_new (rw_slot t) (rw_value t))) (rw_targets raw)" by blast
  show ?thesis
  proof (cases r)
    case (Got raw)
    let ?ts = "map (\<lambda>t. target_new (rw_slot t) (rw_value t)) (rw_targets raw)"
    let ?snapshot = "dispatch_targets_new ?ts (rw_bound raw)"
    from got [OF Got] have g: "rw_bound raw" "?ts \<noteq> []" "length ?ts \<le> max_targets" "list_all (slot_of_module os) ?ts"
      by (simp_all add: list_all_iff)
    note fit = dispatch_targets_fit [OF g(3), of "rw_bound raw"]
    have "win_dispatch_targets os = Returns (Fact ?snapshot)" using r(1) Got by (simp add: win_dispatch_targets_def)
    moreover have "dt_targets ?snapshot \<noteq> []"
    proof
      assume "dt_targets ?snapshot = []"
      then have "length (sort_key target_key ?ts) = 0" unfolding fit by (rule arg_cong [where f = length, THEN trans]) simp
      then show False using g(2) by simp
    qed
    moreover have "list_all (slot_of_module os) (dt_targets ?snapshot)" using g(4) unfolding fit list_all_iff by simp
    ultimately show ?thesis using fit(2,3) g(1) by (intro exI [of _ "Fact ?snapshot"]) (simp only: observation.case simp_thms)
  qed (use r in \<open>auto simp: win_dispatch_targets_def\<close>)
qed

text \<open>A process that holds the small image of the PE reader in one readable run at 4096.\<close>

abbreviation pe_image :: bytes where "pe_image \<equiv> Fid_Pe.sample_image"

definition pe_query :: virtual_query where
  "pe_query x =
     (if 4096 \<le> x \<and> x < 4400
      then (48, \<lparr>mb_base_address = 4096, mb_allocation_base = 4096, mb_region_size = 304,
                 mb_state = 0x1000, mb_protect = 0x20, mb_kind = 0x1000000\<rparr>)
      else (0, \<lparr>mb_base_address = 0, mb_allocation_base = 0, mb_region_size = 0,
                 mb_state = 0, mb_protect = 0, mb_kind = 0\<rparr>))"

definition pe_memory :: memory where
  "pe_memory x = (if 4096 \<le> x \<and> x < 4400 then Some (pe_image ! (unat x - 4096)) else None)"

definition sample_windows :: windows_os where
  "sample_windows =
     \<lparr>wn_query = pe_query, wn_memory = pe_memory, wn_mapped_file = (\<lambda>_. 0), wn_modules = (1, 8, [4096]),
      wn_debugger = (1, 0), wn_module = 4096, wn_module_info = (\<lambda>_. (1, 4096, 304)),
      wn_table_size = 0, wn_table_read = (\<lambda>_. (0, [])), wn_module_name = (3, [67, 58, 92]),
      wn_verify = (\<lambda>_. 0), wn_crypt_query = (\<lambda>_. (0, 0, 0)), wn_param_size = (\<lambda>_. (0, 0)),
      wn_param_read = (\<lambda>_ _. (0, [])), wn_find_certificate = (\<lambda>_ _. 0), wn_context = (\<lambda>_. \<lparr>cc_encoded = None\<rparr>)\<rparr>"

lemmas query_simps = usable_def readable_def MBI_SIZE_def MEM_COMMIT_def PAGE_GUARD_def PAGE_NOACCESS_def
  checked_add_word_def readable_at_def covered_def

lemma pe_runs: "runs_uniform pe_query pe_memory 4096"
  unfolding runs_uniform_def by (auto simp: pe_query_def pe_memory_def query_simps split: if_splits)

lemma pe_addresses: "4096 \<le> 4096 + (of_nat i :: u64)" "4096 + (of_nat i :: u64) < 4400"
  "unat (4096 + (of_nat i :: u64)) = 4096 + i" if "i < 304"
proof -
  show "unat (4096 + (of_nat i :: u64)) = 4096 + i" using that unat_offset [of 4096 i] by simp
  then show "4096 \<le> 4096 + (of_nat i :: u64)" "4096 + (of_nat i :: u64) < 4400"
    using that by (simp_all add: word_le_nat_alt word_less_nat_alt)
qed

lemma pe_copy: "copy_readable_allocation pe_query pe_memory 4096 304 MAX_IMAGE_BYTES = Some (Got pe_image)"
proof -
  have len: "length pe_image = 304" by (simp add: Fid_Pe.sample_image_def del: to_le.simps)
  have "covered pe_query 4096 (4096 + of_nat i)" if "i < 304" for i
    using pe_addresses [OF that] by (auto simp: pe_query_def query_simps)
  then have "covered_from pe_query 4096 304" by (simp add: covered_from_def)
  moreover have "allocation_image pe_query pe_memory 4096 304 = pe_image"
    by (rule nth_equalityI)
      (simp_all add: allocation_image_def len page_byte_def pe_query_def pe_memory_def query_simps pe_addresses)
  ultimately show ?thesis by (simp add: copy_exact [OF pe_runs] MAX_IMAGE_BYTES_def)
qed

theorem windows_dispatch_sound_witness:
  "runs_uniform (wn_query sample_windows) (wn_memory sample_windows) (wn_module sample_windows)
   \<and> win_dispatch_targets sample_windows
      = Returns (Fact \<lparr>dt_targets = [\<lparr>tg_slot = 0x1120, tg_value = 7\<rparr>], dt_bound = True, dt_truncated = False\<rparr>)
   \<and> held_value sample_windows 0x1120 = 7"
proof -
  have runs: "runs_uniform (wn_query sample_windows) (wn_memory sample_windows) (wn_module sample_windows)"
    using pe_runs by (simp add: sample_windows_def)
  have "mapped_import_slots pe_image 4096 max_targets = Some [(0x1120, 7)]"
    using sample_imports [of max_targets] by (simp add: max_targets_def)
  then have read: "win_dispatch_targets sample_windows
      = Returns (Fact \<lparr>dt_targets = [\<lparr>tg_slot = 0x1120, tg_value = 7\<rparr>], dt_bound = True, dt_truncated = False\<rparr>)"
    using pe_copy by (simp add: win_dispatch_targets_def win_read_targets_def sample_windows_def or_absent_def
        dispatch_targets_new_def target_new_def max_targets_def)
  with windows_dispatch_sound [OF runs] have "held_value sample_windows 0x1120 = 7"
    by (simp add: slot_of_module_def)
  with runs read show ?thesis by blast
qed

end
