(* ===== verification/Fid_Macho.thy ===== *)
theory Fid_Macho
  imports Fid_Text
begin

text \<open>
  The readers of a signed Apple image (\<open>fidelity-formats/src/macho\<close>): the location of the code
  signature (\<open>image.rs\<close>), the dispatch sections (\<open>dispatch.rs\<close>), the entitlements slot of the
  signature (\<open>signature.rs\<close>) and the team identifier of the plist (\<open>entitlements.rs\<close>).
\<close>

section \<open>Load commands\<close>

definition MAX_COMMAND_BYTES :: nat where "MAX_COMMAND_BYTES = 4 * 1024 * 1024"
definition LOAD_COMMAND_BYTES :: nat where "LOAD_COMMAND_BYTES = 8"
definition SEGMENT_COMMAND_BYTES :: nat where "SEGMENT_COMMAND_BYTES = 72"
definition SIGNATURE_COMMAND_BYTES :: nat where "SIGNATURE_COMMAND_BYTES = 16"
definition LC_SEGMENT_64 :: nat where "LC_SEGMENT_64 = 0x19"
definition LC_CODE_SIGNATURE :: nat where "LC_CODE_SIGNATURE = 0x1d"
definition LINKEDIT :: bytes where "LINKEDIT = [0x5f, 0x5f, 0x4c, 0x49, 0x4e, 0x4b, 0x45, 0x44, 0x49, 0x54]"
definition MAX_SIGNATURE_BYTES :: nat where "MAX_SIGNATURE_BYTES = 16 * 1024 * 1024"

text \<open>The head of one command, as both readers take it: kind, size and end inside the bytes.\<close>

definition command_at :: "bytes \<Rightarrow> nat \<Rightarrow> (nat \<times> nat \<times> nat) option" where
  "command_at commands at =
     Option.bind (read_le 4 commands at) (\<lambda>kind.
     Option.bind (checked_add at 4) (\<lambda>size_at.
     Option.bind (read_le 4 commands size_at) (\<lambda>sz.
     if sz < LOAD_COMMAND_BYTES then None else
     Option.bind (checked_add at sz) (\<lambda>fin.
     Option.bind (slice_range commands at fin) (\<lambda>_. Some (kind, sz, fin))))))"

definition read_at :: "nat \<Rightarrow> bytes \<Rightarrow> nat \<Rightarrow> nat \<Rightarrow> nat option" where
  "read_at n bs at delta = Option.bind (checked_add at delta) (read_le n bs)"

section \<open>The code-signature location\<close>

record signature_layout =
  sl_address :: nat
  sl_bytes :: nat

record signature_walk =
  sw_linkedit :: "(nat \<times> nat \<times> nat) option"
  sw_signature :: "(nat \<times> nat) option"

definition is_linkedit :: "bytes \<Rightarrow> bool" where
  "is_linkedit name \<longleftrightarrow> take (length LINKEDIT) name = LINKEDIT \<and> slice_get name (length LINKEDIT) = Some 0"

definition signature_command :: "bytes \<Rightarrow> nat \<Rightarrow> nat \<Rightarrow> nat \<Rightarrow> signature_walk \<Rightarrow> signature_walk option" where
  "signature_command commands at kind sz sw =
     (if kind = LC_SEGMENT_64 \<and> SEGMENT_COMMAND_BYTES \<le> sz then
        Option.bind (checked_add at 8) (\<lambda>name_at.
        Option.bind (checked_add at 24) (\<lambda>name_end.
        Option.bind (slice_range commands name_at name_end) (\<lambda>name.
        if is_linkedit name then
          (if sw_linkedit sw \<noteq> None then None
           else Option.bind (read_at 8 commands at 24) (\<lambda>vmaddr.
                Option.bind (read_at 8 commands at 40) (\<lambda>fileoff.
                Option.bind (read_at 8 commands at 48) (\<lambda>filesize.
                  Some (sw\<lparr>sw_linkedit := Some (vmaddr, fileoff, filesize)\<rparr>)))))
        else Some sw)))
      else if kind = LC_CODE_SIGNATURE \<and> SIGNATURE_COMMAND_BYTES \<le> sz then
        (if sw_signature sw \<noteq> None then None
         else Option.bind (read_at 4 commands at 8) (\<lambda>dataoff.
              Option.bind (read_at 4 commands at 12) (\<lambda>datasize.
                Some (sw\<lparr>sw_signature := Some (dataoff, datasize)\<rparr>))))
      else if kind = LC_SEGMENT_64 \<or> kind = LC_CODE_SIGNATURE then None
      else Some sw)"

text \<open>The command loop: the state and the offset after the counted commands.\<close>

fun signature_loop :: "bytes \<Rightarrow> nat \<Rightarrow> nat \<Rightarrow> signature_walk \<Rightarrow> (nat \<times> signature_walk) option" where
  "signature_loop commands 0 at sw = Some (at, sw)"
| "signature_loop commands (Suc n) at sw =
     Option.bind (command_at commands at) (\<lambda>(kind, sz, fin).
     Option.bind (signature_command commands at kind sz sw) (signature_loop commands n fin))"

definition checked_add_signed :: "nat \<Rightarrow> int \<Rightarrow> nat option" where
  "checked_add_signed a d = (if 0 \<le> int a + d \<and> int a + d < 2 ^ 64 then Some (nat (int a + d)) else None)"

definition fit :: "nat \<times> nat \<times> nat \<Rightarrow> nat \<times> nat \<Rightarrow> int \<Rightarrow> signature_layout option" where
  "fit = (\<lambda>(vmaddr, fileoff, filesize) (dataoff, datasize) slide.
     if datasize = 0 \<or> MAX_SIGNATURE_BYTES < datasize then None else
     Option.bind (checked_add dataoff datasize) (\<lambda>fin.
     if dataoff < fileoff then None else
     Option.bind (checked_add fileoff filesize) (\<lambda>file_end.
     if file_end < fin then None else
     Option.bind (checked_sub vmaddr fileoff) (\<lambda>base.
     Option.bind (checked_add base dataoff) (\<lambda>unslid.
     Option.bind (checked_add_signed unslid slide) (\<lambda>address.
       Some \<lparr>sl_address = address, sl_bytes = datasize\<rparr>))))))"

definition read_signature_layout :: "bytes \<Rightarrow> u32 \<Rightarrow> int \<Rightarrow> signature_layout option" where
  "read_signature_layout commands command_count slide =
     (if MAX_COMMAND_BYTES < length commands then None
      else Option.bind (signature_loop commands (unat command_count) 0 \<lparr>sw_linkedit = None, sw_signature = None\<rparr>)
        (\<lambda>(at, sw). if at \<noteq> length commands then None
           else Option.bind (sw_linkedit sw) (\<lambda>l. Option.bind (sw_signature sw) (\<lambda>s. fit l s slide))))"

section \<open>Dispatch sections\<close>

definition MAX_POINTER_SECTIONS :: nat where "MAX_POINTER_SECTIONS = 128"
definition SECTION_BYTES :: nat where "SECTION_BYTES = 80"
definition LC_DYLD_CHAINED_FIXUPS :: nat where "LC_DYLD_CHAINED_FIXUPS = 0x80000034"
definition SECTION_TYPE :: nat where "SECTION_TYPE = 0xff"
definition S_NON_LAZY_SYMBOL_POINTERS :: nat where "S_NON_LAZY_SYMBOL_POINTERS = 6"

record pointer_section =
  ps_address :: nat
  ps_bytes :: nat

record dispatch_layout =
  dl_sections :: "pointer_section list"
  dl_bound :: bool

fun section_loop :: "bytes \<Rightarrow> nat \<Rightarrow> nat list \<Rightarrow> pointer_section list \<Rightarrow> pointer_section list option" where
  "section_loop commands at [] sections = Some sections"
| "section_loop commands at (index # rest) sections =
     Option.bind (checked_add at SEGMENT_COMMAND_BYTES) (\<lambda>first.
     Option.bind (checked_mul index SECTION_BYTES) (\<lambda>skip.
     Option.bind (checked_add first skip) (\<lambda>sec.
     Option.bind (read_at 4 commands sec 64) (\<lambda>flags.
     if flags AND SECTION_TYPE \<noteq> S_NON_LAZY_SYMBOL_POINTERS then section_loop commands at rest sections
     else if length sections = MAX_POINTER_SECTIONS then None
     else Option.bind (read_at 8 commands sec 32) (\<lambda>address.
          Option.bind (read_at 8 commands sec 40) (\<lambda>bs.
            section_loop commands at rest (sections @ [\<lparr>ps_address = address, ps_bytes = bs\<rparr>])))))))"

definition segment_sections :: "bytes \<Rightarrow> nat \<Rightarrow> nat \<Rightarrow> pointer_section list \<Rightarrow> pointer_section list option" where
  "segment_sections commands at sz sections =
     (if sz < SEGMENT_COMMAND_BYTES then None else
      Option.bind (read_at 4 commands at 64) (\<lambda>count.
      Option.bind (checked_mul count SECTION_BYTES) (\<lambda>section_bytes.
      Option.bind (checked_add SEGMENT_COMMAND_BYTES section_bytes) (\<lambda>required.
      if sz < required then None else section_loop commands at [0..<count] sections))))"

fun dispatch_loop :: "bytes \<Rightarrow> nat \<Rightarrow> nat \<Rightarrow> dispatch_layout \<Rightarrow> (nat \<times> dispatch_layout) option" where
  "dispatch_loop commands 0 at dl = Some (at, dl)"
| "dispatch_loop commands (Suc n) at dl =
     Option.bind (command_at commands at) (\<lambda>(kind, sz, fin).
       let dl1 = (if kind = LC_DYLD_CHAINED_FIXUPS then dl\<lparr>dl_bound := True\<rparr> else dl) in
       if kind = LC_SEGMENT_64
       then Option.bind (segment_sections commands at sz (dl_sections dl1)) (\<lambda>sections.
              dispatch_loop commands n fin (dl1\<lparr>dl_sections := sections\<rparr>))
       else dispatch_loop commands n fin dl1)"

definition read_dispatch_layout :: "bytes \<Rightarrow> u32 \<Rightarrow> dispatch_layout option" where
  "read_dispatch_layout commands command_count =
     (if MAX_COMMAND_BYTES < length commands then None
      else Option.bind (dispatch_loop commands (unat command_count) 0 \<lparr>dl_sections = [], dl_bound = False\<rparr>)
        (\<lambda>(at, dl). if at \<noteq> length commands then None else Some dl))"

section \<open>The entitlements slot\<close>

definition SUPERBLOB_MAGIC :: nat where "SUPERBLOB_MAGIC = 0xfade0cc0"
definition ENTITLEMENTS_MAGIC :: nat where "ENTITLEMENTS_MAGIC = 0xfade7171"
definition ENTITLEMENTS_SLOT :: nat where "ENTITLEMENTS_SLOT = 5"
definition BLOB_HEADER :: nat where "BLOB_HEADER = 8"
definition SUPERBLOB_HEADER :: nat where "SUPERBLOB_HEADER = 12"
definition INDEX_ENTRY :: nat where "INDEX_ENTRY = 8"
definition MAX_SIGNATURE :: nat where "MAX_SIGNATURE = 16 * 1024 * 1024"

text \<open>The blob that one index entry names, once the entry is the entitlements slot.\<close>

definition entitlements_blob :: "bytes \<Rightarrow> nat \<Rightarrow> bytes option" where
  "entitlements_blob sig at =
     Option.bind (read_be 4 sig at) (\<lambda>magic.
     if magic \<noteq> ENTITLEMENTS_MAGIC then None else
     Option.bind (checked_add at 4) (\<lambda>len_at.
     Option.bind (read_be 4 sig len_at) (\<lambda>len.
     Option.bind (checked_add at BLOB_HEADER) (\<lambda>start.
     Option.bind (checked_add at len) (\<lambda>fin. slice_range sig start fin)))))"

fun slot_loop :: "bytes \<Rightarrow> nat list \<Rightarrow> bytes option" where
  "slot_loop sig [] = None"
| "slot_loop sig (slot # rest) =
     Option.bind (checked_mul slot INDEX_ENTRY) (\<lambda>skip.
     Option.bind (checked_add SUPERBLOB_HEADER skip) (\<lambda>entry.
     Option.bind (read_be 4 sig entry) (\<lambda>kind.
     if kind \<noteq> ENTITLEMENTS_SLOT then slot_loop sig rest else
     Option.bind (checked_add entry 4) (\<lambda>offset_at.
     Option.bind (read_be 4 sig offset_at) (\<lambda>at. entitlements_blob sig at)))))"

definition entitlements :: "bytes \<Rightarrow> bytes option" where
  "entitlements sig =
     (if MAX_SIGNATURE < length sig then None else
      Option.bind (read_be 4 sig 0) (\<lambda>magic.
      if magic \<noteq> SUPERBLOB_MAGIC then None else
      Option.bind (read_be 4 sig 4) (\<lambda>declared.
      Option.bind (slice_range sig 0 declared) (\<lambda>sig'.
      Option.bind (read_be 4 sig' 8) (\<lambda>count. slot_loop sig' [0..<count])))))"

section \<open>The team identifier\<close>

definition TEAM_KEY :: string where "TEAM_KEY = ''com.apple.developer.team-identifier''"
definition APP_ID_KEY :: string where "APP_ID_KEY = ''application-identifier''"
definition MAX_TEAM :: nat where "MAX_TEAM = 64"
definition TEAM_LENGTH :: nat where "TEAM_LENGTH = 10"

definition is_ascii_alphanumeric :: "char \<Rightarrow> bool" where
  "is_ascii_alphanumeric c \<longleftrightarrow> (0x30 \<le> code c \<and> code c \<le> 0x39) \<or> (0x41 \<le> code c \<and> code c \<le> 0x5A)
     \<or> (0x61 \<le> code c \<and> code c \<le> 0x7A)"

definition acceptable :: "string \<Rightarrow> bool" where
  "acceptable team \<longleftrightarrow> team \<noteq> [] \<and> length team \<le> MAX_TEAM
     \<and> list_all (\<lambda>c. case c of [d] \<Rightarrow> is_ascii_alphanumeric d | _ \<Rightarrow> False) (chars team)"

lemma split_once_shorter: "split_once s pat = Some (a, b) \<Longrightarrow> length b \<le> length s - length pat"
  using split_once_Some [of s pat a b] by auto

function string_value :: "string \<Rightarrow> string \<Rightarrow> string option" where
  "string_value rest key = (case find_str rest ''<key>'' of
       None \<Rightarrow> None
     | Some at \<Rightarrow>
         (case split_once (drop (at + 5) rest) ''</key>'' of
            None \<Rightarrow> None
          | Some (name, tail) \<Rightarrow>
              if trim name = key
              then Option.bind (split_once tail ''<string>'') (\<lambda>(_, v).
                   Option.bind (split_once v ''</string>'') (\<lambda>(v, _). Some (trim v)))
              else string_value tail key))"
  by pat_completeness auto
termination
proof (relation "measure (\<lambda>(rest, key). length rest)")
  fix rest key at y name tail
  assume s: "split_once (drop (at + 5) rest) ''</key>'' = Some y" and y: "(name, tail) = y"
  then have "drop (at + 5) rest = name @ ''</key>'' @ tail" using split_once_Some by metis
  then have "length tail < length (drop (at + 5) rest)" by simp
  then show "((tail, key), rest, key) \<in> measure (\<lambda>(rest, key). length rest)" by simp
qed simp

declare string_value.simps [simp del]

definition app_id_team :: "string \<Rightarrow> string option" where
  "app_id_team s =
     Option.bind (string_value s APP_ID_KEY) (\<lambda>app_id.
     Option.bind (split_once app_id ''.'') (\<lambda>(team, bundle).
       if bundle = [] \<or> length team \<noteq> TEAM_LENGTH \<or> \<not> acceptable team then None else Some team))"

definition read_team_identifier :: "bytes \<Rightarrow> string option" where
  "read_team_identifier plist =
     (let s = map (\<lambda>b. char_of (unat b)) plist in
      if \<not> utf8_valid s then None
      else case Option.bind (string_value s TEAM_KEY) (\<lambda>team. if acceptable team then Some team else None) of
        Some team \<Rightarrow> Some team
      | None \<Rightarrow> app_id_team s)"

section \<open>Load commands as the format writes them\<close>

datatype load_command =
  Segment bytes nat nat nat nat bytes
| CodeSignature nat nat bytes
| OtherCommand nat bytes

fun command_kind :: "load_command \<Rightarrow> nat" where
  "command_kind (Segment _ _ _ _ _ _) = LC_SEGMENT_64"
| "command_kind (CodeSignature _ _ _) = LC_CODE_SIGNATURE"
| "command_kind (OtherCommand k _) = k"

fun command_body :: "load_command \<Rightarrow> bytes" where
  "command_body (Segment name vmaddr vmsize fileoff filesize rest) =
     name @ to_le 8 vmaddr @ to_le 8 vmsize @ to_le 8 fileoff @ to_le 8 filesize @ rest"
| "command_body (CodeSignature dataoff datasize rest) = to_le 4 dataoff @ to_le 4 datasize @ rest"
| "command_body (OtherCommand k body) = body"

definition write_command :: "load_command \<Rightarrow> bytes" where
  "write_command c = to_le 4 (command_kind c) @ to_le 4 (length (command_body c) + 8) @ command_body c"

fun wf_command :: "load_command \<Rightarrow> bool" where
  "wf_command (Segment name vmaddr vmsize fileoff filesize rest) \<longleftrightarrow>
     length name = 16 \<and> vmaddr < 2 ^ 64 \<and> fileoff < 2 ^ 64 \<and> filesize < 2 ^ 64 \<and> 16 \<le> length rest"
| "wf_command (CodeSignature dataoff datasize rest) \<longleftrightarrow> dataoff < 2 ^ 32 \<and> datasize < 2 ^ 32"
| "wf_command (OtherCommand k body) \<longleftrightarrow> k < 2 ^ 32 \<and> k \<noteq> LC_SEGMENT_64 \<and> k \<noteq> LC_CODE_SIGNATURE"

fun walk_command :: "load_command \<Rightarrow> signature_walk \<Rightarrow> signature_walk option" where
  "walk_command (Segment name vmaddr vmsize fileoff filesize rest) sw =
     (if is_linkedit name
      then (if sw_linkedit sw \<noteq> None then None else Some (sw\<lparr>sw_linkedit := Some (vmaddr, fileoff, filesize)\<rparr>))
      else Some sw)"
| "walk_command (CodeSignature dataoff datasize rest) sw =
     (if sw_signature sw \<noteq> None then None else Some (sw\<lparr>sw_signature := Some (dataoff, datasize)\<rparr>))"
| "walk_command (OtherCommand k body) sw = Some sw"

fun walk_commands :: "load_command list \<Rightarrow> signature_walk \<Rightarrow> signature_walk option" where
  "walk_commands [] sw = Some sw"
| "walk_commands (c # cs) sw = Option.bind (walk_command c sw) (walk_commands cs)"

section \<open>Lemmas\<close>

lemma length_write_command: "length (write_command c) = length (command_body c) + 8"
  by (simp add: write_command_def)

lemma command_kind_bound: "wf_command c \<Longrightarrow> command_kind c < 2 ^ 32"
  by (cases c) (auto simp: LC_SEGMENT_64_def LC_CODE_SIGNATURE_def)

lemma command_at_written:
  assumes "wf_command c" and "length (pre @ write_command c @ post) \<le> MAX_COMMAND_BYTES"
  shows "command_at (pre @ write_command c @ post) (length pre) =
    Some (command_kind c, length (command_body c) + 8, length (pre @ write_command c))"
proof -
  let ?b = "pre @ write_command c @ post" and ?n = "length (command_body c) + 8"
  have l: "length ?b < usize_bound" "?n < 2 ^ 32" "length pre + ?n < usize_bound"
    using assms(2) by (simp_all add: MAX_COMMAND_BYTES_def usize_bound_def length_write_command)
  have 1: "read_le 4 ?b (length pre) = Some (command_kind c)"
    using read_field_at [of "command_kind c" 4 pre "to_le 4 ?n @ command_body c @ post" "length pre"]
      command_kind_bound [OF assms(1)] l by (simp add: write_command_def)
  have 2: "read_le 4 ?b (length pre + 4) = Some ?n"
    using read_field_at [of ?n 4 "pre @ to_le 4 (command_kind c)" "command_body c @ post" "length pre + 4"] l
    by (simp add: write_command_def)
  have 3: "slice_range ?b (length pre) (length pre + ?n) = Some (write_command c)"
    by (simp add: slice_range_def length_write_command)
  show ?thesis
    unfolding command_at_def 1 Option.bind.simps
    using l 2 3 by (simp add: checked_add_def LOAD_COMMAND_BYTES_def length_write_command)
qed

lemma read_at_written:
  assumes "bs = x @ to_le n v @ y" and "v < 256 ^ n" and "length bs < usize_bound" and "length x = at + d"
  shows "read_at n bs at d = Some v"
proof -
  have "read_le n bs (at + d) = Some v"
    unfolding assms(1) using assms(2-4) by (intro read_field_at) (simp_all add: assms(1) [symmetric] del: length_append)
  moreover have "at + d < usize_bound" using assms(1,3,4) by simp
  ultimately show ?thesis by (simp add: read_at_def checked_add_def)
qed

lemma signature_command_written:
  assumes "wf_command c" and "length (pre @ write_command c @ post) \<le> MAX_COMMAND_BYTES"
  shows "signature_command (pre @ write_command c @ post) (length pre) (command_kind c) (length (command_body c) + 8) sw =
    walk_command c sw"
proof -
  let ?b = "pre @ write_command c @ post"
  have l: "length ?b < usize_bound" using assms(2) by (simp add: MAX_COMMAND_BYTES_def usize_bound_def)
  show ?thesis
  proof (cases c)
    case (Segment name vmaddr vmsize fileoff filesize rest)
    let ?h = "pre @ to_le 4 (command_kind c) @ to_le 4 (length (command_body c) + 8) @ name"
    have b: "?b = ?h @ to_le 8 vmaddr @ (to_le 8 vmsize @ to_le 8 fileoff @ to_le 8 filesize @ rest @ post)"
      "?b = (?h @ to_le 8 vmaddr @ to_le 8 vmsize) @ to_le 8 fileoff @ (to_le 8 filesize @ rest @ post)"
      "?b = (?h @ to_le 8 vmaddr @ to_le 8 vmsize @ to_le 8 fileoff) @ to_le 8 filesize @ (rest @ post)"
      by (simp_all add: write_command_def Segment)
    have w: "length name = 16" "vmaddr < 2 ^ 64" "fileoff < 2 ^ 64" "filesize < 2 ^ 64" "16 \<le> length rest"
      using assms(1) Segment by simp_all
    have r: "read_at 8 ?b (length pre) 24 = Some vmaddr"
      using w l by (intro read_at_written [OF b(1)]) simp_all
    have r2: "read_at 8 ?b (length pre) 40 = Some fileoff"
      using w l by (intro read_at_written [OF b(2)]) simp_all
    have r3: "read_at 8 ?b (length pre) 48 = Some filesize"
      using w l by (intro read_at_written [OF b(3)]) simp_all
    have n: "slice_range ?b (length pre + 8) (length pre + 24) = Some name"
      using w by (simp add: slice_range_def write_command_def Segment)
    show ?thesis
      using l w r r2 r3 n by (simp add: signature_command_def Segment checked_add_def LC_SEGMENT_64_def SEGMENT_COMMAND_BYTES_def length_write_command)
  next
    case (CodeSignature dataoff datasize rest)
    let ?h = "pre @ to_le 4 (command_kind c) @ to_le 4 (length (command_body c) + 8)"
    have b: "?b = ?h @ to_le 4 dataoff @ (to_le 4 datasize @ rest @ post)"
      "?b = (?h @ to_le 4 dataoff) @ to_le 4 datasize @ (rest @ post)"
      by (simp_all add: write_command_def CodeSignature)
    have r: "read_at 4 ?b (length pre) 8 = Some dataoff"
      using assms(1) l CodeSignature by (intro read_at_written [OF b(1)]) simp_all
    have r2: "read_at 4 ?b (length pre) 12 = Some datasize"
      using assms(1) l CodeSignature by (intro read_at_written [OF b(2)]) simp_all
    show ?thesis
      using r r2 by (simp add: signature_command_def CodeSignature LC_SEGMENT_64_def LC_CODE_SIGNATURE_def SIGNATURE_COMMAND_BYTES_def)
  next
    case (OtherCommand k body)
    then show ?thesis using assms(1) by (simp add: signature_command_def)
  qed
qed

lemma signature_loop_written:
  assumes "\<forall>c \<in> set cs. wf_command c" and "length (pre @ concat (map write_command cs)) \<le> MAX_COMMAND_BYTES"
  shows "signature_loop (pre @ concat (map write_command cs)) (length cs) (length pre) sw =
    map_option (Pair (length (pre @ concat (map write_command cs)))) (walk_commands cs sw)"
  using assms
proof (induction cs arbitrary: pre sw)
  case (Cons c cs)
  let ?rest = "concat (map write_command cs)"
  have "command_at (pre @ write_command c @ ?rest) (length pre) =
      Some (command_kind c, length (command_body c) + 8, length (pre @ write_command c))"
    using Cons.prems by (intro command_at_written) simp_all
  moreover have "signature_command (pre @ write_command c @ ?rest) (length pre) (command_kind c) (length (command_body c) + 8) sw =
      walk_command c sw"
    using Cons.prems by (intro signature_command_written) simp_all
  moreover have "signature_loop (pre @ write_command c @ ?rest) (length cs) (length (pre @ write_command c)) sw' =
      map_option (Pair (length (pre @ write_command c @ ?rest))) (walk_commands cs sw')" for sw'
    using Cons.IH [of "pre @ write_command c" sw'] Cons.prems by simp
  ultimately show ?case by (cases "walk_command c sw") simp_all
qed simp

lemma fit_sound:
  "fit (vmaddr, fileoff, filesize) (dataoff, datasize) slide = Some l \<Longrightarrow>
   0 < datasize \<and> datasize \<le> 16 * 1024 * 1024 \<and> sl_bytes l = datasize
   \<and> fileoff \<le> dataoff \<and> dataoff + datasize \<le> fileoff + filesize \<and> fileoff \<le> vmaddr
   \<and> int (sl_address l) = int vmaddr - int fileoff + int dataoff + slide \<and> sl_address l < 2 ^ 64"
  by (auto simp: fit_def bind_eq_Some_conv MAX_SIGNATURE_BYTES_def checked_add_signed_def nat_less_iff split: if_splits)

lemma section_loop_bound:
  "length sections \<le> 128 \<Longrightarrow> section_loop commands at ixs sections = Some r \<Longrightarrow> length r \<le> 128"
proof (induction ixs arbitrary: sections)
  case (Cons i ixs)
  then consider "section_loop commands at ixs sections = Some r"
    | x where "length sections \<noteq> 128" "section_loop commands at ixs (sections @ [x]) = Some r"
    by (auto simp: bind_eq_Some_conv MAX_POINTER_SECTIONS_def split: if_splits)
  then show ?case
  proof cases
    case 2
    with Cons.prems(1) have "length (sections @ [x]) \<le> 128" by simp
    with 2 show ?thesis using Cons.IH by blast
  qed (use Cons in blast)
qed simp

lemma dispatch_loop_bound:
  "length (dl_sections dl) \<le> 128 \<Longrightarrow> dispatch_loop commands n at dl = Some (at', dl') \<Longrightarrow> length (dl_sections dl') \<le> 128"
proof (induction n arbitrary: at dl)
  case (Suc n)
  then obtain fin dl1 where "dispatch_loop commands n fin dl1 = Some (at', dl')"
    and "dl_sections dl1 = dl_sections dl \<or> (\<exists>sz. segment_sections commands at sz (dl_sections dl) = Some (dl_sections dl1))"
    by (fastforce simp: bind_eq_Some_conv Let_def split: if_splits)
  moreover from this(2) Suc.prems(1) have "length (dl_sections dl1) \<le> 128"
    by (auto simp: segment_sections_def bind_eq_Some_conv split: if_splits dest: section_loop_bound)
  ultimately show ?case using Suc.IH by blast
qed simp

lemma slot_loop_slice: "slot_loop sig slots = Some p \<Longrightarrow> \<exists>a b. slice_range sig a b = Some p"
  by (induction sig slots rule: slot_loop.induct)
     (auto simp: bind_eq_Some_conv entitlements_blob_def split: if_splits)

lemma acceptable_chars:
  assumes "acceptable team"
  shows "team \<noteq> [] \<and> length team \<le> 64 \<and> list_all is_ascii_alphanumeric team"
proof -
  have "list_all P v" if "list_all (\<lambda>c. case c of [d] \<Rightarrow> P d | _ \<Rightarrow> False) (chars v)" for P v
    using that
  proof (induction v rule: chars.induct)
    case (2 c s)
    then have t: "takeWhile is_cont s = []" by (auto split: list.splits)
    then have "dropWhile is_cont s = s" by (metis append_Nil takeWhile_dropWhile_id)
    with 2 t show ?case by simp
  qed simp
  with assms show ?thesis by (simp add: acceptable_def MAX_TEAM_def)
qed

section \<open>Properties\<close>

lemma signature_layout_written:
  assumes "\<forall>c \<in> set cs. wf_command c" and "length (concat (map write_command cs)) \<le> MAX_COMMAND_BYTES"
    and "unat count = length cs"
  shows "read_signature_layout (concat (map write_command cs)) count slide =
      Option.bind (walk_commands cs \<lparr>sw_linkedit = None, sw_signature = None\<rparr>) (\<lambda>sw.
      Option.bind (sw_linkedit sw) (\<lambda>l. Option.bind (sw_signature sw) (\<lambda>s. fit l s slide)))"
proof -
  have "signature_loop (concat (map write_command cs)) (length cs) 0 sw =
      map_option (Pair (length (concat (map write_command cs)))) (walk_commands cs sw)" for sw
    using signature_loop_written [OF assms(1), of "[]"] assms(2) by simp
  then show ?thesis
    using assms(2,3) by (cases "walk_commands cs \<lparr>sw_linkedit = None, sw_signature = None\<rparr>")
      (auto simp: read_signature_layout_def)
qed

text \<open>
  The code-signature location.  For load commands as the format writes them, and the right
  count, the reader finds the one linkedit segment and the one code-signature command in any order
  among other commands (a second one of either kind gives no answer), and a location that it returns
  has a bounded size, lies inside the file range of the segment, and has the address of that range
  plus the slide, with no wrap-around.
\<close>

lemma macho_signature_exact:
  assumes "\<forall>c \<in> set cs. wf_command c" and "length (concat (map write_command cs)) \<le> MAX_COMMAND_BYTES"
    and "unat count = length cs"
  shows "read_signature_layout (concat (map write_command cs)) count slide =
      Option.bind (walk_commands cs \<lparr>sw_linkedit = None, sw_signature = None\<rparr>) (\<lambda>sw.
      Option.bind (sw_linkedit sw) (\<lambda>l. Option.bind (sw_signature sw) (\<lambda>s. fit l s slide)))
    \<and> (fit (vmaddr, fileoff, filesize) (dataoff, datasize) slide = Some lay \<longrightarrow>
       0 < datasize \<and> datasize \<le> 16 * 1024 * 1024 \<and> sl_bytes lay = datasize
       \<and> fileoff \<le> dataoff \<and> dataoff + datasize \<le> fileoff + filesize \<and> fileoff \<le> vmaddr
       \<and> int (sl_address lay) = int vmaddr - int fileoff + int dataoff + slide \<and> sl_address lay < 2 ^ 64)"
  using signature_layout_written [OF assms] fit_sound [of vmaddr fileoff filesize dataoff datasize slide lay] by blast

lemma macho_signature_exact_example:
  "read_signature_layout (concat (map write_command
      [CodeSignature 96 32 [], OtherCommand 2 [], Segment (LINKEDIT @ replicate 6 0) 4096 0 64 128 (replicate 16 0)])) 3 16 =
    Some \<lparr>sl_address = 4144, sl_bytes = 32\<rparr>"
proof -
  let ?cs = "[CodeSignature 96 32 [], OtherCommand 2 [], Segment (LINKEDIT @ replicate 6 0) 4096 0 64 128 (replicate 16 0)]"
  have "is_linkedit (LINKEDIT @ replicate 6 0)" by code_simp
  then have w: "walk_commands ?cs \<lparr>sw_linkedit = None, sw_signature = None\<rparr> =
      Some \<lparr>sw_linkedit = Some (4096, 64, 128), sw_signature = Some (96, 32)\<rparr>" by simp
  have f: "fit (4096, 64, 128) (96, 32) 16 = Some \<lparr>sl_address = 4144, sl_bytes = 32\<rparr>"
    by (simp add: fit_def MAX_SIGNATURE_BYTES_def checked_add_def checked_sub_def checked_add_signed_def usize_bound_def)
  have "\<forall>c \<in> set ?cs. wf_command c" by (simp add: LINKEDIT_def LC_SEGMENT_64_def LC_CODE_SIGNATURE_def)
  moreover have "length (concat (map write_command ?cs)) \<le> MAX_COMMAND_BYTES"
    by (simp add: length_write_command MAX_COMMAND_BYTES_def LINKEDIT_def)
  moreover have "unat (3 :: u32) = length ?cs" by simp
  ultimately have r: "read_signature_layout (concat (map write_command ?cs)) 3 16 =
      Option.bind (walk_commands ?cs \<lparr>sw_linkedit = None, sw_signature = None\<rparr>) (\<lambda>sw.
      Option.bind (sw_linkedit sw) (\<lambda>l. Option.bind (sw_signature sw) (\<lambda>s. fit l s 16)))"
    by (rule macho_signature_exact [THEN conjunct1])
  show ?thesis unfolding r w by (simp add: f)
qed

text \<open>
  What reaches the identity.  The entitlements are a contiguous part of the signature; a team
  identifier is never empty, holds at most 64 characters and only ASCII letters and digits, whatever
  the plist is; and the dispatch layout never holds more than 128 sections.
\<close>

lemma macho_identity_sound:
  "(entitlements sig = Some plist \<longrightarrow> (\<exists>pre post. sig = pre @ plist @ post))
   \<and> (read_team_identifier plist = Some team \<longrightarrow> team \<noteq> [] \<and> length team \<le> 64 \<and> list_all is_ascii_alphanumeric team)
   \<and> (read_dispatch_layout commands count = Some dl \<longrightarrow> length (dl_sections dl) \<le> 128)"
proof (intro conjI impI)
  assume "entitlements sig = Some plist"
  then obtain d sig' slots where s: "slice_range sig 0 d = Some sig'" and "slot_loop sig' slots = Some plist"
    by (auto simp: entitlements_def bind_eq_Some_conv split: if_splits)
  then obtain a b where "slice_range sig' a b = Some plist" using slot_loop_slice by blast
  with s have "slice_range sig (0 + a) (0 + b) = Some plist" by (rule slice_range_nested)
  then show "\<exists>pre post. sig = pre @ plist @ post" using slice_range_decomp by blast
next
  assume "read_team_identifier plist = Some team"
  then have "acceptable team"
    by (auto simp: read_team_identifier_def app_id_team_def Let_def bind_eq_Some_conv split: if_splits option.splits)
  then show "team \<noteq> []" "length team \<le> 64" "list_all is_ascii_alphanumeric team"
    using acceptable_chars by auto
next
  assume "read_dispatch_layout commands count = Some dl"
  then show "length (dl_sections dl) \<le> 128"
    by (auto simp: read_dispatch_layout_def bind_eq_Some_conv split: if_splits
        dest!: dispatch_loop_bound [rotated])
qed

lemma macho_identity_sound_example:
  "(\<exists>pre post. to_be 4 0xfade0cc0 @ to_be 4 30 @ to_be 4 1 @ to_be 4 5 @ to_be 4 20 @ to_be 4 0xfade7171 @ to_be 4 10 @ [7, 8] =
      pre @ [7, 8 :: u8] @ post)
   \<and> (''AB12'' \<noteq> [] \<and> length ''AB12'' \<le> 64 \<and> list_all is_ascii_alphanumeric ''AB12'')"
proof -
  let ?sig = "to_be 4 0xfade0cc0 @ to_be 4 30 @ to_be 4 1 @ to_be 4 5 @ to_be 4 20 @ to_be 4 0xfade7171 @ to_be 4 10 @ [7, 8 :: u8]"
  let ?plist = "map (\<lambda>c. of_nat (code c)) ''<key>com.apple.developer.team-identifier</key><string>AB12</string>'' :: bytes"
  have e: "entitlements ?sig = Some [7, 8]"
    by (simp add: entitlements_def entitlements_blob_def read_be_eval be_nat_to_be usize_bound_def slice_range_def
        checked_add_def checked_mul_def MAX_SIGNATURE_def SUPERBLOB_MAGIC_def ENTITLEMENTS_MAGIC_def
        ENTITLEMENTS_SLOT_def BLOB_HEADER_def SUPERBLOB_HEADER_def INDEX_ENTRY_def)
  have t: "read_team_identifier ?plist = Some ''AB12''" by code_simp
  show ?thesis
    using macho_identity_sound [of ?sig "[7, 8]"] macho_identity_sound [of "[]" ?plist "''AB12''"] e t by blast
qed

end
