(* ===== verification/Fid_Apple_Image.thy ===== *)
theory Fid_Apple_Image
  imports Fid_Loader Fid_Macho
begin

text \<open>
  The Mach boundaries of the Apple probe (\<open>probe/fidelity-probe-apple/src/sys\<close>): the regions of the
  task (\<open>regions.rs\<close>), the code signature that the running image carries (\<open>image.rs\<close>) and its
  symbol-pointer table (\<open>dispatch.rs\<close>).  What the kernel and the dynamic loader answer, and the
  memory, are arguments.  A successful region query moves a port right into the task, so the log of a
  walk has an entry for each right that a query moved and an entry for each that the code released.
\<close>

section \<open>What the kernel and the loader answer\<close>

record region_answer =
  ra_result :: int
  ra_address :: u64
  ra_size :: u64
  ra_protection :: u32
  ra_object :: u32

type_synonym region_query = "u64 \<Rightarrow> region_answer"

record mach_header =
  mh_filetype :: u32
  mh_ncmds :: u32
  mh_sizeofcmds :: u32

text \<open>The images in the order of their index: the address of the header, zero when null, and the slide.\<close>

record task =
  tk_region :: region_query
  tk_images :: "(u64 \<times> int) list"
  tk_header :: "u64 \<Rightarrow> mach_header"
  tk_memory :: memory

datatype 'a right = Took 'a | Dropped 'a

definition VM_PROT_EXECUTE :: u32 where "VM_PROT_EXECUTE = 4"
definition VM_PROT_WRITE :: u32 where "VM_PROT_WRITE = 2"
definition KERN_SUCCESS :: int where "KERN_SUCCESS = 0"
definition REGION_PASSES :: nat where "REGION_PASSES = 100000"

text \<open>
  The call itself: the answer, and the right that the kernel moves into the task with a successful one,
  as both callers state.  Releasing that right is a step of the caller.
\<close>

definition mach_vm_region :: "region_query \<Rightarrow> u64 \<Rightarrow> region_answer \<times> u32 right list" where
  "mach_vm_region query address =
     (let r = query address in
      (r, if ra_result r = KERN_SUCCESS \<and> ra_object r \<noteq> 0 then [Took (ra_object r)] else []))"

definition release_object :: "region_answer \<Rightarrow> u32 right list" where
  "release_object r =
     (if ra_result r = KERN_SUCCESS \<and> ra_object r \<noteq> 0 then [Dropped (ra_object r)] else [])"

section \<open>The regions of the task (\<open>sys/regions.rs\<close>)\<close>

definition mapped :: "region_query \<Rightarrow> u64 \<Rightarrow> nat \<Rightarrow> bool \<times> u32 right list" where
  "mapped query address bytes =
     (if 2 ^ 64 \<le> bytes then (False, [])
      else if bytes = 0 then (False, [])
      else case checked_add_word address (of_nat bytes) of
        None \<Rightarrow> (False, [])
      | Some end \<Rightarrow>
          case mach_vm_region query address of (r, moved) \<Rightarrow>
            (ra_result r = KERN_SUCCESS \<and> ra_address r \<le> address
               \<and> is_some_and (\<lambda>region_end. end \<le> region_end) (checked_add_word (ra_address r) (ra_size r)),
             moved @ release_object r))"

record apple_region =
  ar_start :: u64
  ar_end :: u64
  ar_writable :: bool

definition apple_region_at :: "region_answer \<Rightarrow> apple_region" where
  "apple_region_at r =
     \<lparr>ar_start = ra_address r, ar_end = saturating_add (ra_address r) (ra_size r),
      ar_writable = (ra_protection r AND VM_PROT_WRITE \<noteq> 0)\<rparr>"

text \<open>The first argument is the number of passes that are left.\<close>

fun region_walk ::
  "nat \<Rightarrow> region_query \<Rightarrow> u64 \<Rightarrow> apple_region list \<Rightarrow> u32 right list \<Rightarrow> apple_region list \<times> u32 right list" where
  "region_walk 0 query address found rights = (found, rights)"
| "region_walk (Suc passes) query address found rights =
     (case mach_vm_region query address of (r, moved) \<Rightarrow>
      let rights = rights @ moved @ release_object r in
      if ra_result r \<noteq> KERN_SUCCESS \<or> ra_size r = 0 then (found, rights)
      else let found = (if ra_protection r AND VM_PROT_EXECUTE \<noteq> 0 then found @ [apple_region_at r] else found) in
        case checked_add_word (ra_address r) (ra_size r) of
          None \<Rightarrow> (found, rights)
        | Some next \<Rightarrow> region_walk passes query next found rights)"

definition no_region :: string where
  "no_region = ''the kernel reported no executable region for this task''"

definition apple_executable :: "region_query \<Rightarrow> (string + apple_region list) \<times> u32 right list" where
  "apple_executable query = (case region_walk REGION_PASSES query 0 [] [] of (found, rights) \<Rightarrow>
     (if found = [] then Inl no_region else Inr found, rights))"

section \<open>The main image\<close>

definition MH_EXECUTE :: u32 where "MH_EXECUTE = 2"
definition MACH_HEADER_BYTES :: u64 where "MACH_HEADER_BYTES = 32"

fun main_header :: "task \<Rightarrow> (u64 \<times> int) list \<Rightarrow> (u64 \<times> int) option" where
  "main_header tk [] = None"
| "main_header tk ((header, slide) # images) =
     (if header = 0 then main_header tk images
      else if mh_filetype (tk_header tk header) \<noteq> MH_EXECUTE then main_header tk images
      else Some (header, slide))"

text \<open>The bytes of a range that the kernel confirms.\<close>

definition confirmed :: "task \<Rightarrow> u64 \<Rightarrow> nat \<Rightarrow> bytes access" where
  "confirmed tk address n =
     (if \<not> fst (mapped (tk_region tk) address n) then Absent else slice (tk_memory tk) address n)"

definition command_slice :: "task \<Rightarrow> u64 \<Rightarrow> u32 \<Rightarrow> bytes access" where
  "command_slice tk header command_bytes =
     (if MAX_COMMAND_BYTES < unat command_bytes then Absent
      else access_bind (or_absent (checked_add_word header MACH_HEADER_BYTES)) (\<lambda>address.
        confirmed tk address (unat command_bytes)))"

subsection \<open>The code signature (\<open>sys/image.rs\<close>)\<close>

definition read_commands :: "task \<Rightarrow> u64 \<Rightarrow> int \<Rightarrow> u32 \<Rightarrow> u32 \<Rightarrow> signature_layout access" where
  "read_commands tk header slide command_count command_bytes =
     access_bind (command_slice tk header command_bytes) (\<lambda>commands.
       or_absent (read_signature_layout commands command_count slide))"

definition locate :: "task \<Rightarrow> signature_layout access" where
  "locate tk = access_bind (or_absent (main_header tk (tk_images tk))) (\<lambda>(header, slide).
     read_commands tk header slide (mh_ncmds (tk_header tk header)) (mh_sizeofcmds (tk_header tk header)))"

definition code_signature :: "task \<Rightarrow> bytes access" where
  "code_signature tk = access_bind (locate tk) (\<lambda>layout. confirmed tk (of_nat (sl_address layout)) (sl_bytes layout))"

subsection \<open>The symbol pointers (\<open>sys/dispatch.rs\<close>)\<close>

definition pointer_targets :: "nat \<Rightarrow> bytes \<Rightarrow> nat \<Rightarrow> raw_target list option" where
  "pointer_targets address values n =
     those (map (\<lambda>index. map_option
         (\<lambda>slot. \<lparr>rw_slot = of_nat slot, rw_value = of_nat (le_nat (take 8 (drop (8 * index) values)))\<rparr>)
         (checked_add address (8 * index))) [0..<n])"

fun section_targets :: "task \<Rightarrow> int \<Rightarrow> pointer_section list \<Rightarrow> raw_target list \<Rightarrow> raw_target list access" where
  "section_targets tk slide [] targets = Got targets"
| "section_targets tk slide (s # sections) targets =
     access_bind (or_absent (checked_add_signed (ps_address s) slide)) (\<lambda>address.
       if ps_bytes s mod 8 \<noteq> 0 then Absent
       else let count = ps_bytes s div 8;
                room = max_targets + 1 - length targets;
                n = min count room in
         if n = 0 then section_targets tk slide sections targets
         else if address mod 8 \<noteq> 0 then Absent
         else access_bind (confirmed tk (of_nat address) (n * 8)) (\<lambda>values.
              access_bind (or_absent (pointer_targets address values n)) (\<lambda>found.
                let targets = targets @ found in
                if n < count \<or> max_targets < length targets then Got targets
                else section_targets tk slide sections targets)))"

definition image_targets :: "task \<Rightarrow> u64 \<Rightarrow> int \<Rightarrow> u32 \<Rightarrow> u32 \<Rightarrow> raw_targets access" where
  "image_targets tk header slide command_count command_bytes =
     access_bind (command_slice tk header command_bytes) (\<lambda>commands.
     access_bind (or_absent (read_dispatch_layout commands command_count)) (\<lambda>layout.
     access_bind (section_targets tk slide (dl_sections layout) []) (\<lambda>targets.
       if targets = [] then Absent else Got \<lparr>rw_targets = targets, rw_bound = dl_bound layout\<rparr>)))"

definition apple_dispatch_read :: "task \<Rightarrow> raw_targets access" where
  "apple_dispatch_read tk = access_bind (or_absent (main_header tk (tk_images tk))) (\<lambda>(header, slide).
     image_targets tk header slide (mh_ncmds (tk_header tk header)) (mh_sizeofcmds (tk_header tk header)))"

section \<open>The rights that the walks take\<close>

text \<open>
  Every right is released as often as it is taken, and at no moment has one been released more often
  than it was taken.
\<close>

definition balanced :: "'a right list \<Rightarrow> bool" where
  "balanced rights \<longleftrightarrow>
     (\<forall>x. count_list rights (Took x) = count_list rights (Dropped x))
     \<and> (\<forall>k x. count_list (take k rights) (Dropped x) \<le> count_list (take k rights) (Took x))"

lemma balanced_append: "balanced a \<Longrightarrow> balanced b \<Longrightarrow> balanced (a @ b)"
  by (simp add: balanced_def add_mono)

lemma balanced_Nil [simp]: "balanced []"
  by (simp add: balanced_def)

lemma balanced_around: "balanced b \<Longrightarrow> balanced ([Took x] @ b @ [Dropped x])"
proof -
  assume b: "balanced b"
  have "count_list (take k ([Took x] @ b @ [Dropped x])) (Dropped y)
      \<le> count_list (take k ([Took x] @ b @ [Dropped x])) (Took y)" for k y
  proof (cases k)
    case (Suc j)
    have "count_list (take j b) (Dropped y) \<le> count_list (take j b) (Took y)" using b by (simp add: balanced_def)
    then show ?thesis using Suc by (cases "j - length b") (auto simp: trans_le_add1)
  qed simp
  then show ?thesis using b by (simp add: balanced_def)
qed

lemma balanced_pair [simp]: "balanced [Took x, Dropped x]"
  using balanced_around [OF balanced_Nil] by simp

lemma region_call_balanced: "mach_vm_region query a = (r, moved) \<Longrightarrow> balanced (moved @ release_object r)"
  by (auto simp: mach_vm_region_def release_object_def Let_def)

lemma region_walk_balanced: "balanced rights \<Longrightarrow> balanced (snd (region_walk n query a found rights))"
proof (induction n arbitrary: a found rights)
  case (Suc n)
  obtain r moved where call: "mach_vm_region query a = (r, moved)" by fastforce
  have "balanced (rights @ moved @ release_object r)"
    using Suc.prems region_call_balanced [OF call] by (rule balanced_append)
  then show ?case using Suc.IH by (auto simp: call Let_def split: option.splits)
qed simp

lemma mapped_balanced: "balanced (snd (mapped query a n))"
  by (auto simp: mapped_def region_call_balanced split: option.splits prod.splits)

section \<open>No read leaves the confirmed ranges\<close>

text \<open>
  What the kernel documents of its answer: the bytes of a region that it reports with read permission
  (bit 0 of the protection) can be read, and none of them is at the null address.  It reports a region
  without that permission in the same way, and nothing is said of its bytes.
\<close>

definition permitted_readable :: "task \<Rightarrow> bool" where
  "permitted_readable tk \<longleftrightarrow>
     (\<forall>a x. let r = tk_region tk a in
        ra_result r = KERN_SUCCESS \<and> ra_protection r AND 1 \<noteq> 0
        \<and> ra_address r \<le> x \<and> unat x < unat (ra_address r) + unat (ra_size r) \<longrightarrow>
        x \<noteq> 0 \<and> tk_memory tk x \<noteq> None)"

definition holds_bytes :: "task \<Rightarrow> u64 \<Rightarrow> bytes \<Rightarrow> bool" where
  "holds_bytes tk a bs \<longleftrightarrow> (\<forall>i < length bs. tk_memory tk (a + of_nat i) = Some (bs ! i))"

text \<open>A reported region that holds the whole range, and one that does so without read permission.\<close>

definition covers :: "region_answer \<Rightarrow> u64 \<Rightarrow> nat \<Rightarrow> bool" where
  "covers r a n \<longleftrightarrow> ra_result r = 0 \<and> ra_address r \<le> a
     \<and> unat a + n \<le> unat (ra_address r) + unat (ra_size r)"

definition unreadable :: "task \<Rightarrow> u64 \<Rightarrow> nat \<Rightarrow> bool" where
  "unreadable tk a n \<longleftrightarrow> n \<noteq> 0 \<and> covers (tk_region tk a) a n \<and> ra_protection (tk_region tk a) AND 1 = 0"

lemma mapped_covers:
  assumes "fst (mapped query a n)"
  shows "n \<noteq> 0" and "unat a + n < 2 ^ 64" and "covers (query a) a n"
proof -
  let ?r = "query a"
  from assms obtain e where n: "n \<noteq> 0" "n < 2 ^ 64" and e: "checked_add_word a (of_nat n) = Some e"
    and r: "ra_result ?r = KERN_SUCCESS" "ra_address ?r \<le> a"
      "is_some_and (\<lambda>region_end. e \<le> region_end) (checked_add_word (ra_address ?r) (ra_size ?r))"
    by (auto simp: mapped_def mach_vm_region_def Let_def split: if_splits option.splits)
  from r(3) obtain f where f: "checked_add_word (ra_address ?r) (ra_size ?r) = Some f" "e \<le> f"
    by (auto simp: is_some_and_def split: option.splits)
  have "unat e = unat a + unat (of_nat n :: u64)" using e unfolding checked_add_word_Some by blast
  then have ue: "unat e = unat a + n" using n(2) by (simp add: unat_of_nat)
  have "unat f = unat (ra_address ?r) + unat (ra_size ?r)" using f(1) unfolding checked_add_word_Some by blast
  then show "covers ?r a n" using r(1,2) f(2) ue by (simp add: covers_def KERN_SUCCESS_def word_le_nat_alt)
  show "n \<noteq> 0" by (rule n(1))
  show "unat a + n < 2 ^ 64" using ue unsigned_less [of e, where 'a = nat] by simp
qed

lemma slice_Got: "slice mem a n = Got bs \<Longrightarrow> length bs = n \<and> (\<forall>i < n. mem (a + of_nat i) = Some (bs ! i))"
proof -
  assume "slice mem a n = Got bs"
  then have "map (\<lambda>i. mem (a + of_nat i)) [0..<n] = map Some bs"
    by (simp add: slice_def those_Some split: if_splits option.splits)
  then have eq: "map Some bs = map (\<lambda>i. mem (a + of_nat i)) [0..<n]" by (rule sym)
  from arg_cong [OF eq, of length] have len: "length bs = n" by simp
  have "mem (a + of_nat i) = Some (bs ! i)" if "i < n" for i
    using arg_cong [OF eq, of "\<lambda>xs. xs ! i"] that len by simp
  with len show ?thesis by blast
qed

text \<open>A confirmed range gives bytes of the process, and a fault only where the permission is missing.\<close>

lemma confirmed_Got:
  assumes "confirmed tk a n = Got bs"
  shows "length bs = n" and "n \<noteq> 0" and "covers (tk_region tk a) a n" and "holds_bytes tk a bs"
proof -
  from assms have m: "fst (mapped (tk_region tk) a n)" and s: "slice (tk_memory tk) a n = Got bs"
    by (auto simp: confirmed_def split: if_splits)
  from slice_Got [OF s] show "length bs = n" and "holds_bytes tk a bs" by (auto simp: holds_bytes_def)
  from mapped_covers [OF m] show "n \<noteq> 0" and "covers (tk_region tk a) a n" by blast+
qed

lemma confirmed_Fault:
  assumes "permitted_readable tk" and "confirmed tk a n = Fault"
  shows "unreadable tk a n"
proof (rule ccontr)
  let ?r = "tk_region tk a"
  assume no: "\<not> unreadable tk a n"
  from assms(2) have m: "fst (mapped (tk_region tk) a n)" and s: "slice (tk_memory tk) a n = Fault"
    by (auto simp: confirmed_def split: if_splits)
  note c = mapped_covers [OF m]
  have at: "a + of_nat i \<noteq> 0 \<and> tk_memory tk (a + of_nat i) \<noteq> None" if "i < n" for i
  proof -
    have "unat (a + of_nat i) = unat a + i"
      using c(2) that by (simp add: unat_word_ariths unat_of_nat mod_add_right_eq)
    then have "ra_address ?r \<le> a + of_nat i" and "unat (a + of_nat i) < unat (ra_address ?r) + unat (ra_size ?r)"
      using c(3) that by (simp_all add: covers_def word_le_nat_alt)
    moreover have "ra_result ?r = KERN_SUCCESS" and "ra_protection ?r AND 1 \<noteq> 0"
      using no c by (simp_all add: unreadable_def covers_def KERN_SUCCESS_def)
    ultimately show ?thesis using assms(1) unfolding permitted_readable_def Let_def by blast
  qed
  from at [of 0] c(1) have "a \<noteq> 0" by simp
  from slice_mapped [of a n "tk_memory tk", OF this] at have "slice (tk_memory tk) a n \<noteq> Fault" by auto
  then show False using s by blast
qed

text \<open>
  The ranges that the two readers ask for: the load commands behind the header of the main image, and
  then the signature that they state, or the pointers of a section that they state.
\<close>

definition command_range :: "task \<Rightarrow> u64 \<Rightarrow> nat \<Rightarrow> bool" where
  "command_range tk a n \<longleftrightarrow> (\<exists>header slide. main_header tk (tk_images tk) = Some (header, slide)
     \<and> a = header + 32 \<and> n = unat (mh_sizeofcmds (tk_header tk header)))"

definition signature_range :: "task \<Rightarrow> u64 \<Rightarrow> nat \<Rightarrow> bool" where
  "signature_range tk a n \<longleftrightarrow>
     (\<exists>layout. locate tk = Got layout \<and> a = of_nat (sl_address layout) \<and> n = sl_bytes layout)"

definition section_range :: "int \<Rightarrow> pointer_section list \<Rightarrow> u64 \<Rightarrow> nat \<Rightarrow> bool" where
  "section_range slide sections a n \<longleftrightarrow> (\<exists>s \<in> set sections. \<exists>address.
     checked_add_signed (ps_address s) slide = Some address \<and> a = of_nat address \<and> n \<le> ps_bytes s)"

definition pointer_range :: "task \<Rightarrow> u64 \<Rightarrow> nat \<Rightarrow> bool" where
  "pointer_range tk a n \<longleftrightarrow> (\<exists>header slide commands layout.
     main_header tk (tk_images tk) = Some (header, slide)
     \<and> command_slice tk header (mh_sizeofcmds (tk_header tk header)) = Got commands
     \<and> read_dispatch_layout commands (mh_ncmds (tk_header tk header)) = Some layout
     \<and> section_range slide (dl_sections layout) a n)"

lemma command_slice_Fault:
  assumes "permitted_readable tk" and "main_header tk (tk_images tk) = Some (header, slide)"
    and "command_slice tk header (mh_sizeofcmds (tk_header tk header)) = Fault"
  shows "\<exists>a n. command_range tk a n \<and> unreadable tk a n"
proof -
  from assms(3) obtain a where "checked_add_word header MACH_HEADER_BYTES = Some a"
    and f: "confirmed tk a (unat (mh_sizeofcmds (tk_header tk header))) = Fault"
    by (auto simp: command_slice_def access_bind_Fault or_absent_def split: if_splits option.splits)
  then have "a = header + 32" by (simp add: checked_add_word_def MACH_HEADER_BYTES_def split: if_splits)
  then show ?thesis using assms(2) confirmed_Fault [OF assms(1) f] unfolding command_range_def by blast
qed

lemma code_signature_Fault:
  assumes "permitted_readable tk" and "code_signature tk = Fault"
  shows "\<exists>a n. (command_range tk a n \<or> signature_range tk a n) \<and> unreadable tk a n"
proof (cases "locate tk")
  case Fault
  then obtain header slide where "main_header tk (tk_images tk) = Some (header, slide)"
      "command_slice tk header (mh_sizeofcmds (tk_header tk header)) = Fault"
    by (auto simp: locate_def read_commands_def access_bind_Fault or_absent_def split: prod.splits option.splits)
  from command_slice_Fault [OF assms(1) this] show ?thesis by blast
next
  case (Got layout)
  with assms(2) have "confirmed tk (of_nat (sl_address layout)) (sl_bytes layout) = Fault"
    by (simp add: code_signature_def)
  from confirmed_Fault [OF assms(1) this] Got show ?thesis unfolding signature_range_def by blast
qed (use assms(2) in \<open>simp add: code_signature_def\<close>)

lemma code_signature_Got:
  assumes "code_signature tk = Got sig"
  shows "\<exists>a. signature_range tk a (length sig) \<and> sig \<noteq> [] \<and> covers (tk_region tk a) a (length sig) \<and> holds_bytes tk a sig"
proof -
  from assms obtain layout where l: "locate tk = Got layout"
    and c: "confirmed tk (of_nat (sl_address layout)) (sl_bytes layout) = Got sig"
    unfolding code_signature_def access_bind_Got by blast
  have "signature_range tk (of_nat (sl_address layout)) (length sig)"
    unfolding signature_range_def using l confirmed_Got(1) [OF c] by blast
  then show ?thesis using confirmed_Got [OF c] by auto
qed

text \<open>A target whose eight bytes the process holds at its slot.\<close>

definition held :: "task \<Rightarrow> raw_target \<Rightarrow> bool" where
  "held tk t \<longleftrightarrow> (\<exists>bs. length bs = 8 \<and> holds_bytes tk (rw_slot t) bs \<and> rw_value t = of_nat (le_nat bs))"

lemma pointer_targets_held:
  assumes "pointer_targets address values n = Some found" and "length values = n * 8"
    and "holds_bytes tk (of_nat address) values"
  shows "length found = n \<and> list_all (held tk) found"
proof -
  from assms(1) have eq: "map (\<lambda>index. map_option
         (\<lambda>slot. \<lparr>rw_slot = of_nat slot, rw_value = of_nat (le_nat (take 8 (drop (8 * index) values)))\<rparr>)
         (checked_add address (8 * index))) [0..<n] = map Some found"
    unfolding pointer_targets_def those_Some .
  from arg_cong [OF eq, of length] have len: "length found = n" by simp
  have "held tk (found ! i)" if "i < n" for i
  proof -
    have "map_option (\<lambda>slot. \<lparr>rw_slot = of_nat slot, rw_value = of_nat (le_nat (take 8 (drop (8 * i) values)))\<rparr>)
        (checked_add address (8 * i)) = Some (found ! i)"
      using arg_cong [OF eq, of "\<lambda>xs. xs ! i"] that len by simp
    then have f: "found ! i = \<lparr>rw_slot = of_nat (address + 8 * i), rw_value = of_nat (le_nat (take 8 (drop (8 * i) values)))\<rparr>"
      by auto
    have "holds_bytes tk (of_nat (address + 8 * i)) (take 8 (drop (8 * i) values))"
      using assms(2,3) that unfolding holds_bytes_def
      by (auto simp: add.assoc simp flip: of_nat_add of_nat_mult)
    then show ?thesis
      using f assms(2) that unfolding held_def
      by (intro exI [of _ "take 8 (drop (8 * i) values)"]) simp
  qed
  then show ?thesis using len by (simp add: list_all_length)
qed

lemma section_targets_read:
  assumes "checked_add_signed (ps_address s) slide = Some address" and "ps_bytes s mod 8 = 0" and "address mod 8 = 0"
    and n: "n = min (ps_bytes s div 8) (max_targets + 1 - length targets)" and "n \<noteq> 0"
  shows "section_targets tk slide (s # sections) targets =
    access_bind (confirmed tk (of_nat address) (n * 8)) (\<lambda>vs. case pointer_targets address vs n of
        None \<Rightarrow> Absent
      | Some found \<Rightarrow> if n < ps_bytes s div 8 \<or> max_targets < length (targets @ found) then Got (targets @ found)
          else section_targets tk slide sections (targets @ found))"
proof -
  have bind: "access_bind (case x of None \<Rightarrow> Absent | Some v \<Rightarrow> Got v) f = (case x of None \<Rightarrow> Absent | Some v \<Rightarrow> f v)"
    for x :: "raw_target list option" and f :: "raw_target list \<Rightarrow> raw_target list access"
    by (cases x) simp_all
  show ?thesis
    unfolding section_targets.simps Let_def assms(1) or_absent_def option.case access_bind.simps n [symmetric] bind
    using assms(2,3,5) by simp
qed

lemma section_targets_skip:
  assumes "checked_add_signed (ps_address s) slide = None \<or> ps_bytes s mod 8 \<noteq> 0
    \<or> min (ps_bytes s div 8) (max_targets + 1 - length targets) = 0
    \<or> the (checked_add_signed (ps_address s) slide) mod 8 \<noteq> 0"
  shows "section_targets tk slide (s # sections) targets \<in> {Absent, section_targets tk slide sections targets}"
proof (cases "checked_add_signed (ps_address s) slide")
  case (Some address)
  define n where "n = min (ps_bytes s div 8) (max_targets + 1 - length targets)"
  from assms Some show ?thesis
    unfolding section_targets.simps Let_def Some or_absent_def option.case access_bind.simps n_def [symmetric] by auto
qed (simp add: or_absent_def)

lemma section_targets_safe:
  assumes "permitted_readable tk"
  shows "list_all (held tk) targets \<Longrightarrow> length targets \<le> max_targets + 1 \<Longrightarrow>
    (section_targets tk slide sections targets = Fault \<longrightarrow> (\<exists>a n. section_range slide sections a n \<and> unreadable tk a n))
    \<and> (\<forall>found. section_targets tk slide sections targets = Got found \<longrightarrow>
         list_all (held tk) found \<and> length found \<le> max_targets + 1)"
proof (induction sections arbitrary: targets)
  case (Cons s sections)
  define n where n: "n = min (ps_bytes s div 8) (max_targets + 1 - length targets)"
  have later: "section_range slide sections a m \<Longrightarrow> section_range slide (s # sections) a m" for a m
    by (auto simp: section_range_def)
  show ?case
  proof (cases "checked_add_signed (ps_address s) slide = None \<or> ps_bytes s mod 8 \<noteq> 0 \<or> n = 0
      \<or> the (checked_add_signed (ps_address s) slide) mod 8 \<noteq> 0")
    case True
    from section_targets_skip [OF this [unfolded n], of tk sections] show ?thesis
      using Cons.IH [OF Cons.prems] later by (elim insertE) (simp_all, blast)
  next
    case False
    then obtain address where a: "checked_add_signed (ps_address s) slide = Some address" by auto
    with False have "ps_bytes s mod 8 = 0" "address mod 8 = 0" "n \<noteq> 0" by simp_all
    note head = section_targets_read [OF a this(1,2) n this(3), of tk sections]
    show ?thesis
    proof (cases "confirmed tk (of_nat address) (n * 8)")
      case Fault
      have "n \<le> ps_bytes s div 8" by (simp add: n)
      then have "n * 8 \<le> ps_bytes s" by (simp add: less_eq_div_iff_mult_less_eq)
      then have "section_range slide (s # sections) (of_nat address) (n * 8)" using a by (auto simp: section_range_def)
      then show ?thesis using confirmed_Fault [OF assms Fault] by (auto simp: head Fault simp del: section_targets.simps)
    next
      case (Got vs)
      show ?thesis
      proof (cases "pointer_targets address vs n")
        case None
        then show ?thesis unfolding head Got by simp
      next
        case (Some found)
        from confirmed_Got [OF Got] have f: "length found = n \<and> list_all (held tk) found"
          by (intro pointer_targets_held [OF Some]) auto
        then have f: "list_all (held tk) (targets @ found)" "length (targets @ found) \<le> max_targets + 1"
          using Cons.prems by (simp_all add: n)
        show ?thesis unfolding head Got access_bind.simps Some option.case
          using f Cons.IH [OF f] later
          by (cases "n < ps_bytes s div 8 \<or> max_targets < length (targets @ found)")
            (simp_all del: length_append list_all_append, blast)
      qed
    qed (simp add: head del: section_targets.simps)
  qed
qed simp

lemma apple_dispatch_Fault:
  assumes "permitted_readable tk" and "apple_dispatch_read tk = Fault"
  shows "\<exists>a n. (command_range tk a n \<or> pointer_range tk a n) \<and> unreadable tk a n"
proof -
  from assms(2) obtain header slide where h: "main_header tk (tk_images tk) = Some (header, slide)"
    and f: "image_targets tk header slide (mh_ncmds (tk_header tk header)) (mh_sizeofcmds (tk_header tk header)) = Fault"
    by (auto simp: apple_dispatch_read_def access_bind_Fault or_absent_def split: option.splits)
  show ?thesis
  proof (cases "command_slice tk header (mh_sizeofcmds (tk_header tk header))")
    case Fault
    from command_slice_Fault [OF assms(1) h this] show ?thesis by blast
  next
    case (Got commands)
    with f obtain layout where l: "read_dispatch_layout commands (mh_ncmds (tk_header tk header)) = Some layout"
      and s: "section_targets tk slide (dl_sections layout) [] = Fault"
      by (auto simp: image_targets_def access_bind_Fault or_absent_def split: option.splits if_splits)
    from section_targets_safe [OF assms(1), of "[]" slide "dl_sections layout"] s
    obtain a n where "section_range slide (dl_sections layout) a n" "unreadable tk a n" by auto
    then show ?thesis using h Got l unfolding pointer_range_def by blast
  qed (use f in \<open>simp add: image_targets_def\<close>)
qed

lemma apple_dispatch_Got:
  assumes "permitted_readable tk" and "apple_dispatch_read tk = Got raw"
  shows "rw_targets raw \<noteq> [] \<and> length (rw_targets raw) \<le> max_targets + 1 \<and> list_all (held tk) (rw_targets raw)"
  using section_targets_safe [OF assms(1), of "[]"] assms(2)
  by (auto simp: apple_dispatch_read_def image_targets_def access_bind_Got split: prod.splits if_splits)

text \<open>
  C37.  The Apple probe reads only ranges that one reported region holds, and what it returns is what
  the process holds there.  The hypothesis is only that a region reported with read permission can be
  read.  Whatever the load commands state, a read of the code signature or of the symbol-pointer table
  faults only when the load commands, or the range that they state, lie in one region that the kernel
  reported without read permission; the code does not ask for that permission, against the word of its
  comments that the confirmed range can be read.  A returned signature is the non-empty range that the
  commands state, inside one reported region.  Each dispatch target is a slot with the eight bytes that
  the process holds there, there is at least one, and never more than one above the limit of a
  snapshot, which is what marks a snapshot as cut.
\<close>

theorem apple_reads_safe:
  assumes "permitted_readable tk"
  shows "(code_signature tk = Fault \<longrightarrow>
        (\<exists>a n. (command_range tk a n \<or> signature_range tk a n) \<and> unreadable tk a n))
    \<and> (\<forall>sig. code_signature tk = Got sig \<longrightarrow>
        (\<exists>a. signature_range tk a (length sig) \<and> sig \<noteq> [] \<and> covers (tk_region tk a) a (length sig)
           \<and> holds_bytes tk a sig))
    \<and> (apple_dispatch_read tk = Fault \<longrightarrow>
        (\<exists>a n. (command_range tk a n \<or> pointer_range tk a n) \<and> unreadable tk a n))
    \<and> (\<forall>raw. apple_dispatch_read tk = Got raw \<longrightarrow> rw_targets raw \<noteq> []
         \<and> length (rw_targets raw) \<le> max_targets + 1 \<and> list_all (held tk) (rw_targets raw))"
  using code_signature_Fault [OF assms] code_signature_Got apple_dispatch_Fault [OF assms]
    apple_dispatch_Got [OF assms] by blast

text \<open>
  The check of the region asks for no permission: with a region that is mapped and not readable the
  read faults.
\<close>

definition guarded_task :: task where
  "guarded_task =
     \<lparr>tk_region = (\<lambda>_. \<lparr>ra_result = 0, ra_address = 4096, ra_size = 4096, ra_protection = 0, ra_object = 0\<rparr>),
      tk_images = [(4096, 0)], tk_header = (\<lambda>_. \<lparr>mh_filetype = 2, mh_ncmds = 1, mh_sizeofcmds = 16\<rparr>),
      tk_memory = (\<lambda>_. None)\<rparr>"

lemma unreadable_region_faults: "code_signature guarded_task = Fault"
  by (simp add: code_signature_def locate_def read_commands_def command_slice_def confirmed_def mapped_def
      guarded_task_def MH_EXECUTE_def MACH_HEADER_BYTES_def KERN_SUCCESS_def MAX_COMMAND_BYTES_def or_absent_def
      is_some_and_def checked_add_word_def slice_def upt_rec mach_vm_region_def Let_def)

text \<open>A task with one region: a header at 4096, its three load commands, and a signature among them.\<close>

definition sample_commands :: bytes where
  "sample_commands = concat (map write_command
     [CodeSignature 96 32 [], OtherCommand 2 [], Segment (LINKEDIT @ replicate 6 0) 4096 0 64 128 (replicate 16 0)])"

definition sample_task :: task where
  "sample_task =
     \<lparr>tk_region = (\<lambda>_. \<lparr>ra_result = 0, ra_address = 4096, ra_size = 4096, ra_protection = 5, ra_object = 7\<rparr>),
      tk_images = [(0, 0), (4096, 16)], tk_header = (\<lambda>_. \<lparr>mh_filetype = 2, mh_ncmds = 3, mh_sizeofcmds = 96\<rparr>),
      tk_memory = (\<lambda>x. if 4128 \<le> x \<and> x < 4224 then Some (sample_commands ! (unat x - 4128))
                       else if 4096 \<le> x \<and> x < 8192 then Some 0 else None)\<rparr>"

lemma sample_task_readable: "permitted_readable sample_task"
  by (auto simp: permitted_readable_def sample_task_def word_le_nat_alt word_less_nat_alt)

lemma sample_layout: "read_signature_layout sample_commands 3 16 = Some \<lparr>sl_address = 4144, sl_bytes = 32\<rparr>"
proof -
  let ?cs = "[CodeSignature 96 32 [], OtherCommand 2 [], Segment (LINKEDIT @ replicate 6 0) 4096 0 64 128 (replicate 16 0)]"
  have "is_linkedit (LINKEDIT @ replicate 6 0)" by code_simp
  then have w: "walk_commands ?cs \<lparr>sw_linkedit = None, sw_signature = None\<rparr> =
      Some \<lparr>sw_linkedit = Some (4096, 64, 128), sw_signature = Some (96, 32)\<rparr>" by simp
  have f: "fit (4096, 64, 128) (96, 32) 16 = Some \<lparr>sl_address = 4144, sl_bytes = 32\<rparr>"
    by (simp add: fit_def MAX_SIGNATURE_BYTES_def checked_add_def checked_sub_def checked_add_signed_def usize_bound_def)
  have "\<forall>c \<in> set ?cs. wf_command c" by (simp add: LINKEDIT_def LC_SEGMENT_64_def LC_CODE_SIGNATURE_def)
  moreover have "length (concat (map write_command ?cs)) \<le> MAX_COMMAND_BYTES"
    by (simp add: length_write_command MAX_COMMAND_BYTES_def LINKEDIT_def)
  ultimately show ?thesis
    unfolding sample_commands_def using signature_layout_written [of ?cs 3 16] by (simp add: w f del: walk_commands.simps)
qed

lemma sample_confirmed:
  assumes "4128 \<le> unat a" and "unat a + n \<le> 4224" and "n \<noteq> 0"
  shows "confirmed sample_task a n = Got (take n (drop (unat a - 4128) sample_commands))"
proof -
  have len: "length sample_commands = 96"
    by (simp add: sample_commands_def length_write_command LINKEDIT_def)
  have "fst (mapped (tk_region sample_task) a n)"
    using assms by (simp add: mapped_def sample_task_def checked_add_word_def KERN_SUCCESS_def is_some_and_def
        mach_vm_region_def Let_def unat_of_nat word_le_nat_alt unat_word_ariths)
  moreover have at: "tk_memory sample_task (a + of_nat i) = Some (sample_commands ! (unat a - 4128 + i))" if "i < n" for i
  proof -
    have "unat (a + of_nat i) = unat a + i"
      using assms that by (simp add: unat_word_ariths unat_of_nat mod_add_right_eq)
    then show ?thesis using assms that by (simp add: sample_task_def word_le_nat_alt word_less_nat_alt)
  qed
  moreover have "a \<noteq> 0" using assms(1) by auto
  ultimately have "confirmed sample_task a n = Got (map (\<lambda>i. sample_commands ! (unat a - 4128 + i)) [0..<n])"
    using slice_mapped [of a n "tk_memory sample_task"] by (simp add: confirmed_def)
  also have "map (\<lambda>i. sample_commands ! (unat a - 4128 + i)) [0..<n] = take n (drop (unat a - 4128) sample_commands)"
    using assms len by (intro nth_equalityI) auto
  finally show ?thesis .
qed

theorem apple_reads_safe_witness:
  "permitted_readable sample_task
   \<and> code_signature sample_task = Got (take 32 (drop 16 sample_commands))
   \<and> (\<exists>a. signature_range sample_task a 32 \<and> holds_bytes sample_task a (take 32 (drop 16 sample_commands)))
   \<and> apple_dispatch_read sample_task \<noteq> Fault"
proof -
  have "command_slice sample_task 4096 96 = Got sample_commands"
    using sample_confirmed [of 4128 96]
    by (simp add: command_slice_def MAX_COMMAND_BYTES_def MACH_HEADER_BYTES_def or_absent_def checked_add_word_def
        sample_commands_def length_write_command LINKEDIT_def)
  then have "locate sample_task = Got \<lparr>sl_address = 4144, sl_bytes = 32\<rparr>"
    using sample_layout by (simp add: locate_def read_commands_def or_absent_def sample_task_def MH_EXECUTE_def)
  then have sig: "code_signature sample_task = Got (take 32 (drop 16 sample_commands))"
    using sample_confirmed [of 4144 32] by (simp add: code_signature_def)
  moreover have "length (take 32 (drop 16 sample_commands)) = 32"
    by (simp add: sample_commands_def length_write_command LINKEDIT_def)
  moreover have "\<not> unreadable sample_task a n" for a n by (simp add: unreadable_def sample_task_def)
  ultimately show ?thesis using apple_reads_safe [OF sample_task_readable] sample_task_readable by metis
qed

end
