(* ===== verification/Fid_Apple.thy ===== *)
theory Fid_Apple
  imports Fid_Detect Fid_Apple_Image Fid_Smbios
begin

text \<open>
  The Apple probe (\<open>probe/fidelity-probe-apple\<close>): the kernel values (\<open>sys/process.rs\<close>, \<open>sys/vmm.rs\<close>,
  \<open>sys/machine.rs\<close>, \<open>sys/qos.rs\<close>), the Security framework (\<open>sys/security.rs\<close>), the capabilities that
  macOS and iOS share, and those of each.  What a call answers is a field of a record.  The identity
  reads keep a log of the objects they own, and a theorem says that each is released exactly once on
  every path.
\<close>

section \<open>The operating system\<close>

text \<open>
  An object of Core Foundation is an address, and zero is the null reference.  \<open>ac_copy_self\<close>,
  \<open>ac_requirement\<close> and \<open>ac_signing\<close> give a status and what the call wrote into its out parameter.
\<close>

record apple_os =
  ap_task :: task
  ap_proc_size :: "int \<times> nat"
  ap_proc_read :: "nat \<Rightarrow> int \<times> nat \<times> bytes"
  ap_vmm :: "int \<times> int option \<times> nat \<times> int"
  ap_machine :: "int \<times> nat \<times> bytes"
  ap_set_qos :: "u32 \<Rightarrow> int \<Rightarrow> int"
  ac_copy_self :: "int \<times> u64"
  ac_string :: "string \<Rightarrow> u64"
  ac_requirement :: "u64 \<Rightarrow> int \<times> u64"
  ac_check :: "u64 \<Rightarrow> u64 \<Rightarrow> int"
  ac_signing :: "u64 \<Rightarrow> int \<times> u64"
  ac_team :: "u64 \<Rightarrow> u64"
  ac_is_string :: "u64 \<Rightarrow> bool"
  ac_c_string :: "u64 \<Rightarrow> u8 \<times> bytes"

section \<open>The kernel values\<close>

subsection \<open>The process record (\<open>sys/process.rs\<close>)\<close>

definition P_TRACED :: u32 where "P_TRACED = 0x800"
definition FLAG_OFFSET :: nat where "FLAG_OFFSET = 32"
definition FLAG_BYTES :: nat where "FLAG_BYTES = 4"

datatype proc_verdict = ProcAbsent | ProcPresent | ProcFailed string

definition traced :: "apple_os \<Rightarrow> proc_verdict" where
  "traced os = (case ap_proc_size os of (probed, wanted) \<Rightarrow>
     if probed \<noteq> 0 \<or> wanted < FLAG_OFFSET + FLAG_BYTES
     then ProcFailed ''the kernel reported no size for its process record''
     else case ap_proc_read os wanted of (done, len, content) \<Rightarrow>
       let buffer = filled wanted 0 content in
       if done \<noteq> 0 \<or> len < FLAG_OFFSET + FLAG_BYTES then ProcFailed ''the kernel returned no process record''
       else case slice_range buffer FLAG_OFFSET (FLAG_OFFSET + FLAG_BYTES) of
         None \<Rightarrow> ProcFailed ''the process record ended before its flags''
       | Some bs \<Rightarrow>
           if length bs \<noteq> FLAG_BYTES then ProcFailed ''the process flags were the wrong size''
           else if (of_nat (le_nat bs) :: u32) AND P_TRACED = 0 then ProcAbsent else ProcPresent)"

subsection \<open>The monitor below the kernel (\<open>sys/vmm.rs\<close>)\<close>

definition NO_SUCH_NAME :: int where "NO_SUCH_NAME = 2"

datatype vmm_verdict = VmmHardware | VmmVirtualMachine | VmmAbsent string | VmmFailed string

definition vmm_present :: "apple_os \<Rightarrow> vmm_verdict" where
  "vmm_present os = (case ap_vmm os of (done, errno, len, value) \<Rightarrow>
     if done \<noteq> 0
     then (if errno = Some NO_SUCH_NAME then VmmAbsent ''this kernel holds no kern.hv_vmm_present''
           else VmmFailed ''the kernel did not answer kern.hv_vmm_present'')
     else if len \<noteq> 4 then VmmFailed ''the kernel answered kern.hv_vmm_present with another size''
     else if value = 0 then VmmHardware else VmmVirtualMachine)"

subsection \<open>The name of the machine (\<open>sys/machine.rs\<close>)\<close>

definition LIMIT :: nat where "LIMIT = 128"

definition strip_zero :: "bytes \<Rightarrow> bytes" where
  "strip_zero bs = (if bs \<noteq> [] \<and> List.last bs = 0 then butlast bs else bs)"

definition machine_name :: "apple_os \<Rightarrow> string + string" where
  "machine_name os = (case ap_machine os of (result, len, content) \<Rightarrow>
     let bs = filled LIMIT 0 content in
     if result \<noteq> 0 then Inl ''the kernel did not answer hw.machine''
     else if len = 0 \<or> len > length bs then Inl ''the kernel answered hw.machine with an invalid size''
     else case text_of (strip_zero (take len bs)) of
       None \<Rightarrow> Inl ''the kernel answered hw.machine with invalid text''
     | Some s \<Rightarrow> if s = [] then Inl ''the kernel answered hw.machine with an empty name'' else Inr s)"

subsection \<open>The class of the worker thread (\<open>sys/qos.rs\<close>)\<close>

definition QOS_CLASS_UTILITY :: u32 where "QOS_CLASS_UTILITY = 0x11"

definition take_worker_class :: "apple_os \<Rightarrow> string + unit" where
  "take_worker_class os =
     (if ap_set_qos os QOS_CLASS_UTILITY 0 = 0 then Inr ()
      else Inl ''the thread kept its default quality of service'')"

section \<open>The Security framework (\<open>sys/security.rs\<close>)\<close>

definition SUCCESS :: int where "SUCCESS = 0"
definition READ_BYTES :: nat where "READ_BYTES = 512"

definition REJECTED_STATUS :: "int list" where
  "REJECTED_STATUS = [- 67063, - 67062, - 67061, - 67054, - 67050, - 67045, - 67034, - 67023, - 66996]"

type_synonym 'a owning = "'a \<times> u64 right list"

text \<open>\<open>Owned::take\<close>: an object that is not null is owned from here on.\<close>

definition owned_take :: "u64 \<Rightarrow> u64 option owning" where
  "owned_take pointer = (if pointer = 0 then (None, []) else (Some pointer, [Took pointer]))"

definition acquire :: "apple_os \<Rightarrow> (int + u64) owning" where
  "acquire os = (case ac_copy_self os of (status, self) \<Rightarrow>
     if status \<noteq> SUCCESS then (Inl status, [])
     else case owned_take self of
       (None, rights) \<Rightarrow> (Inl SUCCESS, rights)
     | (Some self, rights) \<Rightarrow> (Inr self, rights))"

datatype sec_verdict = SecPass | SecReject int | SecError int

text \<open>The objects go out of scope at each return, the last one first.\<close>

definition sec_check :: "apple_os \<Rightarrow> u64 \<Rightarrow> string \<Rightarrow> sec_verdict owning" where
  "sec_check os self requirement = (case owned_take (ac_string os requirement) of
       (None, rights) \<Rightarrow> (SecError SUCCESS, rights)
     | (Some t, rights) \<Rightarrow> (case ac_requirement os t of (status, parsed) \<Rightarrow>
         if status \<noteq> SUCCESS then (SecError status, rights @ [Dropped t])
         else case owned_take parsed of
           (None, kept) \<Rightarrow> (SecError SUCCESS, rights @ kept @ [Dropped t])
         | (Some parsed, kept) \<Rightarrow>
             let status = ac_check os self parsed in
             (if status = SUCCESS then SecPass
              else if status \<in> set REJECTED_STATUS then SecReject status else SecError status,
              rights @ kept @ [Dropped parsed, Dropped t])))"

definition read_string :: "apple_os \<Rightarrow> u64 \<Rightarrow> string option" where
  "read_string os value =
     (if value = 0 then None
      else if \<not> ac_is_string os value then None
      else case ac_c_string os value of (copied, content) \<Rightarrow>
        let buffer = filled READ_BYTES 0 content in
        if copied = 0 then None
        else if 0 \<in> set buffer then text_of (takeWhile (\<lambda>b. b \<noteq> 0) buffer) else None)"

definition sec_team_identifier :: "apple_os \<Rightarrow> u64 \<Rightarrow> (int + string option) owning" where
  "sec_team_identifier os self = (case ac_signing os self of (status, information) \<Rightarrow>
     if status \<noteq> SUCCESS then (Inl status, [])
     else case owned_take information of
       (None, rights) \<Rightarrow> (Inl SUCCESS, rights)
     | (Some information, rights) \<Rightarrow>
         (Inr (read_string os (ac_team os information)), rights @ [Dropped information]))"

section \<open>The capabilities of both systems\<close>

definition APPLE_TRACED :: string where
  "APPLE_TRACED = ''the kernel reports P_TRACED on this process''"

definition apple_tracer_state :: "apple_os \<Rightarrow> tracer_state observation" where
  "apple_tracer_state os = (case traced os of
       ProcAbsent \<Rightarrow> Fact TracerAbsent
     | ProcPresent \<Rightarrow> Fact (TracerHeld (bounded_text_new APPLE_TRACED))
     | ProcFailed detail \<Rightarrow> ObsFailed (bounded_text_new detail))"

definition apple_code_regions :: "apple_os \<Rightarrow> code_regions observation" where
  "apple_code_regions os = (case fst (apple_executable (tk_region (ap_task os))) of
       Inr found \<Rightarrow> Fact (code_regions_new (map (\<lambda>r. region_new (ar_start r) (ar_end r) (ar_writable r)) found))
     | Inl detail \<Rightarrow> ObsFailed (bounded_text_new detail))"

definition NO_TABLE :: string where
  "NO_TABLE = ''the image of the host holds no symbol-pointer table''"

text \<open>A read that faults ends the process; it is kept as \<open>Panic\<close>.\<close>

definition apple_dispatch_targets :: "apple_os \<Rightarrow> dispatch_targets observation exec" where
  "apple_dispatch_targets os = (case apple_dispatch_read (ap_task os) of
       Fault \<Rightarrow> Panic
     | Absent \<Rightarrow> Returns (ObsUnsupported NO_TABLE)
     | Got raw \<Rightarrow> Returns (Fact (dispatch_targets_new
         (map (\<lambda>t. target_new (rw_slot t) (rw_value t)) (rw_targets raw)) (rw_bound raw))))"

definition TOOK :: string where
  "TOOK = ''the worker thread took a utility quality of service''"

definition apple_prepare_worker :: "apple_os \<Rightarrow> worker_setup" where
  "apple_prepare_worker os = (case take_worker_class os of
       Inr _ \<Rightarrow> Prepared (bounded_text_new TOOK)
     | Inl detail \<Rightarrow> SetupFailed (bounded_text_new detail))"

section \<open>macOS\<close>

definition APPLE_ANCHOR :: string where "APPLE_ANCHOR = ''anchor apple generic''"
definition mac_accepted_gap :: string where
  "mac_accepted_gap = ''the host accepted no identity check on macOS''"
definition mac_no_host_value :: string where
  "mac_no_host_value = ''the host stated no identity value for macOS''"

text \<open>A status as the format writes it.\<close>

definition status_text :: "int \<Rightarrow> string" where
  "status_text status = (if status < 0 then ''-'' @ dec (nat (- status)) else dec (nat status))"

definition failure :: "string \<Rightarrow> int \<Rightarrow> string" where
  "failure call status = call @ '' returned '' @ status_text status"

definition anchor_detail :: "int \<Rightarrow> string" where
  "anchor_detail status =
     ''the running image does not satisfy '' @ [CHR 0x22] @ APPLE_ANCHOR @ [CHR 0x22]
       @ '', and SecCodeCheckValidity returned '' @ status_text status"

definition requirement_detail :: "int \<Rightarrow> string" where
  "requirement_detail status =
     ''the running image does not satisfy the requirement that the host pinned, and SecCodeCheckValidity returned ''
       @ status_text status"

text \<open>The signer and the result, once the trust is known.\<close>

definition mac_signed :: "apple_os \<Rightarrow> u64 \<Rightarrow> platform_trust \<Rightarrow> code_identity observation owning" where
  "mac_signed os self trust = (case sec_team_identifier os self of
       (Inl status, rights) \<Rightarrow> (obs_failed (failure ''SecCodeCopySigningInformation'' status), rights)
     | (Inr None, rights) \<Rightarrow> (Fact \<lparr>ci_trust = trust, ci_signer = None\<rparr>, rights)
     | (Inr (Some team), rights) \<Rightarrow>
         (Fact \<lparr>ci_trust = trust, ci_signer = Some (signer_new (as_bytes team) (''team '' @ team))\<rparr>, rights))"

definition mac_code_identity :: "apple_os \<Rightarrow> code_identity observation owning" where
  "mac_code_identity os = (case acquire os of
       (Inl status, rights) \<Rightarrow> (obs_failed (failure ''SecCodeCopySelf'' status), rights)
     | (Inr self, rights) \<Rightarrow> (case sec_check os self APPLE_ANCHOR of (verdict, checked) \<Rightarrow>
         case verdict of
           SecError status \<Rightarrow>
             (obs_failed (failure ''SecCodeCheckValidity'' status), rights @ checked @ [Dropped self])
         | SecPass \<Rightarrow> (case mac_signed os self Accepted of (obs, kept) \<Rightarrow>
             (obs, rights @ checked @ kept @ [Dropped self]))
         | SecReject status \<Rightarrow> (case mac_signed os self (Rejected (bounded_text_new (anchor_detail status))) of (obs, kept) \<Rightarrow>
             (obs, rights @ checked @ kept @ [Dropped self]))))"

definition mac_identity_match :: "apple_os \<Rightarrow> expected_identity \<Rightarrow> identity_match observation owning" where
  "mac_identity_match os expected = (case ei_macos expected of
       Some AcceptUnsupported \<Rightarrow> (ObsUnsupported mac_accepted_gap, [])
     | None \<Rightarrow> (ObsUnsupported mac_no_host_value, [])
     | Some (Value (CodeRequirement requirement)) \<Rightarrow> (case acquire os of
           (Inl status, rights) \<Rightarrow> (obs_failed (failure ''SecCodeCopySelf'' status), rights)
         | (Inr self, rights) \<Rightarrow> (case sec_check os self requirement of (verdict, checked) \<Rightarrow>
             (case verdict of
                SecPass \<Rightarrow> Fact Same
              | SecReject status \<Rightarrow> Fact (Different (bounded_text_new (requirement_detail status)))
              | SecError status \<Rightarrow> obs_failed (failure ''SecCodeCheckValidity'' status),
              rights @ checked @ [Dropped self]))))"

definition MONITOR_PRESENT :: string where
  "MONITOR_PRESENT = ''the kernel reports kern.hv_vmm_present=1, so a virtual machine monitor runs this system''"

definition mac_machine_host :: "apple_os \<Rightarrow> machine_host observation" where
  "mac_machine_host os = (case vmm_present os of
       VmmHardware \<Rightarrow> Fact Hardware
     | VmmVirtualMachine \<Rightarrow> Fact (VirtualMachine (bounded_text_new MONITOR_PRESENT))
     | VmmAbsent reason \<Rightarrow> ObsUnsupported reason
     | VmmFailed detail \<Rightarrow> obs_failed detail)"

definition mac_environment :: "apple_os \<Rightarrow> local_agent_state observation exec \<Rightarrow> environment" where
  "mac_environment os agent =
     (default_environment MacOs agent)
      \<lparr>en_code_identity := Returns (fst (mac_code_identity os)),
       en_identity_match := (\<lambda>expected. Returns (fst (mac_identity_match os expected))),
       en_code_regions := Returns (apple_code_regions os),
       en_tracer_state := Returns (apple_tracer_state os),
       en_dispatch_targets := apple_dispatch_targets os,
       en_machine_host := Returns (mac_machine_host os),
       en_prepare_worker := Returns (apple_prepare_worker os)\<rparr>"

section \<open>iOS\<close>

definition KERNEL_ENFORCES :: string where
  "KERNEL_ENFORCES = ''the iOS kernel enforces code signing before the image runs, and the platform exposes no interface that reports the verdict''"
definition ios_accepted_gap :: string where
  "ios_accepted_gap = ''the host accepted no identity check on iOS''"
definition ios_no_host_value :: string where
  "ios_no_host_value = ''the host stated no identity value for iOS''"
definition IMAGE_NAMES_NO_TEAM :: string where
  "IMAGE_NAMES_NO_TEAM = ''the host pinned a team identifier, and the running image names none''"
definition ANOTHER_TEAM :: string where
  "ANOTHER_TEAM = ''the running image names a team identifier, and it is not the one the host pinned''"

definition ios_team :: "apple_os \<Rightarrow> string access" where
  "ios_team os = access_bind (code_signature (ap_task os)) (\<lambda>sig.
     or_absent (Option.bind (entitlements sig) read_team_identifier))"

text \<open>A team, or none; a read that faults ends the process.\<close>

definition team_option :: "string access \<Rightarrow> string option exec" where
  "team_option team = (case team of Fault \<Rightarrow> Panic | Absent \<Rightarrow> Returns None | Got t \<Rightarrow> Returns (Some t))"

definition ios_compare :: "string option \<Rightarrow> string \<Rightarrow> identity_match" where
  "ios_compare found pinned = (case found of
       Some team \<Rightarrow> if team = pinned then Same else Different (bounded_text_new ANOTHER_TEAM)
     | None \<Rightarrow> Different (bounded_text_new IMAGE_NAMES_NO_TEAM))"

definition ios_code_identity :: "apple_os \<Rightarrow> code_identity observation exec" where
  "ios_code_identity os = exec_bind (team_option (ios_team os)) (\<lambda>team.
     Returns (Fact \<lparr>ci_trust = Unavailable KERNEL_ENFORCES,
                    ci_signer = map_option (\<lambda>t. signer_new (as_bytes t) (''team '' @ t)) team\<rparr>))"

definition ios_identity_match :: "apple_os \<Rightarrow> expected_identity \<Rightarrow> identity_match observation exec" where
  "ios_identity_match os expected = (case ei_ios expected of
       Some (Value (TeamIdentifier pinned)) \<Rightarrow>
         exec_bind (team_option (ios_team os)) (\<lambda>team. Returns (Fact (ios_compare team pinned)))
     | Some AcceptUnsupported \<Rightarrow> Returns (ObsUnsupported ios_accepted_gap)
     | None \<Rightarrow> Returns (ObsUnsupported ios_no_host_value))"

definition HOST_ARCHITECTURE :: string where
  "HOST_ARCHITECTURE = ''hw.machine reports the host architecture instead of an iOS product name''"

definition classify :: "string \<Rightarrow> string + machine_host" where
  "classify name =
     (if starts_with name ''iPhone'' \<or> starts_with name ''iPad'' \<or> starts_with name ''iPod'' then Inr Hardware
      else if name = ''arm64'' \<or> name = ''x86_64'' then Inr (Simulated (bounded_text_new HOST_ARCHITECTURE))
      else Inl ''hw.machine names no known iOS device or simulator architecture'')"

definition ios_machine_host :: "apple_os \<Rightarrow> machine_host observation" where
  "ios_machine_host os = (case machine_name os of
       Inr name \<Rightarrow> (case classify name of Inr host \<Rightarrow> Fact host | Inl detail \<Rightarrow> obs_failed detail)
     | Inl detail \<Rightarrow> obs_failed detail)"

definition ios_environment :: "apple_os \<Rightarrow> local_agent_state observation exec \<Rightarrow> environment" where
  "ios_environment os agent =
     (default_environment Ios agent)
      \<lparr>en_code_identity := ios_code_identity os,
       en_identity_match := ios_identity_match os,
       en_code_regions := Returns (apple_code_regions os),
       en_tracer_state := Returns (apple_tracer_state os),
       en_dispatch_targets := apple_dispatch_targets os,
       en_machine_host := Returns (ios_machine_host os),
       en_prepare_worker := Returns (apple_prepare_worker os)\<rparr>"

section \<open>Objects and rights are released\<close>

lemma acquire_balanced:
  "case acquire os of (Inl _, rights) \<Rightarrow> rights = [] | (Inr self, rights) \<Rightarrow> self \<noteq> 0 \<and> rights = [Took self]"
  by (auto simp: acquire_def owned_take_def split: prod.splits)

lemma sec_check_balanced: "balanced (snd (sec_check os self requirement))"
  using balanced_around [OF balanced_pair]
  by (auto simp: sec_check_def owned_take_def Let_def split: prod.splits)

lemma sec_team_balanced: "balanced (snd (sec_team_identifier os self))"
  by (auto simp: sec_team_identifier_def owned_take_def split: prod.splits)

lemma mac_signed_balanced: "balanced (snd (mac_signed os self trust))"
  using sec_team_balanced [of os self] by (auto simp: mac_signed_def split: prod.splits sum.splits option.splits)

text \<open>
  C38.  What the Apple probe takes it gives back.  On every path, failed calls, null results and a
  region of zero size included, each port right that a region query moved into the task is deallocated
  as often as it was moved, and each Core Foundation object that an identity read owned is released
  exactly as often.  None is released before it is there.
\<close>

theorem apple_rights_balanced:
  "balanced (snd (apple_executable query)) \<and> balanced (snd (mapped query a n))
   \<and> balanced (snd (mac_code_identity os)) \<and> balanced (snd (mac_identity_match os expected))"
proof (intro conjI)
  show "balanced (snd (apple_executable query))"
    using region_walk_balanced [of "[]"] by (simp add: apple_executable_def split: prod.splits) (metis snd_conv)
  show "balanced (snd (mapped query a n))" by (rule mapped_balanced)
  show "balanced (snd (mac_code_identity os))"
    using acquire_balanced [of os]
    by (auto simp: mac_code_identity_def split: prod.splits sum.splits sec_verdict.splits)
      (metis append_Cons append_Nil append_assoc balanced_append balanced_around mac_signed_balanced sec_check_balanced snd_conv)+
  show "balanced (snd (mac_identity_match os expected))"
    using acquire_balanced [of os]
    by (auto simp: mac_identity_match_def split: prod.splits sum.splits option.splits choice.splits code_requirement.splits)
      (metis append_Cons append_Nil balanced_around sec_check_balanced snd_conv)+
qed

section \<open>Clean facts\<close>

text \<open>The chain of calls that ends with a requirement that the running code satisfies.\<close>

definition satisfies :: "apple_os \<Rightarrow> string \<Rightarrow> bool" where
  "satisfies os requirement \<longleftrightarrow>
     (\<exists>self t parsed. ac_copy_self os = (0, self) \<and> self \<noteq> 0 \<and> ac_string os requirement = t \<and> t \<noteq> 0
        \<and> ac_requirement os t = (0, parsed) \<and> parsed \<noteq> 0 \<and> ac_check os self parsed = 0)"

definition untraced :: "apple_os \<Rightarrow> bool" where
  "untraced os \<longleftrightarrow>
     (\<exists>wanted len content. ap_proc_size os = (0, wanted) \<and> 36 \<le> wanted
        \<and> ap_proc_read os wanted = (0, len, content) \<and> 36 \<le> len
        \<and> (of_nat (le_nat (take 4 (drop 32 (filled wanted 0 content)))) :: u32) AND P_TRACED = 0)"

lemma traced_absent: "traced os = ProcAbsent \<longleftrightarrow> untraced os"
  by (auto simp: traced_def untraced_def FLAG_OFFSET_def FLAG_BYTES_def slice_range_def Let_def split: prod.splits if_splits)

lemma acquire_Inr: "(\<exists>rights. acquire os = (Inr self, rights)) \<longleftrightarrow> ac_copy_self os = (0, self) \<and> self \<noteq> 0"
  by (auto simp: acquire_def owned_take_def SUCCESS_def split: prod.splits if_splits)

lemma REJECTED_STATUS_nonzero: "SUCCESS \<notin> set REJECTED_STATUS"
  by (simp add: REJECTED_STATUS_def SUCCESS_def)

lemma sec_check_Pass:
  "fst (sec_check os self requirement) = SecPass \<longleftrightarrow>
     (\<exists>t parsed. ac_string os requirement = t \<and> t \<noteq> 0 \<and> ac_requirement os t = (0, parsed) \<and> parsed \<noteq> 0
        \<and> ac_check os self parsed = 0)"
  by (auto simp: sec_check_def owned_take_def SUCCESS_def Let_def split: prod.splits if_splits)

lemma mac_match_clean:
  "fst (mac_identity_match os expected) = Fact Same \<longleftrightarrow>
     (\<exists>requirement. ei_macos expected = Some (Value (CodeRequirement requirement)) \<and> satisfies os requirement)"
proof -
  have "fst (mac_identity_match os expected) = Fact Same \<longleftrightarrow>
      (\<exists>requirement self rights. ei_macos expected = Some (Value (CodeRequirement requirement))
         \<and> acquire os = (Inr self, rights) \<and> fst (sec_check os self requirement) = SecPass)"
    by (auto simp: mac_identity_match_def obs_failed_def
        split: option.splits choice.splits code_requirement.splits prod.splits sum.splits sec_verdict.splits)
  then show ?thesis using acquire_Inr [of os] unfolding satisfies_def sec_check_Pass by blast
qed

lemma mac_signed_trust:
  "(\<exists>i. fst (mac_signed os self trust) = Fact i \<and> ci_trust i = Accepted) \<longleftrightarrow>
     trust = Accepted \<and> (\<exists>information. ac_signing os self = (0, information) \<and> information \<noteq> 0)"
  by (auto simp: mac_signed_def sec_team_identifier_def owned_take_def SUCCESS_def obs_failed_def
      split: prod.splits sum.splits option.splits if_splits)

lemma mac_trust_clean:
  "(\<exists>i. fst (mac_code_identity os) = Fact i \<and> ci_trust i = Accepted) \<longleftrightarrow>
     satisfies os APPLE_ANCHOR
     \<and> (\<exists>information. ac_signing os (snd (ac_copy_self os)) = (0, information) \<and> information \<noteq> 0)"
proof -
  have "(\<exists>i. fst (mac_code_identity os) = Fact i \<and> ci_trust i = Accepted) \<longleftrightarrow>
      (\<exists>self rights. acquire os = (Inr self, rights) \<and> fst (sec_check os self APPLE_ANCHOR) = SecPass
         \<and> (\<exists>i. fst (mac_signed os self Accepted) = Fact i \<and> ci_trust i = Accepted))"
  proof (cases "acquire os")
    case (Pair r rights)
    show ?thesis
    proof (cases r)
      case (Inr self)
      have "ci_trust i \<noteq> Accepted" if "mac_signed os self (Rejected d) = (Fact i, k)" for d i k
        using mac_signed_trust [of os self "Rejected d"] that by auto
      then show ?thesis
        using Pair Inr by (auto simp: mac_code_identity_def obs_failed_def split: prod.splits sec_verdict.splits)
    qed (simp add: mac_code_identity_def obs_failed_def Pair)
  qed
  then show ?thesis
    unfolding mac_signed_trust sec_check_Pass satisfies_def using acquire_Inr [of os] by auto
qed

lemma ios_match_clean:
  "ios_identity_match os expected = Returns (Fact Same) \<longleftrightarrow>
     (\<exists>sig plist team. code_signature (ap_task os) = Got sig \<and> entitlements sig = Some plist
        \<and> read_team_identifier plist = Some team \<and> ei_ios expected = Some (Value (TeamIdentifier team)))"
proof -
  have "ios_identity_match os expected = Returns (Fact Same) \<longleftrightarrow>
      (\<exists>team. ei_ios expected = Some (Value (TeamIdentifier team)) \<and> ios_team os = Got team)"
    by (cases "ei_ios expected"; cases "ios_team os")
      (auto simp: ios_identity_match_def team_option_def ios_compare_def split: choice.splits team_identifier.splits if_splits)
  moreover have "ios_team os = Got team \<longleftrightarrow> (\<exists>sig plist. code_signature (ap_task os) = Got sig
      \<and> entitlements sig = Some plist \<and> read_team_identifier plist = Some team)" for team
    by (simp add: ios_team_def access_bind_Got bind_eq_Some_conv)
  ultimately show ?thesis by blast
qed

text \<open>The name that the kernel stated for the machine: text, with at most one zero byte after it.\<close>

definition machine_stated :: "apple_os \<Rightarrow> string \<Rightarrow> bool" where
  "machine_stated os name \<longleftrightarrow> (\<exists>len content raw bs. ap_machine os = (0, len, content) \<and> 0 < len \<and> len \<le> 128
     \<and> raw = take len (content @ replicate 128 0) \<and> (raw = bs @ [0] \<or> raw = bs \<and> List.last raw \<noteq> 0)
     \<and> text_of bs = Some name \<and> name \<noteq> [])"

lemma strip_zero_iff: "raw \<noteq> [] \<Longrightarrow> strip_zero raw = bs \<longleftrightarrow> raw = bs @ [0] \<or> raw = bs \<and> List.last raw \<noteq> 0"
  by (cases raw rule: rev_cases) (auto simp: strip_zero_def)

lemma machine_name_iff: "machine_name os = Inr name \<longleftrightarrow> machine_stated os name"
proof -
  obtain result len content where m: "ap_machine os = (result, len, content)" by (metis prod_cases3)
  have "take len (filled 128 0 content) = take len (content @ replicate 128 0)"
    and "take len (content @ replicate 128 0) \<noteq> []" if "0 < len" "len \<le> 128"
    using that by (auto simp: filled_def min_def)
  then show ?thesis
    unfolding machine_stated_def machine_name_def m LIMIT_def Let_def
    by (auto simp flip: strip_zero_iff split: option.splits)
qed

text \<open>
  C39.  What a clean answer of an Apple process means.  The tracer detector is clean exactly when the
  kernel gave a process record and the trace bit in it is clear.  On macOS the machine detector is
  clean exactly when the kernel answered that no monitor runs it, and the identity detectors exactly
  when the running code satisfies the anchor and its signing information was read, and when it
  satisfies the pinned requirement.  On iOS the machine detector is clean exactly when the kernel
  answered, within its buffer, a text that starts with the name of a device, and the expected identity exactly when the entitlements of the signature name the pinned team.
\<close>

theorem apple_clean_exact:
  "(tracer_present (mac_environment os agent) now = Returns Clean \<longleftrightarrow> untraced os)
   \<and> (tracer_present (ios_environment os agent) now = Returns Clean \<longleftrightarrow> untraced os)
   \<and> (machine_host_detector (mac_environment os agent) now = Returns Clean \<longleftrightarrow>
        (\<exists>errno. ap_vmm os = (0, errno, 4, 0)))
   \<and> (platform_trust_detector (mac_environment os agent) now = Returns Clean \<longleftrightarrow>
        satisfies os APPLE_ANCHOR
        \<and> (\<exists>information. ac_signing os (snd (ac_copy_self os)) = (0, information) \<and> information \<noteq> 0))
   \<and> (expected_identity_detector (mac_environment os agent) (Some expected) now = Returns Clean \<longleftrightarrow>
        (\<exists>requirement. ei_macos expected = Some (Value (CodeRequirement requirement)) \<and> satisfies os requirement))
   \<and> (machine_host_detector (ios_environment os agent) now = Returns Clean \<longleftrightarrow>
        (\<exists>name. machine_stated os name
           \<and> list_ex (starts_with name) [''iPhone'', ''iPad'', ''iPod'']))
   \<and> (expected_identity_detector (ios_environment os agent) (Some expected) now = Returns Clean \<longleftrightarrow>
        (\<exists>sig plist team. code_signature (ap_task os) = Got sig \<and> entitlements sig = Some plist
           \<and> read_team_identifier plist = Some team \<and> ei_ios expected = Some (Value (TeamIdentifier team))))"
proof -
  have tracer: "apple_tracer_state os = Fact TracerAbsent \<longleftrightarrow> untraced os"
    unfolding traced_absent [symmetric] by (auto simp: apple_tracer_state_def split: proc_verdict.splits)
  have mac: "mac_machine_host os = Fact Hardware \<longleftrightarrow> (\<exists>errno. ap_vmm os = (0, errno, 4, 0))"
    by (auto simp: mac_machine_host_def vmm_present_def obs_failed_def split: prod.splits if_splits)
  have ios: "ios_machine_host os = Fact Hardware \<longleftrightarrow>
      (\<exists>name. machine_stated os name \<and> list_ex (starts_with name) [''iPhone'', ''iPad'', ''iPod''])"
    unfolding machine_name_iff [symmetric]
    by (auto simp: ios_machine_host_def classify_def obs_failed_def split: sum.splits if_splits)
  show ?thesis
    by (simp add: detector_clean mac_environment_def ios_environment_def tracer mac ios
        mac_trust_clean mac_match_clean ios_match_clean)
qed

end
