(* ===== verification/Spec2Isabelle.thy ===== *)
theory Spec2Isabelle
  imports Fid_Tauri Fid_Local_Agent Fid_Extract Fid_Testkit Fid_Linux Fid_Android Fid_Windows Fid_Apple
begin

text \<open>
  A verification library for Fidelity, the Rust runtime that watches the process of a host program,
  retains what it finds, and denies the host's protected operations when the host's policy says so.

  \<^bold>\<open>The program.\<close>  A host builds a runtime (\<open>Fidelity::builder()\<close>), gives it a policy (an action and a
  threshold for each category), the identity it expects of its own image, and perhaps a callback, and
  calls \<open>start()\<close>.  The start validates the configuration, captures two baselines, runs the cheap
  detectors, records their outcomes and hands a worker to a thread.  Each worker cycle dispatches
  waiting reports, runs every detector against the environment of the platform, records the outcomes,
  latches a category for each finding whose action is to deny, runs the host callback or stops the
  process where the policy asks for it, and waits for a jittered time.  The host asks
  \<open>ensure_allowed()\<close> before a protected operation; that reads process-wide words which only grow.
  The environment of a platform is a set of capabilities, each an observation: a fact, a missing
  interface or a failure.  Beside it, the macros encrypt literals at build time and the runtime
  decrypts them with a key that the code identity takes part in.

  \<^bold>\<open>Reading the model.\<close>  A Rust struct is a record, an enum a datatype, an unsigned integer a word of
  its width, \<open>usize\<close> a natural number whose checked operations fail at \<open>2 ^ 64\<close>; a panic is the value
  \<open>Panic\<close> of the type \<open>exec\<close>, an error the left value of a sum or \<open>None\<close>.  Arithmetic that depends on
  overflow checks takes the profile as an argument.  A read of foreign memory is a value of \<open>access\<close>
  with a fault of its own, so that a theorem can say that no fault happens.  What an operating system,
  a loader, a clock, a host callback or a framework answers is an argument of the definitions that ask
  it, or a field of a record of such answers.

  \<^bold>\<open>The theories.\<close>
  \<^item> \<open>Fid_Prelude\<close>, \<open>Fid_Text\<close>: integers, \<open>exec\<close>, slices, little and big endian fields; Rust strings as
    byte lists with UTF-8, \<open>chars\<close>, \<open>lines\<close>, splitting, trimming and number parsing.
  \<^item> \<open>Fid_Types\<close> (\<open>crates/fidelity-types\<close>): categories and the 32-bit category set (locale \<open>latch_set\<close>),
    strengths, actions, bounded text, evidence, findings, outcomes, the expected identity, the snapshot.
  \<^item> \<open>Fid_Facts\<close> (\<open>crates/fidelity-core\<close>): observations, the facts, the bounded sorted snapshots of code
    regions and dispatch targets with their merge comparisons (locale \<open>merge_scan\<close>, interpreted on the
    three comparisons), and the capability record.  \<open>Fid_Local_Agent\<close> holds the default loopback probe.
  \<^item> \<open>Fid_Detect\<close> (\<open>crates/fidelity-detect\<close>): the twelve detectors and both scans.  The locale
    \<open>detector_contract\<close> states what one detector promises and is interpreted on each of the eleven that
    a scan runs; no failed, missing or panicking probe becomes a clean outcome.
  \<^item> \<open>Fid_Policy\<close>, \<open>Fid_State\<close>, \<open>Fid_Worker\<close> (\<open>crates/fidelity-engine\<close>): the policy array (locale
    \<open>choice_table\<close>), the report queue (\<open>bounded_buffer\<close>, a refinement of a bounded queue), the slots as a
    summary of the history, recording, dispatch, the cycle, the wait.  The locales \<open>latch_hooks\<close> and
    \<open>worker_invariant\<close> state what the worker needs of the words of the process and what it keeps of an
    invariant; both are interpreted on the facade.
  \<^item> \<open>Fid_Process\<close>, \<open>Fid_Builder\<close>, \<open>Fid_System\<close> (\<open>crates/fidelity\<close>): the process words, the handle, the
    builder and the start with its rollback, and the life of the process as the step relation \<open>sys_step\<close>:
    failing and successful starts, host calls, worker cycles, the crash.  A start, a host call and a
    cycle are each one transition there; the finer relation \<open>locked_section\<close> has one transition for each
    time a thread takes a lock or sets a word, cycles and host calls are sequences of it, and any
    interleaving of its steps keeps the invariant and every latch.  The invariant of the
    reachable states says that denials, latches and snapshot agree; latches only grow; a failed start
    restores every word.  \<open>Fid_Tauri\<close> is the binding for Tauri (\<open>bindings/tauri-plugin-fidelity\<close>).
  \<^item> \<open>Fid_Sha256\<close>, \<open>Fid_Cipher\<close>, \<open>Fid_Guarded\<close> (\<open>crates/fidelity-cipher\<close>, \<open>fidelity-macros\<close>,
    \<open>fidelity/build.rs\<close>, \<open>fidelity/src/secret.rs\<close>): the digest against the formulation with explicit
    padding, the two streams against a keystream by position, the binding of a build, the literal
    reader, the expansion and the read, which returns the literal.  \<open>Fid_Extract\<close>
    (\<open>fidelity-cipher/examples/extract.rs\<close>) is the extraction control, which finds exactly what a search
    of the whole file finds and so states what guarding does not hide.
  \<^item> \<open>Fid_Procfs\<close>, \<open>Fid_Elf\<close>, \<open>Fid_Pe\<close>, \<open>Fid_Smbios\<close>, \<open>Fid_Apk\<close>, \<open>Fid_Macho\<close> (\<open>crates/fidelity-formats\<close>):
    every reader, total on arbitrary bytes, with round trips against writers of the format.
  \<^item> \<open>Fid_Loader\<close>, \<open>Fid_Linux\<close>, \<open>Fid_Android\<close>, \<open>Fid_Win_Memory\<close>, \<open>Fid_Windows\<close>, \<open>Fid_Apple_Image\<close>,
    \<open>Fid_Apple\<close> (\<open>crates/probe\<close>): the boundaries under \<open>sys/\<close> and the capabilities over them.  For each
    platform one theorem says exactly when the detectors that it lists are clean, in terms of what the
    system answered; others say that the unsafe reads stay inside confirmed memory (the locale
    \<open>image_reader\<close> is interpreted on both image finders; on Apple the confirmation does not ask for read
    permission, and the theorem names that as the only way to a fault) and that handles and rights are
    released on every path.
  \<^item> \<open>Fid_Testkit\<close> (\<open>crates/fidelity-testkit\<close>): the scripted environment and what the worker sees of it.
  \<^item> This theory: a property that spans the parts, from what a kernel states to the denial.

  \<^bold>\<open>Bounds and termination.\<close>  Loops over data are structural, or functions with a measure.  The one loop
  of the code with no bound of its own, the copy of a readable allocation on Windows, is a
  \<open>partial_function\<close> whose return is proved for every answer of the system.  The two walks over the
  address space run at most \<open>MAX_PASSES\<close> passes, as the code does, and that a cut walk counts as a
  success is stated as it is.  The read loop of the loopback probe runs over the list of what the reads
  of a connection answer: it is done when the list holds enough answers that are not interruptions,
  and it has no value for a list of interruptions only, on which the code does not return.  The endless loop of the worker is the list of environments that its
  cycles meet; nothing needs fuel.

  \<^bold>\<open>Not modelled.\<close>  The tests of the repository, the demonstrations and cost measurements under
  \<open>examples/\<close> and \<open>probe/measure.rs\<close>, and the JNI harness of the Android test application print or assert
  what the library does and hold no behaviour of it.  Module roots only declare and export.  Of the
  macros, the token text that \<open>assemble\<close> prints is a record of its parts.  Of the Windows probe, the
  socket initialisation of \<open>WindowsEnvironment::new\<close> is left out, a call with no answer that the probe
  reads.  The display texts of errors, the serialised form of the data types, Tauri itself, and the
  memory model under the atomic words are outside: each access to a word is one step.
\<close>

section \<open>From the kernel to the denial\<close>

text \<open>What the kernel of each platform states when a tracer holds the process.\<close>

definition kernel_reports_tracer :: "environment \<Rightarrow> bool" where
  "kernel_reports_tracer env \<longleftrightarrow>
     (\<exists>os agent status pid. env = linux_environment os agent
        \<and> lx_read_to_string os STATUS_PATH = Inr status \<and> read_tracer_pid status = Some (tracer_pid.TracerPresent pid))
   \<or> (\<exists>os agent status pid. env = android_environment os agent
        \<and> an_read_to_string os STATUS_PATH = Inr status \<and> read_tracer_pid status = Some (tracer_pid.TracerPresent pid))
   \<or> (\<exists>os agent. env = windows_environment os agent \<and> fst (wn_debugger os) \<noteq> 0 \<and> snd (wn_debugger os) \<noteq> 0)
   \<or> (\<exists>os agent. (env = mac_environment os agent \<or> env = ios_environment os agent) \<and> traced os = ProcPresent)"

lemma procfs_tracer_held:
  "rd STATUS_PATH = Inr status \<Longrightarrow> read_tracer_pid status = Some (tracer_pid.TracerPresent pid) \<Longrightarrow>
     \<exists>detail. procfs_tracer_state (status_read rd) = Fact (TracerHeld detail)"
  by (simp add: procfs_tracer_state_def status_read_def)

lemma win_tracer_held:
  "fst (wn_debugger os) \<noteq> 0 \<Longrightarrow> snd (wn_debugger os) \<noteq> 0 \<Longrightarrow> \<exists>detail. win_tracer_state os = Fact (TracerHeld detail)"
  by (auto simp: win_tracer_state_def debugger_present_def split: prod.splits)

lemma tracer_observed:
  assumes "kernel_reports_tracer env"
  shows "\<exists>detail. en_tracer_state env = Returns (Fact (TracerHeld detail))"
  using assms unfolding kernel_reports_tracer_def
  by (auto simp: linux_environment_def android_environment_def windows_environment_def mac_environment_def
      ios_environment_def linux_tracer_state_def android_tracer_state_def apple_tracer_state_def
      procfs_tracer_held win_tracer_held)

lemma tracer_found:
  assumes "kernel_reports_tracer env"
  shows "\<exists>f. (TRACER_PRESENT, Finding f) \<in> set (scan_all ds env now) \<and> f_category f = Debugging \<and> f_strength f = Medium"
proof -
  obtain detail where t: "en_tracer_state env = Returns (Fact (TracerHeld detail))"
    using tracer_observed [OF assms] by blast
  let ?f = "finding_new TRACER_PRESENT Medium (evidence.TracerPresent detail) now"
  have "(TRACER_PRESENT, Finding ?f) \<in> set (scan_all ds env now)"
    by (simp add: scan_all_def scan_cheap_def guarded_def tracer_present_def t)
  then show ?thesis by (intro exI [of _ ?f]) (simp add: TRACER_PRESENT_def detector_new_def)
qed

text \<open>
  C4.  A tracer that the kernel reports ends in a denial for good.  On every platform, when the host
  chose to deny for the debugging category at medium strength or below, and the kernel states in a
  worker cycle that a tracer holds the process, then after that cycle, and after any further starts,
  host calls, callbacks and cycles, the check of a protected operation is refused for a latch and
  names that category, unless the process was stopped.
\<close>

theorem reported_tracer_is_denied:
  assumes "reachable clk (Live rt wk h sh)" and "kernel_reports_tracer env"
    and "policy_action (rt_policy rt) Debugging = Deny" and "policy_threshold (rt_policy rt) Debugging \<le> Medium"
    and "run_once clk wk env (h, sh) = Continues (h', sh')"
    and "live_steps clk (Live rt (snd (next_wait wk)) h' sh') s"
  shows "s = Gone \<or> (\<exists>wk'' h'' sh'' d. s = Live rt wk'' h'' sh''
    \<and> ensure_allowed (sh_process sh'') = Inl d \<and> dn_reason d = Latched \<and> cs_contains (dn_categories d) Debugging)"
proof -
  have live: "sys_inv sh" "our_worker clk rt wk" using reachable_Live [OF assms(1)] by auto
  have deny: "qualifying_action (wk_policy wk) f = Some Deny" if "f_category f = Debugging" "f_strength f = Medium" for f
    using that assms(3,4) live(2) by (simp add: qualifying_action_iff our_worker_def)
  have "cs_contains (pw_latched (sh_process sh')) Debugging"
  proof (rule cycle_latches [OF live(2,1) assms(5)])
    show "TRACER_PRESENT \<in> set INVENTORY" by (simp add: INVENTORY_def)
    show "\<exists>f. (TRACER_PRESENT, Finding f) \<in> set (scan_all (wk_detectors wk) env now)
        \<and> f_category f = Debugging \<and> qualifying_action (wk_policy wk) f = Some Deny" for now
      using tracer_found [OF assms(2)] deny by blast
  qed
  note latched = this
  have "system_inv clk (Live rt (snd (next_wait wk)) h' sh')"
    using reachable_inv [OF reachable.step [OF assms(1) sys_step.cycle [OF assms(5)]]] .
  from live_steps_grow [OF assms(6) refl this]
  consider "s = Gone" | wk'' h'' sh'' where "s = Live rt wk'' h'' sh''" "grows sh' sh''" by blast
  then show ?thesis
  proof cases
    case 2
    with latched have "cs_contains (pw_latched (sh_process sh'')) Debugging" by (simp add: grows_def)
    from ensure_allowed_latched [OF this] 2(1) show ?thesis by blast
  qed simp
qed

definition deny_tracers :: policy where
  "deny_tracers = policy_set policy_new Debugging Deny Medium"

definition traced_windows :: windows_os where
  "traced_windows = sample_windows\<lparr>wn_debugger := (1, 1)\<rparr>"

lemma deny_tracers_entries:
  "policy_action deny_tracers c = (if c = Debugging then Deny else Report)"
  "policy_threshold deny_tracers Debugging = Medium"
  by (simp_all add: deny_tracers_def policy_action_entry policy_threshold_entry pol.look_assign [OF pol.ok_start] pol.look_start entry_default_def)

theorem reported_tracer_is_denied_witness:
  "\<exists>rt wk sh h' sh' d. reachable (\<lambda>_. None) (Live rt wk () sh)
     \<and> run_once (\<lambda>_. None) wk (windows_environment traced_windows (Returns (Fact AgentAbsent))) ((), sh) = Continues (h', sh')
     \<and> ensure_allowed (sh_process sh') = Inl d \<and> dn_reason d = Latched \<and> cs_contains (dn_categories d) Debugging"
proof -
  let ?clk = "\<lambda>_. None" and ?env = "windows_environment traced_windows (Returns (Fact AgentAbsent))"
  have "\<not> needs_callback deny_tracers" by (simp add: needs_callback_iff deny_tracers_entries)
  then obtain rt wk sh where s: "start ?clk sample_inputs (sample_builder deny_tracers) () process_init 0 = StartOk rt wk () sh"
    and p: "rt_policy rt = deny_tracers" "wk_policy wk = deny_tracers" "sh_pending sh = reports_new"
    using sample_start_policy by blast
  have r: "reachable ?clk (Live rt wk () sh)"
    using reachable.step [OF reachable.init sys_step.start_ok [OF s]] .
  obtain h' sh' where c: "run_once ?clk wk ?env ((), sh) = Continues (h', sh')"
  proof -
    have "policy_action (wk_policy wk) c \<noteq> Crash" for c using p by (simp add: deny_tracers_entries)
    moreover have "fst (pending_take (sh_pending (snd ((), sh)))) = []"
      using p by (simp add: pending_take_def reports_take_def reports_new_def map_filter_simps)
    ultimately show ?thesis using run_once_continues that by blast
  qed
  have k: "kernel_reports_tracer ?env"
    unfolding kernel_reports_tracer_def by (auto simp: traced_windows_def)
  from reported_tracer_is_denied [OF r k _ _ c live_steps.none] p obtain d
    where "ensure_allowed (sh_process sh') = Inl d" "dn_reason d = Latched" "cs_contains (dn_categories d) Debugging"
    by (auto simp: deny_tracers_entries)
  with r c show ?thesis by blast
qed

end
